(* ===== verification/Prelude.thy ===== *)
theory Prelude
  imports Complex_Main "HOL-Library.Word" "HOL-Library.Product_Lexorder"
begin

text \<open>
  Shared vocabulary of the development: the fixed-width integer types of the C++ sources,
  the collections of simplification facts used by the component theories, and the generic
  lemmas on words and lists that several components need.
\<close>

unbundle bit_operations_syntax

section \<open>Fixed-width integers\<close>

type_synonym u8 = "8 word"
type_synonym u16 = "16 word"
type_synonym u32 = "32 word"
type_synonym u64 = "64 word"

type_synonym bytes = "u8 list"

text \<open>
  A C++ \<^verbatim>\<open>int\<close> or \<^verbatim>\<open>int64_t\<close> is an \<open>int\<close>; where the source converts to one of them or adds in it, the
  result is reduced to its width. (A signed addition that overflows has no defined result in C++; the
  model then wraps, as the compiled code does on the targets of the program.)
\<close>

definition to_int :: "int \<Rightarrow> int" where
  "to_int v = sint (of_int v :: 32 word)"

definition to_int64 :: "int \<Rightarrow> int" where
  "to_int64 v = sint (of_int v :: 64 word)"

definition in_int32 :: "int \<Rightarrow> bool" where
  "in_int32 v \<longleftrightarrow> -2147483648 \<le> v \<and> v < 2147483648"

lemma to_int_id [simp]: "in_int32 v \<Longrightarrow> to_int v = v"
  by (simp add: to_int_def in_int32_def signed_of_int signed_take_bit_int_eq_self)

lemma to_int64_id: "-9223372036854775808 \<le> v \<Longrightarrow> v < 9223372036854775808 \<Longrightarrow> to_int64 v = v"
  by (simp add: to_int64_def signed_of_int signed_take_bit_int_eq_self)

named_theorems protocol_defs \<open>definitions of the chunk arithmetic\<close>
named_theorems range_defs \<open>definitions of the received-range tracker\<close>

lemma unat_u32_bound [simp]: "unat (a :: u32) < 4294967296"
  using unsigned_less [of a] by simp

lemma u32_le_iff: "(a :: u32) \<le> b \<longleftrightarrow> unat a \<le> unat b"
  by (simp add: word_le_nat_alt)

lemma u32_less_iff: "(a :: u32) < b \<longleftrightarrow> unat a < unat b"
  by (simp add: word_less_nat_alt)

lemmas u32_order = u32_le_iff u32_less_iff

lemma unat_u32_add:
  "unat (a :: u32) + unat b < 4294967296 \<Longrightarrow> unat (a + b) = unat a + unat b"
  by (simp add: unat_word_ariths)

lemma unat_u32_mult:
  "unat (a :: u32) * unat b < 4294967296 \<Longrightarrow> unat (a * b) = unat a * unat b"
  by (simp add: unat_word_ariths)

lemma unat_u32_sub: "(b :: u32) \<le> a \<Longrightarrow> unat (a - b) = unat a - unat b"
  by (rule unat_sub)

lemma unat_u32_max: "unat (max (a :: u32) b) = max (unat a) (unat b)"
  by (simp add: max_def u32_le_iff)

lemma unat_u32_min: "unat (min (a :: u32) b) = min (unat a) (unat b)"
  by (simp add: min_def u32_le_iff)

lemmas u32_arith = unat_u32_add unat_u32_sub unat_u32_max unat_u32_min


lemma unat_u8_bound: "unat (a :: u8) < 256"
  using unsigned_less [of a] by simp

lemma unat_ucast_8_32: "unat (ucast (a :: u8) :: u32) = unat a"
  using unat_u8_bound [of a] by (simp add: unsigned_ucast_eq take_bit_nat_eq_self_iff)

end
