(* ===== verification/Types.thy ===== *)
theory Types
  imports Prelude
begin

text \<open>
  The plain data of the service: \<^verbatim>\<open>Types.hpp\<close>, the enums and metrics of
  \<^verbatim>\<open>ArchiveSummary.hpp\<close> and the settings structs of \<^verbatim>\<open>Config.hpp\<close>. Constructors whose C++ name
  is taken in HOL or used by two enums carry a suffix. A C++ \<^verbatim>\<open>int\<close> is an \<open>int\<close>, a \<^verbatim>\<open>double\<close> a \<open>rat\<close>.
\<close>

section \<open>Types.hpp\<close>

record LogEntry =
  le_id :: u16
  le_num_logs :: u16
  le_last_log_num :: u16
  le_time_utc :: u32
  le_size :: u32

record ArchivedLogCandidate =
  cand_sha256 :: string
  cand_probe_sha256 :: string
  cand_probe_bytes :: int
  cand_filename :: string

datatype ArchiveResult = SkippedDuplicate | Downloaded | Failed | Cancelled

datatype ArchiveFailureReason =
    None_reason | LogDataTimeout | EmptyPayload | NoProgress | IncompleteDownload
  | VerificationFailed | ParseFailed | RereadMismatch | OverlapConflict | StorageError
  | Cancelled_reason | TransportSendFailed | TransportClosed | LinkTimeout

fun toString_reason :: "ArchiveFailureReason \<Rightarrow> string" where
  "toString_reason None_reason = ''none''"
| "toString_reason LogDataTimeout = ''log_data_timeout''"
| "toString_reason EmptyPayload = ''empty_payload''"
| "toString_reason NoProgress = ''no_progress''"
| "toString_reason IncompleteDownload = ''incomplete_download''"
| "toString_reason VerificationFailed = ''verification_failed''"
| "toString_reason ParseFailed = ''parse_failed''"
| "toString_reason RereadMismatch = ''reread_mismatch''"
| "toString_reason OverlapConflict = ''overlap_conflict''"
| "toString_reason StorageError = ''storage_error''"
| "toString_reason Cancelled_reason = ''cancelled''"
| "toString_reason TransportSendFailed = ''transport_send_failed''"
| "toString_reason TransportClosed = ''transport_closed''"
| "toString_reason LinkTimeout = ''link_timeout''"

definition isTransportFailure :: "ArchiveFailureReason \<Rightarrow> bool" where
  "isTransportFailure reason \<longleftrightarrow>
     reason = TransportSendFailed \<or> reason = TransportClosed \<or> reason = LinkTimeout"

record ArchiveCycleResult =
  cyc_downloaded :: int
  cyc_skipped :: int
  cyc_failed :: int
  cyc_cancelled :: int
  all_archived :: bool
  cyc_last_failure_reason :: ArchiveFailureReason

definition ArchiveCycleResult_new :: ArchiveCycleResult where
  "ArchiveCycleResult_new =
     \<lparr>cyc_downloaded = 0, cyc_skipped = 0, cyc_failed = 0, cyc_cancelled = 0,
      all_archived = False, cyc_last_failure_reason = None_reason\<rparr>"

lemma toString_reason_inj: "inj toString_reason"
proof (rule injI)
  fix r r' :: ArchiveFailureReason
  show "toString_reason r = toString_reason r' \<Longrightarrow> r = r'"
    by (cases r; cases r'; simp)
qed

section \<open>ArchiveSummary.hpp\<close>

datatype FcRereadMode = None_mode | Sample | Full

datatype VerificationOutcome = Skipped_outcome | Ok_outcome | Failed_outcome

fun outcomeStr :: "VerificationOutcome \<Rightarrow> string" where
  "outcomeStr Ok_outcome = ''ok''"
| "outcomeStr Failed_outcome = ''failed''"
| "outcomeStr Skipped_outcome = ''skipped''"

record StreamDownloadMetrics =
  duplicate_packets :: u64
  gap_fill_requests :: u64
  log_data_packets :: u64
  log_request_packets :: u64
  retries :: u64
  met_overlap_conflicts :: u64
  queue_depth_max :: nat

definition StreamDownloadMetrics_new :: StreamDownloadMetrics where
  "StreamDownloadMetrics_new =
     \<lparr>duplicate_packets = 0, gap_fill_requests = 0, log_data_packets = 0, log_request_packets = 0,
      retries = 0, met_overlap_conflicts = 0, queue_depth_max = 0\<rparr>"

section \<open>Config.hpp\<close>

record TransportSettings =
  ts_transport :: string
  ts_host :: string
  ts_port :: int
  ts_bind_host :: string
  ts_bind_port :: int
  heartbeat_timeout_sec :: int

record DownloadSettings =
  delay_after_disarm_sec :: int
  enumerate_attempts :: int
  enumerate_retry_delay_sec :: int
  download_timeout_sec :: int
  retry_count :: int
  retry_delay_sec :: int
  probe_bytes :: int
  verify_after_download :: bool
  erase_after_success :: bool
  stall_abort_attempts :: int
  fc_busy_retry_attempts :: int
  fc_busy_retry_delay_sec :: int
  max_queued_log_data :: int
  reconnect_on_transport_failure :: bool
  reconnect_after_consecutive_failures :: int
  gap_fill_idle_ms :: int
  verify_dataflash_parse :: bool
  verify_max_bad_header_ratio :: rat
  detect_overlap_conflict :: bool
  verify_fc_reread :: string
  verify_fc_reread_sample_count :: int
  benchmark_download :: bool

record StorageSettings =
  st_directory :: string
  max_size_gb :: int

record LoggingSettings =
  verbose :: bool
  lg_file :: string

record CompanionSettings =
  co_enabled :: bool
  co_bind_host :: string
  co_bind_port :: int
  send_host :: string
  send_port :: int
  token :: string
  max_request_bytes :: int
  max_response_bytes :: int
  max_fc_logs_per_response :: int
  udp_proxy_keepalive_ms :: int

record RecordingSettings =
  re_enabled :: bool
  mount_path :: string
  source_port :: int
  rtp_payload_type :: int
  filename_prefix :: string
  gst_launch_path :: string
  fsync_interval_sec :: int

record Config =
  transport :: TransportSettings
  download :: DownloadSettings
  storage :: StorageSettings
  logging :: LoggingSettings
  companion :: CompanionSettings
  companion_table_present :: bool
  recording :: RecordingSettings

definition parseFcRereadMode :: "string \<Rightarrow> FcRereadMode" where
  "parseFcRereadMode value =
     (if value = ''none'' then None_mode else if value = ''full'' then Full else Sample)"

text \<open>The in-class initialisers of the settings: the configuration when no file sets a key.\<close>

definition DownloadSettings_default :: DownloadSettings where
  "DownloadSettings_default =
     \<lparr>delay_after_disarm_sec = 5, enumerate_attempts = 6, enumerate_retry_delay_sec = 3,
      download_timeout_sec = 5, retry_count = 3, retry_delay_sec = 2, probe_bytes = 51200,
      verify_after_download = True, erase_after_success = True, stall_abort_attempts = 3,
      fc_busy_retry_attempts = 8, fc_busy_retry_delay_sec = 3, max_queued_log_data = 2048,
      reconnect_on_transport_failure = True, reconnect_after_consecutive_failures = 3,
      gap_fill_idle_ms = 500, verify_dataflash_parse = True, verify_max_bad_header_ratio = 1 / 1000,
      detect_overlap_conflict = True, verify_fc_reread = ''sample'',
      verify_fc_reread_sample_count = 64, benchmark_download = False\<rparr>"

definition Config_default :: Config where
  "Config_default =
     \<lparr>transport = \<lparr>ts_transport = ''tcp'', ts_host = ''127.0.0.1'', ts_port = 5760,
        ts_bind_host = ''0.0.0.0'', ts_bind_port = 0, heartbeat_timeout_sec = 5\<rparr>,
      download = DownloadSettings_default,
      storage = \<lparr>st_directory = ''/var/lib/mcls'', max_size_gb = 1\<rparr>,
      logging = \<lparr>verbose = True, lg_file = ''''\<rparr>,
      companion = \<lparr>co_enabled = False, co_bind_host = ''127.0.0.1'', co_bind_port = 14541,
        send_host = ''127.0.0.1'', send_port = 14540, token = '''', max_request_bytes = 2048,
        max_response_bytes = 1200, max_fc_logs_per_response = 8, udp_proxy_keepalive_ms = 5000\<rparr>,
      companion_table_present = False,
      recording = \<lparr>re_enabled = False, mount_path = ''/mnt/usb'', source_port = 5603,
        rtp_payload_type = 35, filename_prefix = ''rec'', gst_launch_path = ''gst-launch-1.0'',
        fsync_interval_sec = 3\<rparr>\<rparr>"

end
