(* ===== verification/MavlinkLogProtocol.thy ===== *)
theory MavlinkLogProtocol
  imports Prelude
begin

text \<open>
  \<^verbatim>\<open>include/mcls/MavlinkLogProtocol.hpp\<close>: the payload size of a LOG_DATA message and
  the three helpers that map byte offsets to chunk slots. The payload size itself is a
  constant of the generated MAVLink headers; the repository's own tests
  (\<^verbatim>\<open>tests/test_mavlink_log_protocol.cpp\<close>) fix it to 90.
\<close>

definition kLogChunkSize :: u32 where
  "kLogChunkSize = 90"

definition kLogStreamRequestCount :: u32 where
  "kLogStreamRequestCount = 0xFFFFFFFF"

definition alignDownToChunk :: "u32 \<Rightarrow> u32" where
  "alignDownToChunk offset = offset - (offset mod kLogChunkSize)"

definition chunkSlotIndex :: "u32 \<Rightarrow> u32" where
  "chunkSlotIndex offset = offset div kLogChunkSize"

definition chunkCountForSize :: "u32 \<Rightarrow> u32" where
  "chunkCountForSize sz = (if sz = 0 then 0 else (sz + kLogChunkSize - 1) div kLogChunkSize)"

declare kLogChunkSize_def [protocol_defs] alignDownToChunk_def [protocol_defs]
  chunkSlotIndex_def [protocol_defs] chunkCountForSize_def [protocol_defs]
  kLogStreamRequestCount_def [protocol_defs]

lemma unat_kLogChunkSize [simp]: "unat kLogChunkSize = 90"
  by (simp add: kLogChunkSize_def)

lemma unat_alignDownToChunk: "unat (alignDownToChunk x) = unat x - unat x mod 90"
proof -
  have "x mod 90 \<le> x"
    by (simp add: u32_le_iff unat_mod_distrib)
  then show ?thesis
    by (simp add: protocol_defs unat_u32_sub unat_mod_distrib)
qed

lemma unat_chunkSlotIndex: "unat (chunkSlotIndex x) = unat x div 90"
  by (simp add: protocol_defs unat_div_distrib)

lemma unat_chunkCountForSize:
  assumes "unat sz \<le> 4294967206"
  shows "unat (chunkCountForSize sz) = (unat sz + 89) div 90"
proof (cases "sz = 0")
  case False
  have "unat (sz + 89) = unat sz + 89"
    using assms by (subst unat_u32_add) auto
  moreover have "sz + kLogChunkSize - 1 = sz + 89"
    by (simp add: kLogChunkSize_def)
  ultimately show ?thesis
    using False by (simp only: chunkCountForSize_def if_False unat_div_distrib unat_kLogChunkSize)
qed (simp add: protocol_defs)

lemma alignDownToChunk_le: "alignDownToChunk x \<le> x"
  by (simp add: u32_le_iff unat_alignDownToChunk)

lemma alignDownToChunk_dvd: "90 dvd unat (alignDownToChunk x)"
  by (simp add: unat_alignDownToChunk minus_mod_eq_mult_div)

lemma alignDownToChunk_slot: "unat (alignDownToChunk x) = 90 * unat (chunkSlotIndex x)"
  by (simp add: unat_alignDownToChunk unat_chunkSlotIndex minus_mod_eq_mult_div)

lemma unat_chunk_mod: "unat (x mod kLogChunkSize) = unat x mod 90"
  by (simp add: protocol_defs unat_mod_distrib)

lemma chunk_mod_0_iff: "x mod kLogChunkSize = 0 \<longleftrightarrow> 90 dvd unat x"
  by (metis dvd_eq_mod_eq_0 unat_chunk_mod unat_eq_zero)

end
