(* ===== verification/DownloaderState.thy ===== *)
theory DownloaderState
  imports Types MavlinkLogProtocol "HOL-Library.Sublist"
begin

text \<open>
  The state of a \<^verbatim>\<open>LogDownloader\<close> (\<^verbatim>\<open>LogDownloader.hpp\<close>, \<^verbatim>\<open>LogDownloader.cpp\<close>) that the RX thread and the
  main thread share, and the operations on it that \<^verbatim>\<open>StreamDownloadSession\<close> calls as a friend:
  the bounded queue of LOG_DATA chunks, the list of LOG_ENTRY replies, the counter of zero-length
  replies, the cancel flag, the progress record and the requests sent to the flight controller.

  The outside world is a script of \<open>tick\<close>s. A tick is what happens while the main thread waits
  (\<^verbatim>\<open>wait_for\<close>, \<^verbatim>\<open>sleep_for\<close>): the messages the RX thread delivers, whether \<^verbatim>\<open>requestCancel\<close> is called,
  by how many milliseconds the steady clock moves, and the state of the link afterwards. A delivery
  between two waits is drained at the same point as one during the wait before it. A function that
  needs a tick the script does not have returns \<open>None\<close>: it is still waiting.
\<close>

section \<open>Messages\<close>

text \<open>
  Messages of the log protocol as decoded by the MAVLink library. The memory of a LOG_DATA payload
  is the list of bytes from \<^verbatim>\<open>data.data\<close> on; its first 90 bytes are the field itself.
\<close>

datatype mav_in =
    LOG_ENTRY u16 u16 u16 u32 u32
  | LOG_DATA u16 u32 u8 bytes
  | OTHER u32

datatype fc_request =
    LOG_REQUEST_LIST u16 u16
  | LOG_REQUEST_DATA u16 u32 u32
  | LOG_REQUEST_END
  | LOG_ERASE

record tick =
  tk_msgs :: "mav_in list"
  tk_cancel :: bool
  tk_dt :: nat
  tk_connected :: bool
  tk_fresh :: bool
  tk_send_ok :: bool

record LogDataChunk =
  lc_id :: u16
  lc_offset :: u32
  lc_count :: u32
  lc_data :: bytes

record ActiveArchiveProgress =
  pr_active :: bool
  pr_log_id :: u16
  pr_bytes_received :: u32
  pr_total_bytes :: u32
  pr_bytes_per_sec :: u32

definition ActiveArchiveProgress_new :: ActiveArchiveProgress where
  "ActiveArchiveProgress_new =
     \<lparr>pr_active = False, pr_log_id = 0, pr_bytes_received = 0, pr_total_bytes = 0,
      pr_bytes_per_sec = 0\<rparr>"

text \<open>The clock counts milliseconds; reading 0 of \<open>last_queue_overflow_log\<close> is the epoch.\<close>

record downloader =
  settings :: DownloadSettings
  pending_entries :: "LogEntry list"
  data_chunks :: "LogDataChunk list"
  zero_length_data_count :: u64
  cancel_requested :: bool
  last_failure_reason :: ArchiveFailureReason
  last_queue_overflow_log :: nat
  queue_overflow_suppressed :: nat
  progress :: ActiveArchiveProgress
  progress_begin :: nat
  clock :: nat
  connected :: bool
  rx_joinable :: bool
  heartbeatFresh :: bool
  send_ok :: bool
  sent :: "fc_request list"
  script :: "tick list"

text \<open>A new downloader with a link that is up and a script of what is to come.\<close>

definition LogDownloader_new :: "DownloadSettings \<Rightarrow> tick list \<Rightarrow> downloader" where
  "LogDownloader_new s ts =
     \<lparr>settings = s, pending_entries = [], data_chunks = [], zero_length_data_count = 0,
      cancel_requested = False, last_failure_reason = None_reason, last_queue_overflow_log = 0,
      queue_overflow_suppressed = 0, progress = ActiveArchiveProgress_new, progress_begin = 0,
      clock = 1, connected = True, rx_joinable = True, heartbeatFresh = True, send_ok = True, sent = [], script = ts\<rparr>"

section \<open>Operations\<close>

definition requestCancel :: "downloader \<Rightarrow> downloader" where
  "requestCancel w = w\<lparr>cancel_requested := True\<rparr>"

definition resetCancel :: "downloader \<Rightarrow> downloader" where
  "resetCancel w = w\<lparr>cancel_requested := False\<rparr>"

definition cancelled :: "downloader \<Rightarrow> bool" where
  "cancelled w = cancel_requested w"

definition clearDataChunks :: "downloader \<Rightarrow> downloader" where
  "clearDataChunks w = w\<lparr>data_chunks := []\<rparr>"

fun drain_loop :: "u16 \<Rightarrow> LogDataChunk list \<Rightarrow> LogDataChunk list \<times> LogDataChunk list" where
  "drain_loop log_id [] = ([], [])"
| "drain_loop log_id (c # cs) =
     (case drain_loop log_id cs of (out, kept) \<Rightarrow>
        if lc_id c \<noteq> log_id then (out, c # kept) else (c # out, kept))"

definition drainLogDataChunks :: "u16 \<Rightarrow> downloader \<Rightarrow> LogDataChunk list \<times> downloader" where
  "drainLogDataChunks log_id w =
     (case drain_loop log_id (data_chunks w) of (out, kept) \<Rightarrow> (out, w\<lparr>data_chunks := kept\<rparr>))"

fun trim_loop :: "nat \<Rightarrow> LogDataChunk list \<Rightarrow> nat \<Rightarrow> LogDataChunk list \<times> nat" where
  "trim_loop cap [] dropped = ([], dropped)"
| "trim_loop cap (c # cs) dropped =
     (if cap < length (c # cs) then trim_loop cap cs (dropped + 1) else (c # cs, dropped))"

definition trimDataChunkQueue :: "nat \<Rightarrow> downloader \<Rightarrow> downloader" where
  "trimDataChunkQueue cap w =
     (case trim_loop cap (data_chunks w) 0 of (cs, dropped) \<Rightarrow>
        let w = w\<lparr>data_chunks := cs\<rparr> in
        if dropped = 0 then w
        else if last_queue_overflow_log w = 0 \<or> 5000 \<le> clock w - last_queue_overflow_log w
        then w\<lparr>queue_overflow_suppressed := 0, last_queue_overflow_log := clock w\<rparr>
        else w\<lparr>queue_overflow_suppressed := queue_overflow_suppressed w + 1\<rparr>)"

definition queue_cap :: "DownloadSettings \<Rightarrow> nat" where
  "queue_cap s = (if 0 < max_queued_log_data s then nat (max_queued_log_data s) else 2048)"

fun onMessage :: "mav_in \<Rightarrow> downloader \<Rightarrow> downloader" where
  "onMessage (LOG_ENTRY eid num_logs last_log_num time_utc sz) w =
     w\<lparr>pending_entries := pending_entries w @
        [\<lparr>le_id = eid, le_num_logs = num_logs, le_last_log_num = last_log_num,
          le_time_utc = time_utc, le_size = sz\<rparr>]\<rparr>"
| "onMessage (LOG_DATA did ofs cnt mem) w =
     (if cnt = 0 then w\<lparr>zero_length_data_count := zero_length_data_count w + 1\<rparr>
      else trimDataChunkQueue (queue_cap (settings w))
             (w\<lparr>data_chunks := data_chunks w @
                 [\<lparr>lc_id = did, lc_offset = ofs, lc_count = ucast cnt, lc_data = take (unat cnt) mem\<rparr>]\<rparr>))"
| "onMessage (OTHER msgid) w = w"

text \<open>Waiting: the next tick of the script happens.\<close>

definition apply_tick :: "tick \<Rightarrow> downloader \<Rightarrow> downloader" where
  "apply_tick t w =
     (let w = fold onMessage (tk_msgs t) (w\<lparr>clock := clock w + tk_dt t\<rparr>);
          w = (if tk_cancel t then requestCancel w else w)
      in w\<lparr>connected := tk_connected t, heartbeatFresh := tk_fresh t, send_ok := tk_send_ok t\<rparr>)"

definition wait_tick :: "downloader \<Rightarrow> downloader option" where
  "wait_tick w =
     (case script w of [] \<Rightarrow> None | t # ts \<Rightarrow> Some (apply_tick t (w\<lparr>script := ts\<rparr>)))"

text \<open>
  \<open>interruptibleSleep\<close> in steps of 100 ms, the remaining time in milliseconds; a negative duration
  does not sleep.
\<close>

function sleep_loop :: "nat \<Rightarrow> downloader \<Rightarrow> downloader option" where
  "sleep_loop remaining w =
     (if remaining = 0 \<or> cancelled w then Some w
      else case wait_tick w of None \<Rightarrow> None | Some w' \<Rightarrow> sleep_loop (remaining - min 100 remaining) w')"
  by pat_completeness auto
termination by (relation "measure fst") auto

declare sleep_loop.simps [simp del]

definition interruptibleSleep :: "int \<Rightarrow> downloader \<Rightarrow> downloader option" where
  "interruptibleSleep sec w = sleep_loop (nat (sec * 1000)) w"

text \<open>\<^verbatim>\<open>MavlinkClient::sendMessage\<close> fails at once when the link is down.\<close>

definition sendMessage :: "fc_request \<Rightarrow> downloader \<Rightarrow> bool \<times> downloader" where
  "sendMessage r w =
     (if connected w \<and> send_ok w then (True, w\<lparr>sent := sent w @ [r]\<rparr>) else (False, w))"

definition requestLogList :: "downloader \<Rightarrow> downloader" where
  "requestLogList w = snd (sendMessage (LOG_REQUEST_LIST 0 0xFFFF) w)"

definition requestLogData :: "u16 \<Rightarrow> u32 \<Rightarrow> u32 \<Rightarrow> downloader \<Rightarrow> bool \<times> downloader" where
  "requestLogData log_id ofs cnt w = sendMessage (LOG_REQUEST_DATA log_id ofs cnt) w"

definition requestLogEnd :: "downloader \<Rightarrow> downloader" where
  "requestLogEnd w = snd (sendMessage LOG_REQUEST_END w)"

definition abortLogTransfer :: "downloader \<Rightarrow> downloader" where
  "abortLogTransfer w = requestLogEnd (clearDataChunks w)"

definition classifyTimeout :: "downloader \<Rightarrow> ArchiveFailureReason" where
  "classifyTimeout w =
     (if \<not> connected w then TransportClosed
      else if \<not> heartbeatFresh w then LinkTimeout
      else LogDataTimeout)"

definition updateProgressBegin :: "u16 \<Rightarrow> u32 \<Rightarrow> downloader \<Rightarrow> downloader" where
  "updateProgressBegin log_id total_bytes w =
     w\<lparr>progress := \<lparr>pr_active = True, pr_log_id = log_id, pr_bytes_received = 0,
         pr_total_bytes = total_bytes, pr_bytes_per_sec = 0\<rparr>,
       progress_begin := clock w\<rparr>"

definition updateProgressBytes :: "u32 \<Rightarrow> downloader \<Rightarrow> downloader" where
  "updateProgressBytes n w =
     (let p = (progress w)\<lparr>pr_bytes_received := n\<rparr>;
          elapsed = clock w - progress_begin w
      in w\<lparr>progress :=
           (if 200 < elapsed then p\<lparr>pr_bytes_per_sec := of_nat (unat n * 1000 div elapsed)\<rparr> else p)\<rparr>)"

definition updateProgressEnd :: "downloader \<Rightarrow> downloader" where
  "updateProgressEnd w = w\<lparr>progress := ActiveArchiveProgress_new\<rparr>"


section \<open>The chunk queue\<close>

lemma drain_loop_filter:
  "drain_loop log_id cs = (filter (\<lambda>c. lc_id c = log_id) cs, filter (\<lambda>c. lc_id c \<noteq> log_id) cs)"
  by (induction cs) simp_all

lemma drainLogDataChunks_eq:
  "drainLogDataChunks log_id w =
     (filter (\<lambda>c. lc_id c = log_id) (data_chunks w),
      w\<lparr>data_chunks := filter (\<lambda>c. lc_id c \<noteq> log_id) (data_chunks w)\<rparr>)"
  by (simp add: drainLogDataChunks_def drain_loop_filter)

lemma trim_loop_drop: "trim_loop cap cs d = (drop (length cs - cap) cs, d + (length cs - cap))"
  by (induction cap cs d rule: trim_loop.induct) (auto simp: Suc_diff_le)

lemma trimDataChunkQueue_queue:
  "data_chunks (trimDataChunkQueue cap w) = drop (length (data_chunks w) - cap) (data_chunks w)"
  by (simp add: trimDataChunkQueue_def trim_loop_drop Let_def)

text \<open>The fields a message does not touch.\<close>

lemma trimDataChunkQueue_frame [simp]:
  "settings (trimDataChunkQueue cap w) = settings w"
  "pending_entries (trimDataChunkQueue cap w) = pending_entries w"
  "zero_length_data_count (trimDataChunkQueue cap w) = zero_length_data_count w"
  "cancel_requested (trimDataChunkQueue cap w) = cancel_requested w"
  "last_failure_reason (trimDataChunkQueue cap w) = last_failure_reason w"
  "progress (trimDataChunkQueue cap w) = progress w"
  "clock (trimDataChunkQueue cap w) = clock w"
  "connected (trimDataChunkQueue cap w) = connected w"
  "send_ok (trimDataChunkQueue cap w) = send_ok w"
  "sent (trimDataChunkQueue cap w) = sent w"
  "script (trimDataChunkQueue cap w) = script w"
  by (simp_all add: trimDataChunkQueue_def Let_def split: prod.split)

lemma onMessage_frame [simp]:
  "settings (onMessage m w) = settings w"
  "cancel_requested (onMessage m w) = cancel_requested w"
  "last_failure_reason (onMessage m w) = last_failure_reason w"
  "progress (onMessage m w) = progress w"
  "clock (onMessage m w) = clock w"
  "connected (onMessage m w) = connected w"
  "send_ok (onMessage m w) = send_ok w"
  "sent (onMessage m w) = sent w"
  "script (onMessage m w) = script w"
  by (cases m; simp)+

lemma fold_onMessage_frame [simp]:
  "settings (fold onMessage ms w) = settings w"
  "cancel_requested (fold onMessage ms w) = cancel_requested w"
  "last_failure_reason (fold onMessage ms w) = last_failure_reason w"
  "progress (fold onMessage ms w) = progress w"
  "clock (fold onMessage ms w) = clock w"
  "connected (fold onMessage ms w) = connected w"
  "send_ok (fold onMessage ms w) = send_ok w"
  "sent (fold onMessage ms w) = sent w"
  "script (fold onMessage ms w) = script w"
  by (induction ms arbitrary: w) simp_all

lemma apply_tick_frame [simp]:
  "settings (apply_tick t w) = settings w"
  "last_failure_reason (apply_tick t w) = last_failure_reason w"
  "sent (apply_tick t w) = sent w"
  "clock (apply_tick t w) = clock w + tk_dt t"
  "script (apply_tick t w) = script w"
  "cancel_requested (apply_tick t w) \<longleftrightarrow> cancel_requested w \<or> tk_cancel t"
  "data_chunks (apply_tick t w)
     = data_chunks (fold onMessage (tk_msgs t) (w\<lparr>clock := clock w + tk_dt t\<rparr>))"
  by (simp_all add: apply_tick_def requestCancel_def Let_def)

text \<open>What the calls that only send, clear or note progress leave alone.\<close>

lemma sendMessage_frame [simp]:
  "settings (snd (sendMessage q w)) = settings w"
  "script (snd (sendMessage q w)) = script w"
  "clock (snd (sendMessage q w)) = clock w"
  "cancel_requested (snd (sendMessage q w)) = cancel_requested w"
  "data_chunks (snd (sendMessage q w)) = data_chunks w"
  "pending_entries (snd (sendMessage q w)) = pending_entries w"
  "zero_length_data_count (snd (sendMessage q w)) = zero_length_data_count w"
  "last_failure_reason (snd (sendMessage q w)) = last_failure_reason w"
  "connected (snd (sendMessage q w)) = connected w"
  "send_ok (snd (sendMessage q w)) = send_ok w"
  by (simp_all add: sendMessage_def)

lemma requests_frame [simp]:
  "script (snd (requestLogData i ofs n w)) = script w"
  "settings (snd (requestLogData i ofs n w)) = settings w"
  "clock (snd (requestLogData i ofs n w)) = clock w"
  "cancel_requested (snd (requestLogData i ofs n w)) = cancel_requested w"
  "data_chunks (snd (requestLogData i ofs n w)) = data_chunks w"
  "script (requestLogEnd w) = script w"
  "settings (requestLogEnd w) = settings w"
  "clock (requestLogEnd w) = clock w"
  "cancel_requested (requestLogEnd w) = cancel_requested w"
  "data_chunks (requestLogEnd w) = data_chunks w"
  "script (clearDataChunks w) = script w"
  "settings (clearDataChunks w) = settings w"
  "clock (clearDataChunks w) = clock w"
  "cancel_requested (clearDataChunks w) = cancel_requested w"
  "data_chunks (clearDataChunks w) = []"
  "script (updateProgressBytes k w) = script w"
  "settings (updateProgressBytes k w) = settings w"
  "clock (updateProgressBytes k w) = clock w"
  "cancel_requested (updateProgressBytes k w) = cancel_requested w"
  "data_chunks (updateProgressBytes k w) = data_chunks w"
  by (simp_all add: requestLogData_def requestLogEnd_def clearDataChunks_def updateProgressBytes_def Let_def)

text \<open>The chunks that a sequence of messages carries, and the last \<open>n\<close> elements of a list.\<close>

fun chunk_of :: "mav_in \<Rightarrow> LogDataChunk list" where
  "chunk_of (LOG_DATA did ofs cnt mem) =
     (if cnt = 0 then []
      else [\<lparr>lc_id = did, lc_offset = ofs, lc_count = ucast cnt, lc_data = take (unat cnt) mem\<rparr>])"
| "chunk_of _ = []"

definition lastn :: "nat \<Rightarrow> 'a list \<Rightarrow> 'a list" where
  "lastn n xs = drop (length xs - n) xs"

lemma lastn_all: "length xs \<le> n \<Longrightarrow> lastn n xs = xs"
  by (simp add: lastn_def)

lemma length_lastn: "length (lastn n xs) = min n (length xs)"
  by (simp add: lastn_def)

lemma set_lastn: "set (lastn n xs) \<subseteq> set xs"
  by (simp add: lastn_def set_drop_subset)

lemma lastn_append: "lastn n (lastn n xs @ ys) = lastn n (xs @ ys)"
  by (cases "length xs \<le> n") (simp_all add: lastn_def add.commute)

lemma onMessage_queue:
  "length (data_chunks w) \<le> queue_cap (settings w) \<Longrightarrow>
   data_chunks (onMessage m w) = lastn (queue_cap (settings w)) (data_chunks w @ chunk_of m)"
  by (cases m) (simp_all add: trimDataChunkQueue_queue lastn_def)

lemma fold_onMessage_queue:
  "length (data_chunks w) \<le> queue_cap (settings w) \<Longrightarrow>
   data_chunks (fold onMessage ms w)
     = lastn (queue_cap (settings w)) (data_chunks w @ concat (map chunk_of ms))"
proof (induction ms arbitrary: w)
  case Nil
  then show ?case by (simp add: lastn_all)
next
  case (Cons m ms)
  have q: "data_chunks (onMessage m w) = lastn (queue_cap (settings w)) (data_chunks w @ chunk_of m)"
    using Cons.prems by (rule onMessage_queue)
  then have "length (data_chunks (onMessage m w)) \<le> queue_cap (settings (onMessage m w))"
    by (simp add: length_lastn)
  from Cons.IH [OF this] show ?case
    by (simp add: q lastn_append)
qed

lemma subseq_drop: "subseq (drop n xs) xs"
  by (metis append_take_drop_id list_emb_append2 subseq_order.order_refl)

lemma onMessage_chunks: "subseq (data_chunks (onMessage m w)) (data_chunks w @ chunk_of m)"
  by (cases m) (auto simp: trimDataChunkQueue_queue simp del: drop_append intro: subseq_drop)

lemma fold_onMessage_chunks:
  "subseq (data_chunks (fold onMessage ms w)) (data_chunks w @ concat (map chunk_of ms))"
proof (induction ms arbitrary: w)
  case (Cons m ms)
  have "subseq (data_chunks (onMessage m w) @ concat (map chunk_of ms))
          ((data_chunks w @ chunk_of m) @ concat (map chunk_of ms))"
    by (intro list_emb_append_mono onMessage_chunks subseq_order.order_refl)
  with Cons.IH [of "onMessage m w"] show ?case
    by (auto intro: subseq_order.order_trans)
qed simp

lemma fold_onMessage_zero:
  "zero_length_data_count (fold onMessage ms w) = zero_length_data_count w
     + of_nat (length (filter (\<lambda>m. case m of LOG_DATA _ _ cnt _ \<Rightarrow> cnt = 0 | _ \<Rightarrow> False) ms))"
proof (induction ms arbitrary: w)
  case (Cons m ms)
  then show ?case by (cases m) simp_all
qed simp

lemma wait_tick_SomeD:
  assumes "wait_tick w = Some w'"
  shows "\<exists>t ts. script w = t # ts \<and> w' = apply_tick t (w\<lparr>script := ts\<rparr>)"
  using assms by (auto simp: wait_tick_def split: list.splits)

section \<open>The contract of the chunk source\<close>

text \<open>
  What a download session relies on: after \<^verbatim>\<open>clearDataChunks\<close> nothing is queued, a drain hands out
  the queued chunks of the asked log in arrival order and keeps the others, and a wait may lose
  chunks but neither invents nor reorders them. Hence what a session sees of a log is at any time a
  subsequence of the chunks queued and to come (\<open>stream\<close>).
\<close>

locale chunk_source =
  fixes queued :: "'w \<Rightarrow> LogDataChunk list"
    and coming :: "'w \<Rightarrow> mav_in list"
    and clear :: "'w \<Rightarrow> 'w"
    and drain :: "u16 \<Rightarrow> 'w \<Rightarrow> LogDataChunk list \<times> 'w"
    and wait :: "'w \<Rightarrow> 'w option"
  assumes clear_queued: "queued (clear w) = []"
    and clear_coming: "coming (clear w) = coming w"
    and drain_out: "fst (drain i w) = filter (\<lambda>c. lc_id c = i) (queued w)"
    and drain_kept: "queued (snd (drain i w)) = filter (\<lambda>c. lc_id c \<noteq> i) (queued w)"
    and drain_coming: "coming (snd (drain i w)) = coming w"
    and wait_step: "wait w = Some w' \<Longrightarrow>
          \<exists>ms. coming w = ms @ coming w' \<and> subseq (queued w') (queued w @ concat (map chunk_of ms))"
begin

definition stream :: "u16 \<Rightarrow> 'w \<Rightarrow> LogDataChunk list" where
  "stream i w = filter (\<lambda>c. lc_id c = i) (queued w @ concat (map chunk_of (coming w)))"

lemma stream_clear: "stream i (clear w) = filter (\<lambda>c. lc_id c = i) (concat (map chunk_of (coming w)))"
  by (simp add: stream_def clear_queued clear_coming)

lemma stream_drain: "drain i w = (cs, w') \<Longrightarrow> cs @ stream i w' = stream i w"
  using drain_out [of i w] drain_kept [of i w] drain_coming [of i w] by (simp add: stream_def)

lemma stream_wait:
  assumes "wait w = Some w'"
  shows "subseq (stream i w') (stream i w)"
proof -
  obtain ms where ms: "coming w = ms @ coming w'" "subseq (queued w') (queued w @ concat (map chunk_of ms))"
    using wait_step [OF assms] by blast
  have "subseq (queued w' @ concat (map chunk_of (coming w')))
          ((queued w @ concat (map chunk_of ms)) @ concat (map chunk_of (coming w')))"
    by (intro list_emb_append_mono ms(2) subseq_order.order_refl)
  from subseq_filter [OF this] show ?thesis
    using ms(1) by (simp add: stream_def)
qed

end

definition coming_msgs :: "downloader \<Rightarrow> mav_in list" where
  "coming_msgs w = concat (map tk_msgs (script w))"

interpretation src: chunk_source data_chunks coming_msgs clearDataChunks drainLogDataChunks wait_tick
proof unfold_locales
  fix w w' assume "wait_tick w = Some w'"
  then obtain t ts where t: "script w = t # ts" "w' = apply_tick t (w\<lparr>script := ts\<rparr>)"
    using wait_tick_SomeD by blast
  have "subseq (data_chunks w') (data_chunks w @ concat (map chunk_of (tk_msgs t)))"
    using fold_onMessage_chunks [of "tk_msgs t" "w\<lparr>script := ts, clock := clock w + tk_dt t\<rparr>"]
    by (simp add: t(2))
  then show "\<exists>ms. coming_msgs w = ms @ coming_msgs w' \<and>
      subseq (data_chunks w') (data_chunks w @ concat (map chunk_of ms))"
    using t by (intro exI [of _ "tk_msgs t"]) (simp add: coming_msgs_def)
qed (auto simp: clearDataChunks_def drainLogDataChunks_eq coming_msgs_def)

section \<open>Properties\<close>

text \<open>
  (C32) The LOG_DATA queue is bounded and drops the oldest chunks first: once cleared, after any
  sequence of messages it holds exactly the last \<^verbatim>\<open>max_queued_log_data\<close> non-empty LOG_DATA chunks
  received since, in arrival order.
\<close>

theorem queue_keeps_newest:
  "data_chunks (fold onMessage ms (clearDataChunks w))
     = lastn (queue_cap (settings w)) (concat (map chunk_of ms)) \<and>
   length (data_chunks (fold onMessage ms (clearDataChunks w))) \<le> queue_cap (settings w)"
  using fold_onMessage_queue [of "clearDataChunks w" ms] by (simp add: clearDataChunks_def length_lastn)

end
