(* ===== verification/ReceivedRanges.thy ===== *)
theory ReceivedRanges
  imports MavlinkLogProtocol
begin

text \<open>
  \<^verbatim>\<open>src/ReceivedRanges.cpp\<close>: the byte intervals received so far in a download session,
  kept as a vector of half-open pairs of 32-bit offsets. The abstraction \<open>covered\<close> reads a
  vector as a set of byte positions; \<open>ranges_inv\<close> is the shape every public operation
  leaves behind (non-empty, strictly separated, increasing intervals).
\<close>

section \<open>Model\<close>

type_synonym ranges = "(u32 \<times> u32) list"

definition ranges_reset :: "ranges \<Rightarrow> ranges" where
  "ranges_reset ranges = []"

text \<open>
  The loop of \<open>merge\<close>: the first argument is \<^verbatim>\<open>merged.back()\<close>, the elements already
  pushed before it are the list cells already produced.
\<close>

fun merge_from :: "(u32 \<times> u32) \<Rightarrow> ranges \<Rightarrow> ranges" where
  "merge_from l [] = [l]"
| "merge_from l (r # rs) =
     (if fst r \<le> snd l then merge_from (fst l, max (snd l) (snd r)) rs
      else l # merge_from r rs)"

definition ranges_merge :: "ranges \<Rightarrow> ranges" where
  "ranges_merge ranges =
     (if ranges = [] then ranges
      else let s = sort ranges in merge_from (hd s) (tl s))"

definition ranges_add :: "ranges \<Rightarrow> u32 \<Rightarrow> u32 \<Rightarrow> ranges" where
  "ranges_add ranges offset cnt =
     (if cnt = 0 then ranges else ranges_merge (ranges @ [(offset, offset + cnt)]))"

definition ranges_complete :: "ranges \<Rightarrow> u32 \<Rightarrow> bool" where
  "ranges_complete ranges total_size \<longleftrightarrow>
     total_size = 0 \<or>
     (length ranges = 1 \<and> fst (ranges ! 0) = 0 \<and> total_size \<le> snd (ranges ! 0))"

fun gaps_loop :: "ranges \<Rightarrow> u32 \<Rightarrow> u32 \<Rightarrow> ranges" where
  "gaps_loop [] cursor total_size =
     (if cursor < total_size then [(cursor, total_size - cursor)] else [])"
| "gaps_loop (r # rs) cursor total_size =
     (if cursor < fst r then [(cursor, fst r - cursor)] else [])
     @ gaps_loop rs (max cursor (snd r)) total_size"

definition gaps :: "ranges \<Rightarrow> u32 \<Rightarrow> ranges" where
  "gaps ranges total_size = gaps_loop ranges 0 total_size"

fun bytesReceived :: "ranges \<Rightarrow> u32" where
  "bytesReceived [] = 0"
| "bytesReceived (r # rs) = (snd r - fst r) + bytesReceived rs"

declare ranges_add_def [range_defs] ranges_merge_def [range_defs]
  ranges_complete_def [range_defs] gaps_def [range_defs] ranges_reset_def [range_defs]

section \<open>Abstraction and invariant\<close>

definition span :: "(u32 \<times> u32) \<Rightarrow> nat set" where
  "span r = {unat (fst r)..<unat (snd r)}"

definition covered :: "ranges \<Rightarrow> nat set" where
  "covered rs = (\<Union>r\<in>set rs. span r)"

fun ranges_inv :: "ranges \<Rightarrow> bool" where
  "ranges_inv [] = True"
| "ranges_inv (r # rs) =
     (fst r < snd r \<and> (\<forall>q\<in>set rs. snd r < fst q) \<and> ranges_inv rs)"

lemma covered_simps [simp]:
  "covered [] = {}"
  "covered (r # rs) = span r \<union> covered rs"
  "covered (rs @ qs) = covered rs \<union> covered qs"
  by (auto simp: covered_def)

lemma covered_sort [simp]: "covered (sort rs) = covered rs"
  by (simp add: covered_def)

lemma finite_covered [simp]: "finite (covered rs)"
  by (simp add: covered_def span_def)

lemma covered_bound: "x \<in> covered rs \<Longrightarrow> x < 4294967296"
  by (auto simp: covered_def span_def intro: less_trans [OF _ unat_u32_bound])

section \<open>Merging\<close>

text \<open>An input of the merge loop: non-empty intervals with increasing starts.\<close>

fun starts_ok :: "(u32 \<times> u32) \<Rightarrow> ranges \<Rightarrow> bool" where
  "starts_ok l [] = (fst l < snd l)"
| "starts_ok l (r # rs) = (fst l < snd l \<and> fst l \<le> fst r \<and> starts_ok r rs)"

lemma starts_ok_widen:
  "starts_ok r rs \<Longrightarrow> fst l \<le> fst r \<Longrightarrow> fst l < e \<Longrightarrow> starts_ok (fst l, e) rs"
  by (cases rs) auto

lemma merge_from_starts:
  "starts_ok l rs \<Longrightarrow> \<forall>q\<in>set (merge_from l rs). fst l \<le> fst q"
proof (induction l rs rule: merge_from.induct)
  case (2 l r rs)
  show ?case
  proof (cases "fst r \<le> snd l")
    case True
    have "fst l < max (snd l) (snd r)"
      using 2(3) by (auto simp: max_def)
    then have "starts_ok (fst l, max (snd l) (snd r)) rs"
      using 2(3) by (auto intro: starts_ok_widen)
    with 2(1) True show ?thesis by simp
  next
    case False
    with 2 show ?thesis by fastforce
  qed
qed simp

lemma merge_from_covered:
  "starts_ok l rs \<Longrightarrow> covered (merge_from l rs) = span l \<union> covered rs"
proof (induction l rs rule: merge_from.induct)
  case (2 l r rs)
  show ?case
  proof (cases "fst r \<le> snd l")
    case True
    have "fst l < max (snd l) (snd r)"
      using 2(3) by (auto simp: max_def)
    then have ok: "starts_ok (fst l, max (snd l) (snd r)) rs"
      using 2(3) by (auto intro: starts_ok_widen)
    have "span (fst l, max (snd l) (snd r)) = span l \<union> span r"
      using True 2(3) by (auto simp: span_def u32_order unat_u32_max)
    with 2(1) True ok show ?thesis by auto
  next
    case False
    with 2 show ?thesis by auto
  qed
qed simp

lemma merge_from_inv: "starts_ok l rs \<Longrightarrow> ranges_inv (merge_from l rs)"
proof (induction l rs rule: merge_from.induct)
  case (2 l r rs)
  show ?case
  proof (cases "fst r \<le> snd l")
    case True
    have "fst l < max (snd l) (snd r)"
      using 2(3) by (auto simp: max_def)
    then have "starts_ok (fst l, max (snd l) (snd r)) rs"
      using 2(3) by (auto intro: starts_ok_widen)
    with 2(1) True show ?thesis by simp
  next
    case False
    then have "snd l < fst r" by simp
    moreover have "\<forall>q\<in>set (merge_from r rs). fst r \<le> fst q"
      using 2(3) by (intro merge_from_starts) simp
    ultimately show ?thesis
      using 2 False by (auto intro: less_le_trans)
  qed
qed simp

lemma sorted_starts_ok:
  "sorted (l # rs) \<Longrightarrow> \<forall>r\<in>set (l # rs). fst r < snd r \<Longrightarrow> starts_ok l rs"
proof (induction rs arbitrary: l)
  case (Cons r rs)
  then have "fst l \<le> fst r"
    by (auto simp: less_eq_prod_def)
  with Cons show ?case by simp
qed simp

lemma ranges_merge_correct:
  assumes "\<forall>r\<in>set rs. fst r < snd r"
  shows "ranges_inv (ranges_merge rs)" and "covered (ranges_merge rs) = covered rs"
proof -
  have "ranges_inv (ranges_merge rs) \<and> covered (ranges_merge rs) = covered rs"
  proof (cases "rs = []")
    case False
    then obtain l ls where ls: "sort rs = l # ls"
      by (metis list.exhaust set_empty set_sort)
    have "sorted (l # ls)"
      unfolding ls [symmetric] by simp
    moreover have "set (l # ls) = set rs"
      unfolding ls [symmetric] by simp
    ultimately have "starts_ok l ls"
      using assms by (intro sorted_starts_ok) auto
    moreover have "span l \<union> covered ls = covered rs"
      using covered_sort [of rs] unfolding ls by simp
    ultimately show ?thesis
      using False by (simp add: ranges_merge_def ls merge_from_inv merge_from_covered)
  qed (simp add: ranges_merge_def)
  then show "ranges_inv (ranges_merge rs)" and "covered (ranges_merge rs) = covered rs"
    by auto
qed

lemma ranges_inv_nonempty: "ranges_inv rs \<Longrightarrow> r \<in> set rs \<Longrightarrow> fst r < snd r"
  by (induction rs) auto


section \<open>Adding a chunk\<close>

text \<open>A chunk whose end does not wrap around in 32 bits.\<close>

definition no_wrap :: "u32 \<Rightarrow> u32 \<Rightarrow> bool" where
  "no_wrap offset cnt \<longleftrightarrow> unat offset + unat cnt < 4294967296"

lemma no_wrap_end: "no_wrap offset cnt \<Longrightarrow> unat (offset + cnt) = unat offset + unat cnt"
  by (simp add: no_wrap_def unat_u32_add)

lemma ranges_add_inv:
  assumes "ranges_inv rs" and "no_wrap offset cnt"
  shows "ranges_inv (ranges_add rs offset cnt)"
proof (cases "cnt = 0")
  case False
  then have "offset < offset + cnt"
    using assms(2) by (simp add: u32_less_iff no_wrap_end unat_gt_0)
  then have "\<forall>r\<in>set (rs @ [(offset, offset + cnt)]). fst r < snd r"
    using assms(1) by (auto intro: ranges_inv_nonempty)
  then show ?thesis
    using False by (simp add: ranges_add_def ranges_merge_correct(1))
qed (simp add: ranges_add_def assms)

lemma ranges_add_covered:
  assumes "ranges_inv rs" and "no_wrap offset cnt"
  shows "covered (ranges_add rs offset cnt)
           = covered rs \<union> {unat offset..<unat offset + unat cnt}"
proof (cases "cnt = 0")
  case False
  then have "offset < offset + cnt"
    using assms(2) by (simp add: u32_less_iff no_wrap_end unat_gt_0)
  then have "\<forall>r\<in>set (rs @ [(offset, offset + cnt)]). fst r < snd r"
    using assms(1) by (auto intro: ranges_inv_nonempty)
  then show ?thesis
    using False assms(2)
    by (simp add: ranges_add_def ranges_merge_correct(2) span_def no_wrap_end)
qed (simp add: ranges_add_def)

section \<open>Queries\<close>

lemma ranges_inv_later:
  "ranges_inv (r # rs) \<Longrightarrow> x \<in> covered rs \<Longrightarrow> unat (snd r) < x"
  by (fastforce simp: covered_def span_def u32_order)

lemma ranges_inv_hole:
  assumes "ranges_inv (r # rs)"
  shows "unat (snd r) \<notin> covered (r # rs)"
  using ranges_inv_later [OF assms, of "unat (snd r)"] by (auto simp: span_def)

text \<open>
  Inside the window \<open>[0, total_size)\<close> of the session, completeness is exactly full coverage.
  Outside it the size test of \<open>complete\<close> is stricter than coverage: a second interval
  beyond the window makes it fail.
\<close>

definition in_window :: "ranges \<Rightarrow> u32 \<Rightarrow> bool" where
  "in_window rs total_size \<longleftrightarrow> covered rs \<subseteq> {0..<unat total_size}"

lemma ranges_complete_covers:
  assumes inv: "ranges_inv rs" and win: "in_window rs sz"
  shows "ranges_complete rs sz \<longleftrightarrow> covered rs = {0..<unat sz}"
proof (cases "sz = 0")
  case True
  then show ?thesis using win by (simp add: ranges_complete_def in_window_def)
next
  case False
  then have pos: "0 < unat sz" by (simp add: unat_gt_0)
  show ?thesis
  proof
    assume "ranges_complete rs sz"
    then obtain r where "rs = [r]" "fst r = 0" "sz \<le> snd r"
      using False by (auto simp: ranges_complete_def length_Suc_conv)
    then show "covered rs = {0..<unat sz}"
      using win by (auto simp: span_def u32_le_iff in_window_def)
  next
    assume full: "covered rs = {0..<unat sz}"
    with pos obtain r rs' where rs: "rs = r # rs'"
      by (cases rs) auto
    have "unat (snd r) \<notin> covered rs"
      using ranges_inv_hole inv unfolding rs by blast
    then have ge: "unat sz \<le> unat (snd r)"
      using full by simp
    have "0 \<in> span r"
      using full pos ranges_inv_later [of r rs' 0] inv unfolding rs by auto
    then have "fst r = 0"
      by (simp add: span_def unat_eq_zero)
    moreover have "rs' = []"
    proof (rule ccontr)
      assume "rs' \<noteq> []"
      then obtain q where "q \<in> set rs'" by (cases rs') auto
      then have "unat (fst q) \<in> covered rs'"
        using inv ranges_inv_nonempty [of rs' q] unfolding rs
        by (auto simp: covered_def span_def u32_order)
      then have "unat (snd r) < unat (fst q)" "unat (fst q) < unat sz"
        using inv ranges_inv_later [of r rs'] full unfolding rs by auto
      with ge show False by simp
    qed
    ultimately show "ranges_complete rs sz"
      using ge by (simp add: ranges_complete_def rs u32_le_iff)
  qed
qed

lemma span_card: "fst r \<le> snd r \<Longrightarrow> card (span r) = unat (snd r - fst r)"
  by (simp add: span_def unat_u32_sub)

lemma covered_card_bound: "card (covered rs) < 4294967296"
proof -
  have "covered rs \<subseteq> {0..<4294967295}"
  proof
    fix x assume "x \<in> covered rs"
    then obtain r :: "u32 \<times> u32" where "x < unat (snd r)"
      unfolding covered_def span_def by fastforce
    then have "Suc x < 4294967296"
      by (rule less_trans_Suc) (rule unat_u32_bound)
    then show "x \<in> {0..<4294967295}" by simp
  qed
  then have "card (covered rs) \<le> card {0..<4294967295::nat}"
    by (rule card_mono [rotated]) simp
  then show ?thesis by simp
qed

lemma bytesReceived_card:
  "ranges_inv rs \<Longrightarrow> unat (bytesReceived rs) = card (covered rs)"
proof (induction rs)
  case (Cons r rs)
  then have IH: "unat (bytesReceived rs) = card (covered rs)" by simp
  have "span r \<inter> covered rs = {}"
    using ranges_inv_later [OF Cons.prems] by (fastforce simp: span_def)
  then have "card (covered (r # rs)) = card (span r) + card (covered rs)"
    by (simp add: card_Un_disjoint span_def)
  moreover have "card (span r) = unat (snd r - fst r)"
    using Cons.prems by (intro span_card) (simp add: less_imp_le)
  ultimately show ?case
    using covered_card_bound [of "r # rs"] IH by (simp add: unat_u32_add)
qed simp

section \<open>Gaps\<close>

definition gap_bytes :: "ranges \<Rightarrow> nat set" where
  "gap_bytes gs = (\<Union>g\<in>set gs. {unat (fst g)..<unat (fst g) + unat (snd g)})"

lemma gap_bytes_simps [simp]:
  "gap_bytes [] = {}"
  "gap_bytes (g # gs) = {unat (fst g)..<unat (fst g) + unat (snd g)} \<union> gap_bytes gs"
  "gap_bytes (gs @ hs) = gap_bytes gs \<union> gap_bytes hs"
  by (auto simp: gap_bytes_def)

lemma gap_bytes_single:
  "(c :: u32) \<le> e \<Longrightarrow> {unat c..<unat c + unat (e - c)} = {unat c..<unat e}"
  by (auto simp: unat_u32_sub u32_le_iff)

lemma gaps_loop_bytes:
  "ranges_inv rs \<Longrightarrow> \<forall>r\<in>set rs. cursor \<le> fst r \<Longrightarrow> in_window rs sz \<Longrightarrow>
   gap_bytes (gaps_loop rs cursor sz) = {unat cursor..<unat sz} - covered rs"
proof (induction rs arbitrary: cursor)
  case Nil
  then show ?case by (auto simp: gap_bytes_single u32_order)
next
  case (Cons r rs)
  have lt: "fst r < snd r" and le: "cursor \<le> fst r" and later: "\<forall>q\<in>set rs. snd r < fst q"
    using Cons.prems by auto
  have mx: "max cursor (snd r) = snd r"
    using lt le by (auto intro: max_absorb2 order.trans less_imp_le)
  have "{unat (fst r)..<unat (snd r)} \<subseteq> {0..<unat sz}"
    using Cons.prems(3) by (auto simp: in_window_def span_def)
  then have top: "unat (snd r) \<le> unat sz"
    using lt by (simp add: u32_less_iff)
  have IH: "gap_bytes (gaps_loop rs (snd r) sz) = {unat (snd r)..<unat sz} - covered rs"
    using Cons.prems later by (intro Cons.IH) (auto simp: in_window_def)
  have hd: "gap_bytes (if cursor < fst r then [(cursor, fst r - cursor)] else [])
              = {unat cursor..<unat (fst r)}"
    using le by (auto simp: gap_bytes_single u32_order)
  have disj: "covered rs \<inter> {0..unat (snd r)} = {}"
    using ranges_inv_later [OF Cons.prems(1)] by fastforce
  have "unat cursor \<le> unat (fst r)" "unat (fst r) < unat (snd r)"
    using lt le by (auto simp: u32_order)
  then show ?case
    using IH hd disj top by (auto simp: mx span_def)
qed

lemma gaps_bytes:
  assumes "ranges_inv rs" and "in_window rs sz"
  shows "gap_bytes (gaps rs sz) = {0..<unat sz} - covered rs"
  using gaps_loop_bytes [of rs 0 sz] assms by (simp add: gaps_def)


section \<open>The tracker as an interface\<close>

text \<open>
  What the download session relies on: a tracker holds a set of byte positions, adding a
  chunk adds its bytes, and completeness of a window is full coverage.
\<close>

locale byte_tracker =
  fixes tracker_inv :: "'r \<Rightarrow> bool"
    and tracked :: "'r \<Rightarrow> nat set"
    and fresh :: "'r"
    and track :: "'r \<Rightarrow> u32 \<Rightarrow> u32 \<Rightarrow> 'r"
    and full :: "'r \<Rightarrow> u32 \<Rightarrow> bool"
    and missing :: "'r \<Rightarrow> u32 \<Rightarrow> ranges"
    and amount :: "'r \<Rightarrow> u32"
  assumes inv_fresh: "tracker_inv fresh"
    and tracked_fresh: "tracked fresh = {}"
    and inv_track: "tracker_inv r \<Longrightarrow> no_wrap ofs n \<Longrightarrow> tracker_inv (track r ofs n)"
    and tracked_track: "tracker_inv r \<Longrightarrow> no_wrap ofs n \<Longrightarrow>
          tracked (track r ofs n) = tracked r \<union> {unat ofs..<unat ofs + unat n}"
    and full_iff: "tracker_inv r \<Longrightarrow> tracked r \<subseteq> {0..<unat sz} \<Longrightarrow>
          full r sz \<longleftrightarrow> tracked r = {0..<unat sz}"
    and missing_bytes: "tracker_inv r \<Longrightarrow> tracked r \<subseteq> {0..<unat sz} \<Longrightarrow>
          gap_bytes (missing r sz) = {0..<unat sz} - tracked r"
    and amount_card: "tracker_inv r \<Longrightarrow> unat (amount r) = card (tracked r)"
begin

definition track_all :: "'r \<Rightarrow> (u32 \<times> u32) list \<Rightarrow> 'r" where
  "track_all r cs = foldl (\<lambda>r c. track r (fst c) (snd c)) r cs"

definition chunk_bytes :: "(u32 \<times> u32) list \<Rightarrow> nat set" where
  "chunk_bytes cs = (\<Union>c\<in>set cs. {unat (fst c)..<unat (fst c) + unat (snd c)})"

lemma track_all_from:
  "tracker_inv r \<Longrightarrow> \<forall>c\<in>set cs. no_wrap (fst c) (snd c) \<Longrightarrow>
   tracker_inv (track_all r cs) \<and> tracked (track_all r cs) = tracked r \<union> chunk_bytes cs"
proof (induction cs arbitrary: r)
  case Nil
  then show ?case by (simp add: track_all_def chunk_bytes_def)
next
  case (Cons c cs)
  have "tracker_inv (track r (fst c) (snd c))"
    using Cons.prems by (simp add: inv_track)
  from Cons.IH [OF this] Cons.prems show ?case
    by (auto simp: track_all_def chunk_bytes_def tracked_track)
qed

lemma track_all_fresh:
  assumes "\<forall>c\<in>set cs. no_wrap (fst c) (snd c)"
  shows "tracker_inv (track_all fresh cs)" and "tracked (track_all fresh cs) = chunk_bytes cs"
  using track_all_from [OF inv_fresh assms] by (simp_all add: tracked_fresh)

lemma chunks_in_window:
  "\<forall>c\<in>set cs. unat (fst c) + unat (snd c) \<le> unat (sz :: u32) \<Longrightarrow> chunk_bytes cs \<subseteq> {0..<unat sz}"
  by (fastforce simp: chunk_bytes_def)

lemma window_no_wrap:
  "\<forall>c\<in>set cs. unat (fst c) + unat (snd c) \<le> unat (sz :: u32) \<Longrightarrow>
   \<forall>c\<in>set cs. no_wrap (fst c) (snd c)"
  by (auto simp: no_wrap_def intro: le_less_trans [OF _ unat_u32_bound])

lemma full_track_all:
  assumes "\<forall>c\<in>set cs. unat (fst c) + unat (snd c) \<le> unat sz"
  shows "full (track_all fresh cs) sz \<longleftrightarrow> chunk_bytes cs = {0..<unat sz}"
  using full_iff [OF track_all_fresh(1) [OF window_no_wrap [OF assms]]]
    track_all_fresh(2) [OF window_no_wrap [OF assms]] chunks_in_window [OF assms] by simp

lemma missing_track_all:
  assumes "\<forall>c\<in>set cs. unat (fst c) + unat (snd c) \<le> unat sz"
  shows "gap_bytes (missing (track_all fresh cs) sz) = {0..<unat sz} - chunk_bytes cs"
  using missing_bytes [OF track_all_fresh(1) [OF window_no_wrap [OF assms]]]
    track_all_fresh(2) [OF window_no_wrap [OF assms]] chunks_in_window [OF assms] by simp

lemma amount_track_all:
  assumes "\<forall>c\<in>set cs. no_wrap (fst c) (snd c)"
  shows "unat (amount (track_all fresh cs)) = card (chunk_bytes cs)"
  using amount_card [OF track_all_fresh(1) [OF assms]] track_all_fresh(2) [OF assms] by simp

end

interpretation rr: byte_tracker ranges_inv covered "[]" ranges_add ranges_complete gaps bytesReceived
  by unfold_locales
    (auto simp: ranges_add_inv ranges_add_covered ranges_complete_covers bytesReceived_card
       gaps_bytes in_window_def)

section \<open>Properties\<close>

text \<open>A whole session of \<open>add\<close> calls on a fresh tracker.\<close>

definition ranges_add_all :: "(u32 \<times> u32) list \<Rightarrow> ranges" where
  "ranges_add_all cs = foldl (\<lambda>r c. ranges_add r (fst c) (snd c)) [] cs"

lemma ranges_add_all_rr: "ranges_add_all cs = rr.track_all [] cs"
  by (simp add: ranges_add_all_def rr.track_all_def)

text \<open>
  (C12) For every sequence of received chunks inside a window of \<open>sz\<close> bytes, in any order and
  with any overlap and repetition, \<open>complete\<close> answers true exactly when every byte of the
  window lies in one of the chunks.
\<close>

theorem complete_iff_all_bytes_received:
  assumes "\<forall>c\<in>set cs. unat (fst c) + unat (snd c) \<le> unat sz"
  shows "ranges_complete (ranges_add_all cs) sz \<longleftrightarrow>
           (\<forall>i<unat sz. \<exists>c\<in>set cs. unat (fst c) \<le> i \<and> i < unat (fst c) + unat (snd c))"
proof -
  have "ranges_complete (ranges_add_all cs) sz \<longleftrightarrow> {0..<unat sz} \<subseteq> rr.chunk_bytes cs"
    using rr.full_track_all [OF assms] rr.chunks_in_window [OF assms]
    by (auto simp: ranges_add_all_rr)
  then show ?thesis
    by (auto simp: rr.chunk_bytes_def subset_iff)
qed

theorem complete_iff_all_bytes_received_witness:
  "ranges_complete (ranges_add_all [(90, 90), (0, 100)]) 180"
proof -
  have h: "\<forall>c\<in>set [(90, 90), (0, 100 :: u32)]. unat (fst c) + unat (snd c) \<le> unat (180 :: u32)"
    by simp
  show ?thesis
    unfolding complete_iff_all_bytes_received [OF h] by auto
qed

text \<open>
  (C13) The gaps computed for a window are exactly its missing bytes: after any sequence of
  chunks inside the window, a byte lies in a reported gap if and only if it is in the window
  and no chunk brought it.
\<close>

theorem gaps_are_missing_bytes:
  assumes "\<forall>c\<in>set cs. unat (fst c) + unat (snd c) \<le> unat sz"
  shows "(\<exists>g\<in>set (gaps (ranges_add_all cs) sz). unat (fst g) \<le> i \<and> i < unat (fst g) + unat (snd g))
         \<longleftrightarrow> i < unat sz \<and> \<not> (\<exists>c\<in>set cs. unat (fst c) \<le> i \<and> i < unat (fst c) + unat (snd c))"
proof -
  have "i \<in> gap_bytes (gaps (ranges_add_all cs) sz) \<longleftrightarrow> i \<in> {0..<unat sz} - rr.chunk_bytes cs"
    by (simp add: ranges_add_all_rr rr.missing_track_all [OF assms])
  then show ?thesis
    by (auto simp: rr.chunk_bytes_def gap_bytes_def)
qed

theorem gaps_are_missing_bytes_witness:
  "\<exists>g\<in>set (gaps (ranges_add_all [(810, 90), (0, 720)]) 900).
     unat (fst g) \<le> 800 \<and> 800 < unat (fst g) + unat (snd g)"
proof -
  have h: "\<forall>c\<in>set [(810, 90), (0, 720 :: u32)]. unat (fst c) + unat (snd c) \<le> unat (900 :: u32)"
    by simp
  show ?thesis
    unfolding gaps_are_missing_bytes [OF h] by simp
qed

text \<open>
  The progress counter counts every received byte once: after any chunks that do not wrap
  past 32 bits, \<open>bytesReceived\<close> is the number of distinct byte positions received.
\<close>

theorem bytesReceived_counts_distinct_bytes:
  assumes "\<forall>c\<in>set cs. no_wrap (fst c) (snd c)"
  shows "unat (bytesReceived (ranges_add_all cs))
           = card {i. \<exists>c\<in>set cs. unat (fst c) \<le> i \<and> i < unat (fst c) + unat (snd c)}"
proof -
  have "rr.chunk_bytes cs
          = {i. \<exists>c\<in>set cs. unat (fst c) \<le> i \<and> i < unat (fst c) + unat (snd c)}"
    unfolding rr.chunk_bytes_def set_eq_iff UN_iff mem_Collect_eq atLeastLessThan_iff by blast
  then show ?thesis
    using rr.amount_track_all [OF assms] by (simp add: ranges_add_all_rr)
qed

theorem bytesReceived_counts_distinct_bytes_witness:
  "unat (bytesReceived (ranges_add_all [(0, 90), (45, 90)]))
     = card {i. \<exists>c\<in>set [(0, 90), (45, 90 :: u32)]. unat (fst c :: u32) \<le> i \<and> i < unat (fst c) + unat (snd c)}"
  by (rule bytesReceived_counts_distinct_bytes) (simp add: no_wrap_def)

end
