(* ===== verification/Crc32.thy ===== *)
theory Crc32
  imports Prelude
begin

text \<open>
  \<^verbatim>\<open>src/Crc32.cpp\<close>: the bitwise CRC-32 used to fingerprint chunk slots. The register is
  a 32-bit word; the inner loop selects the polynomial with the branch-free mask
  \<open>-(crc & 1)\<close>.
\<close>

section \<open>Model\<close>

definition crc_bit :: "u32 \<Rightarrow> u32" where
  "crc_bit crc = (let m = - (crc AND 1) in (drop_bit 1 crc) XOR (0xEDB88320 AND m))"

definition crc_byte :: "u32 \<Rightarrow> u8 \<Rightarrow> u32" where
  "crc_byte crc b = (crc_bit ^^ 8) (crc XOR ucast b)"

definition crc32 :: "bytes \<Rightarrow> u32 \<Rightarrow> u32" where
  "crc32 data crc = NOT (foldl crc_byte (NOT crc) data)"

section \<open>The branch-free step is the textbook step\<close>

lemma crc_mask: "- ((c :: u32) AND 1) = (if bit c 0 then -1 else 0)"
  by (simp add: and_one_eq mod_2_eq_odd bit_0)

lemma crc_bit_textbook:
  "crc_bit c = (if bit c 0 then drop_bit 1 c XOR 0xEDB88320 else drop_bit 1 c)"
  by (simp add: crc_bit_def crc_mask)

lemma crc_bit_top: "bit (crc_bit c) 31 \<longleftrightarrow> bit c 0"
proof -
  have "\<not> bit (drop_bit 1 c) 31"
    by (simp add: bit_drop_bit_eq impossible_bit)
  moreover have "bit (0xEDB88320 :: u32) 31"
    by simp
  ultimately show ?thesis
    by (simp add: crc_bit_textbook bit_xor_iff)
qed

lemma xor_cancel_right: "(a :: u32) XOR c = b XOR c \<longleftrightarrow> a = b"
proof
  assume "a XOR c = b XOR c"
  then have "(a XOR c) XOR c = (b XOR c) XOR c" by (rule arg_cong)
  then show "a = b" by (simp only: xor.assoc xor_self_eq xor.right_neutral)
qed (rule arg_cong)

lemma crc_bit_inj: "crc_bit x = crc_bit y \<Longrightarrow> x = y"
proof -
  assume eq: "crc_bit x = crc_bit y"
  then have low: "bit x 0 = bit y 0"
    by (metis crc_bit_top)
  have "drop_bit 1 x = drop_bit 1 y"
    using eq low by (cases "bit x 0") (simp_all add: crc_bit_textbook xor_cancel_right)
  then have "\<And>n. bit x (Suc n) = bit y (Suc n)"
    by (metis One_nat_def bit_drop_bit_eq comp_apply plus_1_eq_Suc)
  with low show "x = y"
    by (intro bit_eqI) (metis not0_implies_Suc)
qed

lemma is_up_u8_u32: "is_up (ucast :: u8 \<Rightarrow> u32)"
  by (simp add: is_up)

lemma crc_bits_inj: "(crc_bit ^^ n) x = (crc_bit ^^ n) y \<Longrightarrow> x = y"
  by (induction n) (auto dest: crc_bit_inj)

lemma crc_byte_inj_state: "crc_byte x b = crc_byte y b \<Longrightarrow> x = y"
  unfolding crc_byte_def by (drule crc_bits_inj) (simp only: xor_cancel_right)

lemma crc_byte_inj_byte:
  assumes "crc_byte x a = crc_byte x b"
  shows "a = b"
proof -
  have "x XOR ucast a = x XOR ucast b"
    using assms unfolding crc_byte_def by (rule crc_bits_inj)
  then have "(ucast a :: u32) = ucast b"
    by (simp only: xor.commute [of x] xor_cancel_right)
  then show ?thesis
    by (metis ucast_up_ucast_id is_up_u8_u32)
qed

lemma foldl_crc_byte_inj: "foldl crc_byte x zs = foldl crc_byte y zs \<Longrightarrow> x = y"
  by (induction zs arbitrary: x y) (auto dest: crc_byte_inj_state)

section \<open>Properties\<close>

lemma crc32_append: "crc32 (xs @ ys) crc = crc32 ys (crc32 xs crc)"
  by (simp add: crc32_def)

lemma funpow_8: "(f ^^ 8) x = f (f (f (f (f (f (f (f x)))))))"
  by (simp add: numeral_eq_Suc)

text \<open>The standard check value: the CRC-32 of the ASCII string \<open>123456789\<close>.\<close>

lemma crc32_check_value:
  "crc32 [0x31, 0x32, 0x33, 0x34, 0x35, 0x36, 0x37, 0x38, 0x39] 0 = 0xCBF43926"
  by (simp add: crc32_def crc_byte_def funpow_8 crc_bit_def)

lemma crc32_single_byte_inj:
  assumes "crc32 (xs @ a # zs) crc = crc32 (xs @ b # zs) crc"
  shows "a = b"
proof -
  have "foldl crc_byte (crc_byte (foldl crc_byte (NOT crc) xs) a) zs
          = foldl crc_byte (crc_byte (foldl crc_byte (NOT crc) xs) b) zs"
    using assms by (simp add: crc32_def)
  then show ?thesis
    by (intro crc_byte_inj_byte) (rule foldl_crc_byte_inj)
qed

text \<open>
  The fingerprint function detects every single-byte corruption: two messages that agree
  everywhere except in one byte have different CRC-32 values, whatever the seed.
\<close>

theorem crc32_detects_single_byte_change:
  assumes "a \<noteq> b"
  shows "crc32 (xs @ a # zs) crc \<noteq> crc32 (xs @ b # zs) crc"
  using assms crc32_single_byte_inj by blast

theorem crc32_detects_single_byte_change_witness:
  "(2 :: u8) \<noteq> 9 \<and> crc32 ([1] @ 2 # [3]) 0 \<noteq> crc32 ([1] @ 9 # [3]) 0"
  using crc32_detects_single_byte_change [of 2 9 "[1]" "[3]" 0] by simp

end
