(* ===== verification/ChunkCoverageTracker.thy ===== *)
theory ChunkCoverageTracker
  imports MavlinkLogProtocol Crc32
begin

text \<open>
  \<^verbatim>\<open>src/ChunkCoverageTracker.cpp\<close>: one bit and one CRC-32 fingerprint per 90-byte slot of
  the log. The bitmap is the C++ byte vector; the fingerprint vector holds 0 for a slot that
  was never recorded.
\<close>

section \<open>Model\<close>

definition kEmptyFingerprint :: u32 where
  "kEmptyFingerprint = 0"

definition bitmapTest :: "bytes \<Rightarrow> u32 \<Rightarrow> bool" where
  "bitmapTest bitmap slot =
     (let byte = unat (slot div 8); m = push_bit (unat (slot mod 8)) (1 :: u8)
      in byte < length bitmap \<and> bitmap ! byte AND m \<noteq> 0)"

definition bitmapSet :: "bytes \<Rightarrow> u32 \<Rightarrow> bytes" where
  "bitmapSet bitmap slot =
     (let byte = unat (slot div 8); m = push_bit (unat (slot mod 8)) (1 :: u8)
      in if byte < length bitmap then bitmap[byte := bitmap ! byte OR m] else bitmap)"

text \<open>
  The caller owns \<open>data\<close> and passes \<open>cnt \<le> length data\<close>; the copy takes at most one chunk
  and the rest of the 90-byte buffer stays zero.
\<close>

definition fingerprintForSlot :: "bytes \<Rightarrow> u32 \<Rightarrow> u32" where
  "fingerprintForSlot data cnt =
     (let n = unat (min cnt kLogChunkSize);
          padded = take n data @ replicate (unat kLogChunkSize - n) 0;
          fp = crc32 padded 0
      in if fp = kEmptyFingerprint then 1 else fp)"

record coverage =
  total_size :: u32
  slot_count :: u32
  slots_received :: u32
  overlap_conflicts :: u32
  bitmap :: bytes
  fingerprints :: "u32 list"

definition coverage_new :: "u32 \<Rightarrow> coverage" where
  "coverage_new sz =
     (let n = chunkCountForSize sz
      in \<lparr>total_size = sz, slot_count = n, slots_received = 0, overlap_conflicts = 0,
          bitmap = replicate (unat ((n + 7) div 8)) 0,
          fingerprints = replicate (unat n) kEmptyFingerprint\<rparr>)"

definition markSlot :: "coverage \<Rightarrow> u32 \<Rightarrow> u32 \<Rightarrow> bool \<Rightarrow> coverage" where
  "markSlot t slot fingerprint detect_overlap =
     (if slot_count t \<le> slot then t
      else let was_set = bitmapTest (bitmap t) slot in
      if was_set \<and> detect_overlap then
        (if fingerprints t ! unat slot \<noteq> fingerprint
         then t\<lparr>overlap_conflicts := overlap_conflicts t + 1\<rparr> else t)
      else if \<not> was_set then
        t\<lparr>bitmap := bitmapSet (bitmap t) slot,
          fingerprints := (fingerprints t)[unat slot := fingerprint],
          slots_received := slots_received t + 1\<rparr>
      else if fingerprints t ! unat slot \<noteq> fingerprint \<and> detect_overlap
        then t\<lparr>overlap_conflicts := overlap_conflicts t + 1\<rparr> else t)"

text \<open>\<^verbatim>\<open>ChunkCoverageTracker::record\<close>: the return value and the updated object.\<close>

definition coverage_record ::
    "coverage \<Rightarrow> u32 \<Rightarrow> bytes option \<Rightarrow> u32 \<Rightarrow> bool \<Rightarrow> bool \<times> coverage" where
  "coverage_record t offset data cnt detect_overlap =
     (case data of
        None \<Rightarrow> (True, t)
      | Some d \<Rightarrow>
          if cnt = 0 then (True, t)
          else if offset mod kLogChunkSize \<noteq> 0 then (True, t)
          else let slot = chunkSlotIndex offset in
            if slot_count t \<le> slot then (True, t)
            else let t' = markSlot t slot (fingerprintForSlot d cnt) detect_overlap
              in (overlap_conflicts t' = 0 \<or> \<not> detect_overlap, t'))"

definition allSlotsReceived :: "coverage \<Rightarrow> bool" where
  "allSlotsReceived t =
     (if slot_count t = 0 then total_size t = 0 else slot_count t \<le> slots_received t)"

section \<open>The bitmap\<close>

definition slot_bits :: "bytes \<Rightarrow> nat \<Rightarrow> bool" where
  "slot_bits bm s \<longleftrightarrow> s div 8 < length bm \<and> bit (bm ! (s div 8)) (s mod 8)"

lemma bit_or_exp: "bit ((w :: u8) OR 2 ^ n) m \<longleftrightarrow> bit w m \<or> (m = n \<and> n < 8)"
  by (auto simp: bit_or_iff bit_exp_iff)

lemma unat_u32_div8: "unat ((x :: u32) div 8) = unat x div 8"
  by (simp add: unat_div_distrib)

lemma unat_u32_mod8: "unat ((x :: u32) mod 8) = unat x mod 8"
  by (simp add: unat_mod_distrib)

lemma bitmapTest_bits: "bitmapTest bm slot \<longleftrightarrow> slot_bits bm (unat slot)"
  by (simp add: bitmapTest_def slot_bits_def Let_def and_exp_eq_0_iff_not_bit
      unat_u32_div8 unat_u32_mod8)

lemma bitmapSet_length [simp]: "length (bitmapSet bm slot) = length bm"
  by (simp add: bitmapSet_def Let_def)

lemma slot_bits_bitmapSet:
  assumes "unat slot div 8 < length bm"
  shows "slot_bits (bitmapSet bm slot) s \<longleftrightarrow> slot_bits bm s \<or> s = unat slot"
proof -
  have "s div 8 = unat slot div 8 \<and> s mod 8 = unat slot mod 8 \<longleftrightarrow> s = unat slot"
    by (metis div_mod_decomp)
  with assms show ?thesis
    by (auto simp: bitmapSet_def slot_bits_def Let_def nth_list_update bit_or_exp
        unat_u32_div8 unat_u32_mod8)
qed

section \<open>Invariant\<close>

definition marked :: "coverage \<Rightarrow> nat set" where
  "marked t = {s. s < unat (slot_count t) \<and> slot_bits (bitmap t) s}"

definition coverage_inv :: "coverage \<Rightarrow> bool" where
  "coverage_inv t \<longleftrightarrow>
     length (bitmap t) = (unat (slot_count t) + 7) div 8 \<and>
     length (fingerprints t) = unat (slot_count t) \<and>
     unat (slots_received t) = card (marked t)"

lemma finite_marked [simp]: "finite (marked t)"
  by (rule finite_subset [of _ "{..<unat (slot_count t)}"]) (auto simp: marked_def)

lemma card_marked_le: "card (marked t) \<le> unat (slot_count t)"
proof -
  have "card (marked t) \<le> card {..<unat (slot_count t)}"
    by (rule card_mono) (auto simp: marked_def)
  then show ?thesis by simp
qed

lemma chunkCountForSize_small: "unat (chunkCountForSize sz) \<le> 47721858"
proof (cases "sz = 0")
  case False
  have "unat ((sz + kLogChunkSize - 1) div kLogChunkSize) \<le> 4294967295 div 90"
    unfolding unat_div_distrib unat_kLogChunkSize
    using unat_u32_bound [of "sz + kLogChunkSize - 1"] by (intro div_le_mono) linarith
  then show ?thesis using False by (simp add: chunkCountForSize_def)
qed (simp add: chunkCountForSize_def)

lemma coverage_new_bitmap: "unat ((chunkCountForSize sz + 7) div 8) = (unat (chunkCountForSize sz) + 7) div 8"
  using chunkCountForSize_small [of sz] by (simp add: unat_u32_div8 unat_u32_add)

lemma coverage_new_inv: "coverage_inv (coverage_new sz)"
  and coverage_new_marked: "marked (coverage_new sz) = {}"
proof -
  show empty: "marked (coverage_new sz) = {}"
    by (auto simp: marked_def coverage_new_def Let_def slot_bits_def)
  then show "coverage_inv (coverage_new sz)"
    by (simp add: coverage_inv_def) (simp add: coverage_new_def Let_def coverage_new_bitmap)
qed

lemma coverage_new_slot_count: "slot_count (coverage_new sz) = chunkCountForSize sz"
  by (simp add: coverage_new_def Let_def)

lemma markSlot_slot_count [simp]: "slot_count (markSlot t slot fp d) = slot_count t"
  by (simp add: markSlot_def Let_def)

lemma markSlot_fresh:
  assumes inv: "coverage_inv t" and lt: "slot < slot_count t"
    and new: "\<not> bitmapTest (bitmap t) slot"
  shows "coverage_inv (markSlot t slot fp d)"
    and "marked (markSlot t slot fp d) = insert (unat slot) (marked t)"
proof -
  have slot: "unat slot < unat (slot_count t)"
    using lt by (simp add: u32_less_iff)
  then have "unat slot div 8 < length (bitmap t)"
    using inv by (simp add: coverage_inv_def)
  then have bits: "slot_bits (bitmapSet (bitmap t) slot) s \<longleftrightarrow> slot_bits (bitmap t) s \<or> s = unat slot" for s
    by (rule slot_bits_bitmapSet)
  have eq: "markSlot t slot fp d =
      t\<lparr>bitmap := bitmapSet (bitmap t) slot, fingerprints := (fingerprints t)[unat slot := fp],
        slots_received := slots_received t + 1\<rparr>"
    using lt new by (simp add: markSlot_def Let_def)
  show mk: "marked (markSlot t slot fp d) = insert (unat slot) (marked t)"
    using slot by (auto simp: marked_def eq bits)
  have "unat slot \<notin> marked t"
    using new by (simp add: marked_def bitmapTest_bits)
  then have "card (marked (markSlot t slot fp d)) = Suc (card (marked t))"
    by (simp add: mk)
  moreover have "Suc (card (marked t)) < 4294967296"
    using card_marked_le [of "markSlot t slot fp d"] calculation
      unat_u32_bound [of "slot_count t"] by (simp only: markSlot_slot_count)
  ultimately show "coverage_inv (markSlot t slot fp d)"
    using inv by (simp add: coverage_inv_def unat_u32_add) (simp add: eq unat_u32_add)
qed

lemma markSlot_again:
  assumes "bitmapTest (bitmap t) slot"
  shows "bitmap (markSlot t slot fp d) = bitmap t"
    and "fingerprints (markSlot t slot fp d) = fingerprints t"
    and "slots_received (markSlot t slot fp d) = slots_received t"
  using assms by (auto simp: markSlot_def Let_def)

lemma markSlot_total_size [simp]: "total_size (markSlot t slot fp d) = total_size t"
  by (simp add: markSlot_def Let_def)

lemma markSlot_inv:
  assumes "coverage_inv t" and "slot < slot_count t"
  shows "coverage_inv (markSlot t slot fp d) \<and>
         marked (markSlot t slot fp d) = insert (unat slot) (marked t)"
proof (cases "bitmapTest (bitmap t) slot")
  case True
  then have "unat slot \<in> marked t"
    using assms(2) by (simp add: marked_def bitmapTest_bits u32_less_iff)
  with True assms show ?thesis
    by (auto simp: coverage_inv_def marked_def markSlot_again)
next
  case False
  with assms markSlot_fresh show ?thesis by blast
qed

section \<open>Recording chunks\<close>

text \<open>A received chunk, as the session passes it: offset, payload, length.\<close>

type_synonym chunk = "u32 \<times> bytes \<times> u32"

definition lands_in :: "u32 \<Rightarrow> u32 \<Rightarrow> u32 \<Rightarrow> bool" where
  "lands_in slots offset cnt \<longleftrightarrow>
     cnt \<noteq> 0 \<and> offset mod kLogChunkSize = 0 \<and> chunkSlotIndex offset < slots"

lemma coverage_record_Some:
  "coverage_record t offset (Some d) cnt det =
     (if lands_in (slot_count t) offset cnt
      then let t' = markSlot t (chunkSlotIndex offset) (fingerprintForSlot d cnt) det
           in (overlap_conflicts t' = 0 \<or> \<not> det, t')
      else (True, t))"
  by (simp add: coverage_record_def lands_in_def Let_def u32_order)

lemma coverage_record_inv:
  assumes "coverage_inv t"
  shows "coverage_inv (snd (coverage_record t offset (Some d) cnt det))"
    and "marked (snd (coverage_record t offset (Some d) cnt det)) =
           (if lands_in (slot_count t) offset cnt
            then insert (unat (chunkSlotIndex offset)) (marked t) else marked t)"
    and "slot_count (snd (coverage_record t offset (Some d) cnt det)) = slot_count t"
    and "total_size (snd (coverage_record t offset (Some d) cnt det)) = total_size t"
  using assms markSlot_inv [of t "chunkSlotIndex offset"]
  by (auto simp: coverage_record_Some Let_def lands_in_def)

fun record_all :: "coverage \<Rightarrow> bool \<Rightarrow> chunk list \<Rightarrow> coverage" where
  "record_all t det [] = t"
| "record_all t det (c # cs) =
     record_all (snd (coverage_record t (fst c) (Some (fst (snd c))) (snd (snd c)) det)) det cs"

definition chunk_slots :: "u32 \<Rightarrow> chunk list \<Rightarrow> nat set" where
  "chunk_slots slots cs =
     (\<lambda>c. unat (chunkSlotIndex (fst c))) ` {c \<in> set cs. lands_in slots (fst c) (snd (snd c))}"

lemma chunk_slots_simps [simp]:
  "chunk_slots slots [] = {}"
  "chunk_slots slots (c # cs) =
     (if lands_in slots (fst c) (snd (snd c))
      then insert (unat (chunkSlotIndex (fst c))) (chunk_slots slots cs)
      else chunk_slots slots cs)"
  unfolding chunk_slots_def by auto

lemma record_all_inv:
  "coverage_inv t \<Longrightarrow>
   coverage_inv (record_all t det cs) \<and>
   slot_count (record_all t det cs) = slot_count t \<and>
   total_size (record_all t det cs) = total_size t \<and>
   marked (record_all t det cs) = marked t \<union> chunk_slots (slot_count t) cs"
proof (induction t det cs rule: record_all.induct)
  case (2 t det c cs)
  note R = coverage_record_inv [OF "2.prems", of "fst c" "fst (snd c)" "snd (snd c)" det]
  show ?case
    using "2.IH" [OF R(1)] R(2-4) by auto
qed simp

lemma allSlotsReceived_iff:
  assumes "coverage_inv t" and "slot_count t \<noteq> 0"
  shows "allSlotsReceived t \<longleftrightarrow> marked t = {..<unat (slot_count t)}"
proof -
  have sub: "marked t \<subseteq> {..<unat (slot_count t)}"
    by (auto simp: marked_def)
  have "allSlotsReceived t \<longleftrightarrow> unat (slot_count t) \<le> card (marked t)"
    using assms by (simp add: allSlotsReceived_def coverage_inv_def u32_le_iff)
  also have "\<dots> \<longleftrightarrow> marked t = {..<unat (slot_count t)}"
    using sub by (metis card_lessThan card_seteq finite_lessThan order_refl)
  finally show ?thesis .
qed


section \<open>Conflict detection over a session\<close>

text \<open>
  The session records chunks one after the other with detection on and stops at the first
  \<open>false\<close>; \<open>record_ok\<close> says that it got through the whole list.
\<close>

fun record_ok :: "coverage \<Rightarrow> chunk list \<Rightarrow> bool" where
  "record_ok t [] = True"
| "record_ok t (c # cs) =
     (let r = coverage_record t (fst c) (Some (fst (snd c))) (snd (snd c)) True
      in fst r \<and> record_ok (snd r) cs)"

abbreviation chunk_slot :: "chunk \<Rightarrow> nat" where
  "chunk_slot c \<equiv> unat (chunkSlotIndex (fst c))"

abbreviation chunk_print :: "chunk \<Rightarrow> u32" where
  "chunk_print c \<equiv> fingerprintForSlot (fst (snd c)) (snd (snd c))"

abbreviation chunk_lands :: "u32 \<Rightarrow> chunk \<Rightarrow> bool" where
  "chunk_lands slots c \<equiv> lands_in slots (fst c) (snd (snd c))"

definition consistent_with :: "coverage \<Rightarrow> chunk \<Rightarrow> bool" where
  "consistent_with t c \<longleftrightarrow>
     (chunk_lands (slot_count t) c \<longrightarrow> chunk_slot c \<in> marked t \<longrightarrow>
        fingerprints t ! chunk_slot c = chunk_print c)"

definition consistent_pair :: "u32 \<Rightarrow> chunk \<Rightarrow> chunk \<Rightarrow> bool" where
  "consistent_pair slots c c' \<longleftrightarrow>
     (chunk_lands slots c \<longrightarrow> chunk_lands slots c' \<longrightarrow> chunk_slot c = chunk_slot c' \<longrightarrow>
        chunk_print c = chunk_print c')"

lemma coverage_record_step:
  assumes "coverage_inv t" and "overlap_conflicts t = 0"
  shows "fst (coverage_record t (fst c) (Some (fst (snd c))) (snd (snd c)) True) \<longleftrightarrow>
           consistent_with t c"
    and "consistent_with t c \<Longrightarrow>
         overlap_conflicts (snd (coverage_record t (fst c) (Some (fst (snd c))) (snd (snd c)) True)) = 0"
proof -
  have "chunk_lands (slot_count t) c \<Longrightarrow>
      bitmapTest (bitmap t) (chunkSlotIndex (fst c)) \<longleftrightarrow> chunk_slot c \<in> marked t"
    by (simp add: marked_def bitmapTest_bits lands_in_def u32_less_iff)
  then show "fst (coverage_record t (fst c) (Some (fst (snd c))) (snd (snd c)) True) \<longleftrightarrow>
               consistent_with t c"
    and "consistent_with t c \<Longrightarrow>
         overlap_conflicts (snd (coverage_record t (fst c) (Some (fst (snd c))) (snd (snd c)) True)) = 0"
    using assms by (auto simp: coverage_record_Some Let_def consistent_with_def markSlot_def
        lands_in_def u32_order)
qed

lemma coverage_record_prints:
  assumes inv: "coverage_inv t"
  shows "consistent_with (snd (coverage_record t (fst c) (Some (fst (snd c))) (snd (snd c)) True)) c'
         \<longleftrightarrow> consistent_with t c' \<and>
             (chunk_slot c \<notin> marked t \<longrightarrow> consistent_pair (slot_count t) c c')"
proof (cases "chunk_lands (slot_count t) c")
  case False
  then show ?thesis
    by (auto simp: coverage_record_Some consistent_pair_def)
next
  case True
  let ?t = "markSlot t (chunkSlotIndex (fst c)) (chunk_print c) True"
  have rec: "snd (coverage_record t (fst c) (Some (fst (snd c))) (snd (snd c)) True) = ?t"
    using True by (simp add: coverage_record_Some Let_def)
  have lt: "chunkSlotIndex (fst c) < slot_count t"
    using True by (simp add: lands_in_def)
  have mk: "marked ?t = insert (chunk_slot c) (marked t)"
    using markSlot_inv [OF inv lt] by blast
  have set: "bitmapTest (bitmap t) (chunkSlotIndex (fst c)) \<longleftrightarrow> chunk_slot c \<in> marked t"
    using lt by (simp add: marked_def bitmapTest_bits u32_less_iff)
  have fp: "fingerprints ?t =
      (if chunk_slot c \<in> marked t then fingerprints t
       else (fingerprints t)[chunk_slot c := chunk_print c])"
    using lt set by (auto simp: markSlot_def Let_def u32_order)
  have len: "chunk_slot c < length (fingerprints t)"
    using inv lt by (simp add: coverage_inv_def u32_less_iff)
  show ?thesis
    unfolding rec using True len
    by (auto simp: consistent_with_def consistent_pair_def mk fp nth_list_update)
qed

lemma record_ok_from:
  "coverage_inv t \<Longrightarrow> overlap_conflicts t = 0 \<Longrightarrow>
   record_ok t cs \<longleftrightarrow>
     (\<forall>c\<in>set cs. consistent_with t c) \<and>
     (\<forall>c\<in>set cs. \<forall>c'\<in>set cs. consistent_pair (slot_count t) c c')"
proof (induction cs arbitrary: t)
  case (Cons c cs)
  let ?t = "snd (coverage_record t (fst c) (Some (fst (snd c))) (snd (snd c)) True)"
  note step = coverage_record_step [OF Cons.prems, of c]
  have inv: "coverage_inv ?t" and sc: "slot_count ?t = slot_count t"
    using coverage_record_inv [OF Cons.prems(1)] by auto
  show ?case
  proof (cases "consistent_with t c")
    case False
    then show ?thesis using step(1) by (simp add: Let_def)
  next
    case True
    have self: "consistent_pair (slot_count t) d d" for d
      by (simp add: consistent_pair_def)
    have sym: "consistent_pair (slot_count t) d e \<longleftrightarrow> consistent_pair (slot_count t) e d" for d e
      by (auto simp: consistent_pair_def)
    have known: "chunk_slot c \<in> marked t \<Longrightarrow> consistent_with t d \<Longrightarrow> consistent_pair (slot_count t) c d" for d
      using True by (auto simp: consistent_with_def consistent_pair_def)
    have "record_ok t (c # cs) \<longleftrightarrow> record_ok ?t cs"
      using step(1) True by (simp add: Let_def)
    also have "\<dots> \<longleftrightarrow> (\<forall>d\<in>set cs. consistent_with ?t d) \<and>
        (\<forall>d\<in>set cs. \<forall>e\<in>set cs. consistent_pair (slot_count t) d e)"
      using Cons.IH [OF inv step(2) [OF True]] by (simp add: sc)
    also have "\<dots> \<longleftrightarrow> (\<forall>d\<in>set cs. consistent_with t d \<and> consistent_pair (slot_count t) c d) \<and>
        (\<forall>d\<in>set cs. \<forall>e\<in>set cs. consistent_pair (slot_count t) d e)"
      using coverage_record_prints [OF Cons.prems(1), of c] known by blast
    finally show ?thesis
      using True self sym by auto
  qed
qed simp

section \<open>Properties\<close>

lemma chunk_slot_offset:
  assumes "ofs mod kLogChunkSize = 0"
  shows "unat (chunkSlotIndex ofs) = s \<longleftrightarrow> unat ofs = 90 * s"
  using assms by (auto simp: chunk_mod_0_iff unat_chunkSlotIndex)

lemma marked_after_new:
  "marked (record_all (coverage_new sz) det cs) = chunk_slots (chunkCountForSize sz) cs"
  using record_all_inv [OF coverage_new_inv, of sz det cs]
  by (simp add: coverage_new_marked coverage_new_slot_count)

lemma chunk_slots_iff:
  assumes "s < unat slots"
  shows "s \<in> chunk_slots slots cs \<longleftrightarrow> (\<exists>c\<in>set cs. unat (fst c) = 90 * s \<and> snd (snd c) \<noteq> 0)"
proof -
  have "s \<in> chunk_slots slots cs \<longleftrightarrow> (\<exists>c\<in>set cs. chunk_lands slots c \<and> chunk_slot c = s)"
    by (auto simp: chunk_slots_def)
  also have "\<dots> \<longleftrightarrow> (\<exists>c\<in>set cs. unat (fst c) = 90 * s \<and> snd (snd c) \<noteq> 0)"
  proof (rule bex_cong [OF refl])
    fix c :: chunk
    show "chunk_lands slots c \<and> chunk_slot c = s \<longleftrightarrow> unat (fst c) = 90 * s \<and> snd (snd c) \<noteq> 0"
      using assms
      by (auto simp: lands_in_def chunk_mod_0_iff unat_chunkSlotIndex u32_less_iff)
  qed
  finally show ?thesis .
qed

lemma all_slots_iff:
  assumes "unat sz \<le> 4294967206" and "sz \<noteq> 0"
  shows "allSlotsReceived (record_all (coverage_new sz) det cs) \<longleftrightarrow>
           (\<forall>s<(unat sz + 89) div 90. \<exists>c\<in>set cs. unat (fst c) = 90 * s \<and> snd (snd c) \<noteq> 0)"
proof -
  let ?t = "record_all (coverage_new sz) det cs"
  have n: "unat (chunkCountForSize sz) = (unat sz + 89) div 90"
    by (rule unat_chunkCountForSize) (rule assms)
  have "0 < unat sz"
    using assms(2) by (simp add: unat_gt_0)
  then have "90 \<le> unat sz + 89" by simp
  then have "0 < unat (chunkCountForSize sz)"
    unfolding n by (simp add: div_greater_zero_iff)
  then have nz: "chunkCountForSize sz \<noteq> 0"
    by auto
  have inv: "coverage_inv ?t" and sc: "slot_count ?t = chunkCountForSize sz"
    using record_all_inv [OF coverage_new_inv, of sz det cs] by (auto simp: coverage_new_slot_count)
  have sub: "chunk_slots (chunkCountForSize sz) cs \<subseteq> {..<unat (chunkCountForSize sz)}"
    by (auto simp: chunk_slots_def lands_in_def u32_less_iff)
  have "allSlotsReceived ?t \<longleftrightarrow>
      (\<forall>s<unat (chunkCountForSize sz). s \<in> chunk_slots (chunkCountForSize sz) cs)"
    using allSlotsReceived_iff [OF inv] nz sc sub by (auto simp: marked_after_new)
  then show ?thesis
    by (simp add: chunk_slots_iff n)
qed

text \<open>
  Slot completeness is exact: for a log of \<open>sz\<close> bytes (not within 90 bytes of the 32-bit
  limit), after any sequence of recorded chunks, conflicting or not, \<open>allSlotsReceived\<close> holds
  if and only if every 90-byte slot of the log got a non-empty chunk at its own offset.
\<close>

theorem all_slots_iff_every_offset_recorded:
  assumes "unat sz \<le> 4294967206" and "sz \<noteq> 0"
  shows "allSlotsReceived (record_all (coverage_new sz) det cs) \<longleftrightarrow>
           (\<forall>s<(unat sz + 89) div 90. \<exists>c\<in>set cs. unat (fst c) = 90 * s \<and> snd (snd c) \<noteq> 0)"
  using assms by (rule all_slots_iff)

theorem all_slots_iff_every_offset_recorded_witness:
  "unat (180 :: u32) \<le> 4294967206 \<and> (180 :: u32) \<noteq> 0 \<and>
   allSlotsReceived (record_all (coverage_new 180) True [(90, [7], 1), (0, [1, 2], 2)])"
proof -
  have h: "unat (180 :: u32) \<le> 4294967206" "(180 :: u32) \<noteq> 0"
    by simp_all
  have n: "(unat (180 :: u32) + 89) div 90 = 2"
    by simp
  have "\<exists>c\<in>set [(90, [7], 1), (0, [1, 2], 2)] :: chunk set. unat (fst c) = 90 * s \<and> snd (snd c) \<noteq> 0"
    if "s < 2" for s
    using that by (cases s) auto
  then have "allSlotsReceived (record_all (coverage_new 180) True [(90, [7], 1), (0, [1, 2], 2)])"
    unfolding all_slots_iff_every_offset_recorded [OF h] n by blast
  with h show ?thesis by blast
qed

lemma record_ok_new:
  "record_ok (coverage_new sz) cs \<longleftrightarrow>
     (\<forall>c\<in>set cs. \<forall>c'\<in>set cs. consistent_pair (chunkCountForSize sz) c c')"
proof -
  have "overlap_conflicts (coverage_new sz) = 0"
    by (simp add: coverage_new_def Let_def)
  moreover have "\<forall>c\<in>set cs. consistent_with (coverage_new sz) c"
    by (simp add: consistent_with_def coverage_new_marked)
  ultimately show ?thesis
    using record_ok_from [OF coverage_new_inv, of sz cs] by (simp add: coverage_new_slot_count)
qed

text \<open>
  (C33) Overlap detection is exact up to fingerprints: a session that records chunks into a
  fresh tracker with detection on runs to the end without a conflict if and only if any two
  chunks that land in the same slot have the same fingerprint, in whatever order they came.
\<close>

theorem overlap_detection_exact:
  "record_ok (coverage_new sz) cs \<longleftrightarrow>
     (\<forall>c\<in>set cs. \<forall>c'\<in>set cs.
        lands_in (chunkCountForSize sz) (fst c) (snd (snd c)) \<and>
        lands_in (chunkCountForSize sz) (fst c') (snd (snd c')) \<and>
        chunkSlotIndex (fst c) = chunkSlotIndex (fst c') \<longrightarrow>
        fingerprintForSlot (fst (snd c)) (snd (snd c)) =
          fingerprintForSlot (fst (snd c')) (snd (snd c')))"
  unfolding record_ok_new consistent_pair_def word_unat_eq_iff [of "chunkSlotIndex _"] by blast

theorem overlap_detection_exact_witness:
  "record_ok (coverage_new 180) [(90, [3], 1), (0, [1], 1), (90, [3], 1)]"
  unfolding overlap_detection_exact by (auto simp: chunkSlotIndex_def kLogChunkSize_def)

text \<open>The 90-byte buffer whose CRC-32 is the fingerprint of a chunk.\<close>

definition padded_chunk :: "bytes \<Rightarrow> bytes" where
  "padded_chunk d = d @ replicate (90 - length d) 0"

lemma fingerprint_padded:
  assumes "length d = unat cnt" and "length d \<le> 90"
  shows "fingerprintForSlot d cnt = (let fp = crc32 (padded_chunk d) 0 in if fp = 0 then 1 else fp)"
  using assms
  by (simp add: fingerprintForSlot_def padded_chunk_def kEmptyFingerprint_def unat_u32_min Let_def)

text \<open>
  A retransmission that changes one byte of a slot is caught: if two full or short
  chunks of the same length for the same slot differ in exactly one byte, the session with
  detection on reports a conflict, except where their CRC-32 values are 0 and 1, which the
  code maps to the same fingerprint.
\<close>

theorem changed_retransmission_detected:
  assumes "(ofs, xs @ a # zs, n) \<in> set cs" and "(ofs, xs @ b # zs, n) \<in> set cs" and "a \<noteq> b"
    and "length (xs @ a # zs) = unat n" and "unat n \<le> 90"
    and "lands_in (chunkCountForSize sz) ofs n"
    and "{crc32 (padded_chunk (xs @ a # zs)) 0, crc32 (padded_chunk (xs @ b # zs)) 0} \<noteq> {0, 1}"
  shows "\<not> record_ok (coverage_new sz) cs"
proof
  assume "record_ok (coverage_new sz) cs"
  then have "fingerprintForSlot (xs @ a # zs) n = fingerprintForSlot (xs @ b # zs) n"
    using assms unfolding record_ok_new consistent_pair_def by fastforce
  moreover have "length (xs @ b # zs) = unat n"
    using assms(4) by simp
  moreover have "crc32 (padded_chunk (xs @ a # zs)) 0 \<noteq> crc32 (padded_chunk (xs @ b # zs)) 0"
    using assms(3) crc32_single_byte_inj [of xs a "zs @ replicate (90 - unat n) 0" 0 b] assms(4)
    by (auto simp: padded_chunk_def)
  ultimately show False
    using assms(4,5,7) by (auto simp: fingerprint_padded Let_def split: if_splits)
qed


lemma zeros_89: "replicate 89 (0 :: u8) =
    [0, 0, 0, 0, 0, 0, 0, 0, 0, 0, 0, 0, 0, 0, 0, 0, 0, 0, 0, 0, 0, 0, 0, 0, 0, 0, 0, 0, 0, 0,
     0, 0, 0, 0, 0, 0, 0, 0, 0, 0, 0, 0, 0, 0, 0, 0, 0, 0, 0, 0, 0, 0, 0, 0, 0, 0, 0, 0, 0, 0,
     0, 0, 0, 0, 0, 0, 0, 0, 0, 0, 0, 0, 0, 0, 0, 0, 0, 0, 0, 0, 0, 0, 0, 0, 0, 0, 0, 0, 0]"
  by (simp add: numeral_eq_Suc)

lemma padded_chunk_1: "padded_chunk [x] = x #
    [0, 0, 0, 0, 0, 0, 0, 0, 0, 0, 0, 0, 0, 0, 0, 0, 0, 0, 0, 0, 0, 0, 0, 0, 0, 0, 0, 0, 0, 0,
     0, 0, 0, 0, 0, 0, 0, 0, 0, 0, 0, 0, 0, 0, 0, 0, 0, 0, 0, 0, 0, 0, 0, 0, 0, 0, 0, 0, 0, 0,
     0, 0, 0, 0, 0, 0, 0, 0, 0, 0, 0, 0, 0, 0, 0, 0, 0, 0, 0, 0, 0, 0, 0, 0, 0, 0, 0, 0, 0]"
  unfolding zeros_89 [symmetric] by (simp add: padded_chunk_def)

lemma crc_padded_1: "crc32 (padded_chunk [1]) 0 = 0x82B9364C"
  unfolding padded_chunk_1 by (simp add: crc32_def crc_byte_def funpow_8 crc_bit_def)

theorem changed_retransmission_detected_witness:
  "\<not> record_ok (coverage_new 180) [(90, [1], 1), (0, [5], 1), (90, [2], 1)]"
proof (rule changed_retransmission_detected [of 90 "[]" 1 "[]" 1 _ 2])
  show "{crc32 (padded_chunk ([] @ 1 # [])) 0, crc32 (padded_chunk ([] @ 2 # [])) 0} \<noteq> {0, 1}"
    by (simp add: crc_padded_1 doubleton_eq_iff)
  show "lands_in (chunkCountForSize 180) 90 1"
    by (simp add: lands_in_def protocol_defs)
qed simp_all

end
