(* ===== verification/Sha256.thy ===== *)
theory Sha256
  imports Prelude
begin

text \<open>
  \<^verbatim>\<open>src/Sha256.cpp\<close>: the incremental SHA-256 context (an 8-word state, a 64-byte buffer
  filled byte by byte, a running length) and a reference definition written from FIPS 180-4,
  with the proof that the incremental context computes it.
\<close>

section \<open>Model\<close>

text \<open>The eight rows of the table, as the source lays them out.\<close>

definition kRoundConstants :: "u32 list" where
  "kRoundConstants = concat [
     [0x428a2f98, 0x71374491, 0xb5c0fbcf, 0xe9b5dba5, 0x3956c25b, 0x59f111f1, 0x923f82a4, 0xab1c5ed5],
     [0xd807aa98, 0x12835b01, 0x243185be, 0x550c7dc3, 0x72be5d74, 0x80deb1fe, 0x9bdc06a7, 0xc19bf174],
     [0xe49b69c1, 0xefbe4786, 0x0fc19dc6, 0x240ca1cc, 0x2de92c6f, 0x4a7484aa, 0x5cb0a9dc, 0x76f988da],
     [0x983e5152, 0xa831c66d, 0xb00327c8, 0xbf597fc7, 0xc6e00bf3, 0xd5a79147, 0x06ca6351, 0x14292967],
     [0x27b70a85, 0x2e1b2138, 0x4d2c6dfc, 0x53380d13, 0x650a7354, 0x766a0abb, 0x81c2c92e, 0x92722c85],
     [0xa2bfe8a1, 0xa81a664b, 0xc24b8b70, 0xc76c51a3, 0xd192e819, 0xd6990624, 0xf40e3585, 0x106aa070],
     [0x19a4c116, 0x1e376c08, 0x2748774c, 0x34b0bcb5, 0x391c0cb3, 0x4ed8aa4a, 0x5b9cca4f, 0x682e6ff3],
     [0x748f82ee, 0x78a5636f, 0x84c87814, 0x8cc70208, 0x90befffa, 0xa4506ceb, 0xbef9a3f7, 0xc67178f2]]"

definition rotr :: "u32 \<Rightarrow> nat \<Rightarrow> u32" where
  "rotr x n = (drop_bit n x) OR (push_bit (32 - n) x)"

definition ch :: "u32 \<Rightarrow> u32 \<Rightarrow> u32 \<Rightarrow> u32" where
  "ch x y z = (x AND y) XOR ((NOT x) AND z)"

definition maj :: "u32 \<Rightarrow> u32 \<Rightarrow> u32 \<Rightarrow> u32" where
  "maj x y z = (x AND y) XOR (x AND z) XOR (y AND z)"

definition sig0 :: "u32 \<Rightarrow> u32" where
  "sig0 x = rotr x 2 XOR rotr x 13 XOR rotr x 22"

definition sig1 :: "u32 \<Rightarrow> u32" where
  "sig1 x = rotr x 6 XOR rotr x 11 XOR rotr x 25"

definition ep0 :: "u32 \<Rightarrow> u32" where
  "ep0 x = rotr x 7 XOR rotr x 18 XOR drop_bit 3 x"

definition ep1 :: "u32 \<Rightarrow> u32" where
  "ep1 x = rotr x 17 XOR rotr x 19 XOR drop_bit 10 x"

definition hexDigit :: "u8 \<Rightarrow> char" where
  "hexDigit n = ''0123456789abcdef'' ! unat n"

definition bytesToHex :: "bytes \<Rightarrow> string" where
  "bytesToHex bs = concat (map (\<lambda>b. [hexDigit (drop_bit 4 b), hexDigit (b AND 15)]) bs)"

record sha_ctx =
  sha_state :: "u32 list"
  sha_buffer :: bytes
  sha_total_bytes :: u64
  sha_buffer_len :: nat
  sha_finalized :: bool

definition Sha256_new :: sha_ctx where
  "Sha256_new =
     \<lparr>sha_state = [0x6a09e667, 0xbb67ae85, 0x3c6ef372, 0xa54ff53a,
                   0x510e527f, 0x9b05688c, 0x1f83d9ab, 0x5be0cd19],
      sha_buffer = replicate 64 0, sha_total_bytes = 0, sha_buffer_len = 0,
      sha_finalized = False\<rparr>"

text \<open>The message schedule: the first loop of \<open>transform\<close>, then the extension loop.\<close>

definition word_be :: "bytes \<Rightarrow> nat \<Rightarrow> u32" where
  "word_be block i =
     push_bit 24 (ucast (block ! (i * 4))) OR push_bit 16 (ucast (block ! (i * 4 + 1)))
     OR push_bit 8 (ucast (block ! (i * 4 + 2))) OR ucast (block ! (i * 4 + 3))"

definition schedule_step :: "u32 list \<Rightarrow> nat \<Rightarrow> u32 list" where
  "schedule_step w i = w @ [ep1 (w ! (i - 2)) + w ! (i - 7) + ep0 (w ! (i - 15)) + w ! (i - 16)]"

definition schedule :: "bytes \<Rightarrow> u32 list" where
  "schedule block = foldl schedule_step (map (word_be block) [0..<16]) [16..<64]"

text \<open>One iteration of the round loop on the local variables \<open>a\<close> to \<open>h\<close>.\<close>

type_synonym sha_regs = "u32 \<times> u32 \<times> u32 \<times> u32 \<times> u32 \<times> u32 \<times> u32 \<times> u32"

fun sha_round :: "sha_regs \<Rightarrow> u32 \<times> u32 \<Rightarrow> sha_regs" where
  "sha_round (a, b, c, d, e, f, g, h) (k, w) =
     (let t1 = h + sig1 e + ch e f g + k + w;
          t2 = sig0 a + maj a b c
      in (t1 + t2, a, b, c, d + t1, e, f, g))"

definition transform :: "u32 list \<Rightarrow> bytes \<Rightarrow> u32 list" where
  "transform st block =
     (case foldl sha_round (st ! 0, st ! 1, st ! 2, st ! 3, st ! 4, st ! 5, st ! 6, st ! 7)
             (zip kRoundConstants (schedule block)) of
        (a, b, c, d, e, f, g, h) \<Rightarrow>
          [st ! 0 + a, st ! 1 + b, st ! 2 + c, st ! 3 + d,
           st ! 4 + e, st ! 5 + f, st ! 6 + g, st ! 7 + h])"

text \<open>The body of the byte loop of \<open>update\<close>.\<close>

definition update_byte :: "sha_ctx \<Rightarrow> u8 \<Rightarrow> sha_ctx" where
  "update_byte ctx b =
     (let ctx = ctx\<lparr>sha_buffer := (sha_buffer ctx)[sha_buffer_len ctx := b],
                    sha_buffer_len := sha_buffer_len ctx + 1,
                    sha_total_bytes := sha_total_bytes ctx + 1\<rparr>
      in if sha_buffer_len ctx = 64
         then ctx\<lparr>sha_state := transform (sha_state ctx) (sha_buffer ctx), sha_buffer_len := 0\<rparr>
         else ctx)"

definition update_loop :: "sha_ctx \<Rightarrow> bytes \<Rightarrow> sha_ctx" where
  "update_loop ctx data = foldl update_byte ctx data"

datatype sha_error = AlreadyFinalized

definition sha_update :: "sha_ctx \<Rightarrow> bytes \<Rightarrow> sha_error + sha_ctx" where
  "sha_update ctx data =
     (if sha_finalized ctx then Inl AlreadyFinalized else Inr (update_loop ctx data))"

definition clone :: "sha_ctx \<Rightarrow> sha_ctx" where
  "clone ctx =
     Sha256_new\<lparr>sha_state := sha_state ctx, sha_buffer := sha_buffer ctx,
                sha_total_bytes := sha_total_bytes ctx, sha_buffer_len := sha_buffer_len ctx,
                sha_finalized := sha_finalized ctx\<rparr>"

text \<open>
  \<open>padAndFinalize\<close>: \<^verbatim>\<open>update(&pad_byte, 1)\<close> while the buffer is not filled to 56 bytes.
  The context is not finalized there, so \<open>update\<close> does not throw.
\<close>

function pad_loop :: "sha_ctx \<Rightarrow> sha_ctx" where
  "pad_loop ctx =
     (if sha_buffer_len ctx \<ge> 64 \<or> sha_buffer_len ctx = 56 then ctx
      else pad_loop (update_byte ctx 0))"
  by pat_completeness auto
termination
proof (relation "measure (\<lambda>ctx. (56 + 64 - sha_buffer_len ctx) mod 64)", simp)
  fix ctx :: sha_ctx
  assume "\<not> (sha_buffer_len ctx \<ge> 64 \<or> sha_buffer_len ctx = 56)"
  then have "sha_buffer_len ctx < 64" "sha_buffer_len ctx \<noteq> 56" by auto
  then have "sha_buffer_len ctx < 56 \<or> (56 < sha_buffer_len ctx \<and> sha_buffer_len ctx < 64)" by auto
  then show "(update_byte ctx 0, ctx) \<in> measure (\<lambda>ctx. (56 + 64 - sha_buffer_len ctx) mod 64)"
    by (auto simp: update_byte_def Let_def mod_if)
qed

declare pad_loop.simps [simp del]

definition length_bytes :: "u64 \<Rightarrow> bytes" where
  "length_bytes bit_len =
     map (\<lambda>i. ucast (drop_bit (i * 8) bit_len AND 0xFF)) [7, 6, 5, 4, 3, 2, 1, 0]"

definition word_bytes :: "u32 \<Rightarrow> bytes" where
  "word_bytes x =
     [ucast (drop_bit 24 x AND 0xFF), ucast (drop_bit 16 x AND 0xFF),
      ucast (drop_bit 8 x AND 0xFF), ucast (x AND 0xFF)]"

definition padAndFinalize :: "sha_ctx \<Rightarrow> sha_ctx \<times> bytes" where
  "padAndFinalize ctx =
     (let bit_len = sha_total_bytes ctx * 8;
          ctx = pad_loop (update_byte ctx 0x80);
          ctx = update_loop ctx (length_bytes bit_len)
      in (ctx, concat (map (\<lambda>i. word_bytes (sha_state ctx ! i)) [0..<8])))"

definition finalizeHex :: "sha_ctx \<Rightarrow> sha_error + (sha_ctx \<times> string)" where
  "finalizeHex ctx =
     (if sha_finalized ctx then Inl AlreadyFinalized
      else case padAndFinalize ctx of
        (ctx', digest) \<Rightarrow> Inr (ctx'\<lparr>sha_finalized := True\<rparr>, bytesToHex digest))"

definition hashHex :: "bytes \<Rightarrow> sha_error + string" where
  "hashHex data =
     (case sha_update Sha256_new data of
        Inl e \<Rightarrow> Inl e
      | Inr ctx \<Rightarrow> (case finalizeHex ctx of Inl e \<Rightarrow> Inl e | Inr (_, hex) \<Rightarrow> Inr hex))"


section \<open>Reference definition (FIPS 180-4)\<close>

text \<open>
  The constants as section 4.2.2 and 5.3.3 of the standard define them: the first 32 bits of the
  fractional parts of the cube roots of the first 64 primes, and of the square roots of the first 8.
  The 64 primes are those below 312.
\<close>

fun sieve :: "nat list \<Rightarrow> nat list" where
  "sieve [] = []"
| "sieve (p # ns) = p # sieve (filter (\<lambda>n. n mod p \<noteq> 0) ns)"

definition primes_below :: "nat \<Rightarrow> nat list" where
  "primes_below n = sieve [2..<n]"

definition root_fraction :: "nat \<Rightarrow> nat \<Rightarrow> u32" where
  "root_fraction k p = of_int \<lfloor>2 ^ 32 * frac (root k (real p))\<rfloor>"

definition fips_K :: "nat \<Rightarrow> u32" where
  "fips_K t = root_fraction 3 (primes_below 312 ! t)"

definition fips_H0 :: "nat \<Rightarrow> u32" where
  "fips_H0 i = root_fraction 2 (primes_below 312 ! i)"

definition fips_Sigma0 :: "u32 \<Rightarrow> u32" where
  "fips_Sigma0 x = word_rotr 2 x XOR word_rotr 13 x XOR word_rotr 22 x"

definition fips_Sigma1 :: "u32 \<Rightarrow> u32" where
  "fips_Sigma1 x = word_rotr 6 x XOR word_rotr 11 x XOR word_rotr 25 x"

definition fips_sigma0 :: "u32 \<Rightarrow> u32" where
  "fips_sigma0 x = word_rotr 7 x XOR word_rotr 18 x XOR drop_bit 3 x"

definition fips_sigma1 :: "u32 \<Rightarrow> u32" where
  "fips_sigma1 x = word_rotr 17 x XOR word_rotr 19 x XOR drop_bit 10 x"

definition fips_word :: "bytes \<Rightarrow> u32" where
  "fips_word bs = of_nat (foldl (\<lambda>n b. n * 256 + unat b) 0 bs)"

function fips_W :: "bytes \<Rightarrow> nat \<Rightarrow> u32" where
  "fips_W block t =
     (if t < 16 then fips_word (take 4 (drop (4 * t) block))
      else fips_sigma1 (fips_W block (t - 2)) + fips_W block (t - 7)
           + fips_sigma0 (fips_W block (t - 15)) + fips_W block (t - 16))"
  by pat_completeness auto
termination by (relation "measure snd") auto

declare fips_W.simps [simp del]

fun fips_rounds :: "bytes \<Rightarrow> nat \<Rightarrow> sha_regs \<Rightarrow> sha_regs" where
  "fips_rounds block 0 regs = regs"
| "fips_rounds block (Suc t) regs =
     (case fips_rounds block t regs of (a, b, c, d, e, f, g, h) \<Rightarrow>
        let t1 = h + fips_Sigma1 e + ((e AND f) XOR (NOT e AND g)) + fips_K t + fips_W block t;
            t2 = fips_Sigma0 a + ((a AND b) XOR (a AND c) XOR (b AND c))
        in (t1 + t2, a, b, c, d + t1, e, f, g))"

fun fips_compress :: "sha_regs \<Rightarrow> bytes \<Rightarrow> sha_regs" where
  "fips_compress (h0, h1, h2, h3, h4, h5, h6, h7) block =
     (case fips_rounds block 64 (h0, h1, h2, h3, h4, h5, h6, h7) of (a, b, c, d, e, f, g, h) \<Rightarrow>
        (h0 + a, h1 + b, h2 + c, h3 + d, h4 + e, h5 + f, h6 + g, h7 + h))"

definition fips_pad :: "bytes \<Rightarrow> bytes" where
  "fips_pad m = m @ [0x80] @ replicate ((119 - length m mod 64) mod 64) 0
     @ map (\<lambda>i. of_nat (8 * length m div 256 ^ (7 - i) mod 256)) [0..<8]"

fun blocks64 :: "bytes \<Rightarrow> bytes list" where
  "blocks64 m = (if length m < 64 then [] else take 64 m # blocks64 (drop 64 m))"

declare blocks64.simps [simp del]

definition fips_sha256 :: "bytes \<Rightarrow> sha_regs" where
  "fips_sha256 m =
     foldl fips_compress (fips_H0 0, fips_H0 1, fips_H0 2, fips_H0 3,
                          fips_H0 4, fips_H0 5, fips_H0 6, fips_H0 7) (blocks64 (fips_pad m))"

fun regs_list :: "sha_regs \<Rightarrow> u32 list" where
  "regs_list (a, b, c, d, e, f, g, h) = [a, b, c, d, e, f, g, h]"

definition fips_bytes :: "u32 \<Rightarrow> bytes" where
  "fips_bytes x = map (\<lambda>i. of_nat (unat x div 256 ^ (3 - i) mod 256)) [0..<4]"

definition fips_hex :: "bytes \<Rightarrow> string" where
  "fips_hex bs = concat (map (\<lambda>b. [''0123456789abcdef'' ! (unat b div 16),
                                   ''0123456789abcdef'' ! (unat b mod 16)]) bs)"

definition fips_sha256_hex :: "bytes \<Rightarrow> string" where
  "fips_sha256_hex m = fips_hex (concat (map fips_bytes (regs_list (fips_sha256 m))))"

section \<open>The constants of the source are those of the standard\<close>

text \<open>
  A 32-bit number \<open>c\<close> is the fraction of a \<open>k\<close>-th root when the power of \<open>n + c / 2 ^ 32\<close> is at most
  \<open>p\<close> and the next power is above it; that is a comparison of natural numbers.
\<close>

lemma primes_below_312:
  "primes_below 312 = [2, 3, 5, 7, 11, 13, 17, 19, 23, 29, 31, 37, 41, 43, 47, 53, 59, 61, 67, 71, 73, 79, 83, 89,
     97, 101, 103, 107, 109, 113, 127, 131, 137, 139, 149, 151, 157, 163, 167, 173, 179, 181, 191, 193, 197, 199,
     211, 223, 227, 229, 233, 239, 241, 251, 257, 263, 269, 271, 277, 281, 283, 293, 307, 311]"
  unfolding primes_below_def by simp

definition root_bracket :: "nat \<Rightarrow> nat \<Rightarrow> nat \<Rightarrow> nat \<Rightarrow> bool" where
  "root_bracket k p n c \<longleftrightarrow> c < 2 ^ 32 \<and> (n * 2 ^ 32 + c) ^ k \<le> p * 2 ^ (32 * k) \<and> p * 2 ^ (32 * k) < (n * 2 ^ 32 + c + 1) ^ k"

lemma root_fraction_bracket:
  assumes "0 < k" and "root_bracket k p n c"
  shows "root_fraction k p = of_nat c"
proof -
  let ?r = "root k (real p)"
  have r: "0 \<le> ?r" "?r ^ k = real p" using assms(1) by simp_all
  have lo: "real (n * 2 ^ 32 + c) \<le> ?r * 2 ^ 32"
  proof (rule power_le_imp_le_base [where n = "k - 1"])
    have "real ((n * 2 ^ 32 + c) ^ k) \<le> real (p * 2 ^ (32 * k))"
      using assms(2) unfolding root_bracket_def of_nat_le_iff by blast
    then show "real (n * 2 ^ 32 + c) ^ Suc (k - 1) \<le> (?r * 2 ^ 32) ^ Suc (k - 1)"
      using assms(1) r by (simp add: power_mult_distrib power_mult)
  qed (use r in simp)
  have hi: "?r * 2 ^ 32 < real (n * 2 ^ 32 + c + 1)"
  proof (rule power_less_imp_less_base [where n = k])
    have "real (p * 2 ^ (32 * k)) < real ((n * 2 ^ 32 + c + 1) ^ k)"
      using assms(2) unfolding root_bracket_def of_nat_less_iff by blast
    then show "(?r * 2 ^ 32) ^ k < real (n * 2 ^ 32 + c + 1) ^ k"
      using r by (simp add: power_mult_distrib power_mult)
  qed simp
  have c: "c + 1 \<le> 2 ^ 32" using assms(2) by (simp add: root_bracket_def)
  then have "real (c + 1) \<le> real (2 ^ 32)" unfolding of_nat_le_iff .
  then have "\<lfloor>?r\<rfloor> = int n"
    using lo hi by (intro floor_unique) simp_all
  then have "\<lfloor>2 ^ 32 * frac ?r\<rfloor> = int c"
    using lo hi by (intro floor_unique) (simp_all add: frac_def algebra_simps)
  then show ?thesis by (simp add: root_fraction_def)
qed

definition roots_bracketed :: "nat \<Rightarrow> nat list \<Rightarrow> u32 list \<Rightarrow> bool" where
  "roots_bracketed k ps cs \<longleftrightarrow> list_all2 (\<lambda>p c. root_bracket k p (length (filter (\<lambda>m. m ^ k \<le> p) [1, 2, 3, 4, 5, 6])) (unat c)) ps cs"

lemma roots_bracketed_eq:
  assumes "0 < k" and "roots_bracketed k ps cs"
  shows "cs = map (root_fraction k) ps"
  using assms(2) unfolding roots_bracketed_def
  by (induction rule: list_all2_induct) (auto dest: root_fraction_bracket [OF assms(1)])

lemma roots_bracketed_table:
  "roots_bracketed 3 (primes_below 312) kRoundConstants"
  "roots_bracketed 2 (take 8 (primes_below 312)) (sha_state Sha256_new)"
  by (simp_all add: roots_bracketed_def primes_below_312 kRoundConstants_def Sha256_new_def root_bracket_def)

lemma length_primes_below_312: "length (primes_below 312) = 64"
  by (simp add: primes_below_312)

lemma kRoundConstants_fips: "t < 64 \<Longrightarrow> kRoundConstants ! t = fips_K t"
  by (subst roots_bracketed_eq [OF _ roots_bracketed_table(1)]) (simp_all add: fips_K_def length_primes_below_312)

lemma sha_state_fips: "sha_state Sha256_new = map fips_H0 [0..<8]"
proof (rule nth_equalityI)
  show "length (sha_state Sha256_new) = length (map fips_H0 [0..<8])" by (simp add: Sha256_new_def)
  fix i assume "i < length (sha_state Sha256_new)"
  then have "i < 8" by (simp add: Sha256_new_def)
  then show "sha_state Sha256_new ! i = map fips_H0 [0..<8] ! i"
    using roots_bracketed_eq [OF _ roots_bracketed_table(2)] by (simp add: fips_H0_def length_primes_below_312)
qed

section \<open>The compression function computes the reference\<close>

lemma rotr_word_rotr: "0 < n \<Longrightarrow> n < 32 \<Longrightarrow> rotr x n = word_rotr n x"
  by (rule bit_word_eqI)
    (auto simp: rotr_def bit_or_iff bit_drop_bit_eq bit_push_bit_iff bit_word_rotr_iff mod_if
      add.commute [of n] dest: bit_imp_le_length)

lemmas fips_sigma_defs = sig0_def sig1_def ep0_def ep1_def
  fips_Sigma0_def fips_Sigma1_def fips_sigma0_def fips_sigma1_def

lemma sigma_eqs:
  "sig0 x = fips_Sigma0 x" "sig1 x = fips_Sigma1 x" "ep0 x = fips_sigma0 x" "ep1 x = fips_sigma1 x"
  by (simp_all add: fips_sigma_defs rotr_word_rotr)


lemma horner_step: "push_bit 8 (a :: u32) OR ucast (b :: u8) = a * 256 + ucast b"
proof -
  have "push_bit 8 a + ucast b = push_bit 8 a OR ucast b"
    by (rule disjunctive_add) (auto simp: bit_push_bit_iff bit_ucast_iff dest: bit_imp_le_length)
  then show ?thesis by (simp add: push_bit_eq_mult)
qed

lemma word_be_horner:
  "word_be block i =
     push_bit 8 (push_bit 8 (push_bit 8 (ucast (block ! (i * 4))) OR ucast (block ! (i * 4 + 1)))
       OR ucast (block ! (i * 4 + 2))) OR ucast (block ! (i * 4 + 3))"
  by (simp add: word_be_def push_bit_or or.assoc)

lemma take_4_drop:
  assumes "i * 4 + 3 < length xs"
  shows "take 4 (drop (4 * i) xs) = [xs ! (i * 4), xs ! (i * 4 + 1), xs ! (i * 4 + 2), xs ! (i * 4 + 3)]"
proof (rule nth_equalityI)
  fix j assume "j < length (take 4 (drop (4 * i) xs))"
  then have "j < 4" by simp
  then have "j = 0 \<or> j = 1 \<or> j = 2 \<or> j = 3" by auto
  then show "take 4 (drop (4 * i) xs) ! j =
      [xs ! (i * 4), xs ! (i * 4 + 1), xs ! (i * 4 + 2), xs ! (i * 4 + 3)] ! j"
    using assms by (auto simp: mult.commute)
qed (use assms in simp)

lemma word_be_fips:
  assumes "length block = 64" and "i < 16"
  shows "word_be block i = fips_word (take 4 (drop (4 * i) block))"
proof -
  have "i * 4 + 3 < length block" using assms by simp
  then show ?thesis
    by (simp add: take_4_drop fips_word_def word_be_horner horner_step)
qed

lemma schedule_prefix:
  assumes "length block = 64"
  shows "foldl schedule_step (map (word_be block) [0..<16]) [16..<16 + n] = map (fips_W block) [0..<16 + n]"
proof (induction n)
  case 0
  have "map (word_be block) [0..<16] = map (fips_W block) [0..<16]"
    using assms by (auto simp: word_be_fips fips_W.simps)
  then show ?case by simp
next
  case (Suc n)
  have up: "[16..<16 + Suc n] = [16..<16 + n] @ [16 + n]" "[0..<16 + Suc n] = [0..<16 + n] @ [16 + n]"
    by (simp_all only: add_Suc_right upt_Suc_append le_add1 le0)
  show ?case
    unfolding up foldl_append Suc
    by (simp add: schedule_step_def sigma_eqs fips_W.simps [of block "16 + n"])
qed

lemma schedule_fips: "length block = 64 \<Longrightarrow> schedule block = map (fips_W block) [0..<64]"
  using schedule_prefix [of block 48] by (simp add: schedule_def)

lemma length_kRoundConstants: "length kRoundConstants = 64"
  by (simp add: kRoundConstants_def)

lemma sha_round_fips:
  assumes "length ws = 64" and "n \<le> 64" and "\<And>t. t < 64 \<Longrightarrow> ws ! t = fips_W block t"
  shows "foldl sha_round regs (take n (zip kRoundConstants ws)) = fips_rounds block n regs"
  using assms(2)
proof (induction n)
  case (Suc n)
  have "take (Suc n) (zip kRoundConstants ws) =
      take n (zip kRoundConstants ws) @ [(kRoundConstants ! n, ws ! n)]"
    using Suc.prems assms(1) by (simp add: take_Suc_conv_app_nth length_kRoundConstants)
  then show ?case
    using Suc assms(3) by (simp add: ch_def maj_def sigma_eqs kRoundConstants_fips Let_def split: prod.splits)
qed simp

lemma transform_fips:
  assumes "length block = 64"
  shows "transform (regs_list regs) block = regs_list (fips_compress regs block)"
proof -
  obtain a b c d e f g h where r: "regs = (a, b, c, d, e, f, g, h)"
    by (cases regs) auto
  have "foldl sha_round regs (take 64 (zip kRoundConstants (schedule block))) = fips_rounds block 64 regs"
    by (rule sha_round_fips) (simp_all add: schedule_fips assms)
  then have "foldl sha_round regs (zip kRoundConstants (schedule block)) = fips_rounds block 64 regs"
    by (simp add: length_kRoundConstants schedule_fips assms)
  then show ?thesis
    by (simp add: transform_def r split: prod.splits)
qed


section \<open>The buffered context absorbs whole blocks\<close>

function absorb :: "u32 list \<Rightarrow> bytes \<Rightarrow> u32 list \<times> bytes" where
  "absorb st m =
     (if length m < 64 then (st, m) else absorb (transform st (take 64 m)) (drop 64 m))"
  by pat_completeness auto
termination by (relation "measure (length \<circ> snd)") auto

declare absorb.simps [simp del]

lemma absorb_short: "length m < 64 \<Longrightarrow> absorb st m = (st, m)"
  by (simp add: absorb.simps)

lemma absorb_full: "length b = 64 \<Longrightarrow> absorb st (b @ m) = absorb (transform st b) m"
  by (simp add: absorb.simps [of st "b @ m"])

lemma absorb_tail_short: "length (snd (absorb st m)) < 64"
proof (induction st m rule: absorb.induct)
  case (1 st m)
  then show ?case by (cases "length m < 64") (simp_all add: absorb.simps [of st m])
qed

definition ctx_rep :: "sha_ctx \<Rightarrow> u32 list \<times> bytes \<Rightarrow> bool" where
  "ctx_rep ctx r \<longleftrightarrow>
     sha_state ctx = fst r \<and> length (sha_buffer ctx) = 64 \<and> length (snd r) < 64 \<and>
     sha_buffer_len ctx = length (snd r) \<and> take (length (snd r)) (sha_buffer ctx) = snd r"

lemma ctx_rep_new: "ctx_rep Sha256_new (sha_state Sha256_new, [])"
  by (simp add: ctx_rep_def Sha256_new_def)

lemma update_byte_rep:
  assumes "ctx_rep ctx (st, t)"
  shows "ctx_rep (update_byte ctx b) (absorb st (t @ [b]))"
proof -
  let ?buf = "(sha_buffer ctx)[length t := b]"
  have len: "length t < 64" "sha_buffer_len ctx = length t" "length (sha_buffer ctx) = 64"
    and st: "sha_state ctx = st" and tk: "take (length t) (sha_buffer ctx) = t"
    using assms by (auto simp: ctx_rep_def)
  have buf: "take (Suc (length t)) ?buf = t @ [b]"
    using len tk by (simp add: take_Suc_conv_app_nth)
  show ?thesis
  proof (cases "Suc (length t) = 64")
    case True
    then have "?buf = t @ [b]"
      using buf len by simp
    moreover have "absorb st (t @ [b]) = (transform st (t @ [b]), [])"
      using True absorb_full [of "t @ [b]" st "[]"] by (simp add: absorb_short)
    ultimately show ?thesis
      using len st True by (simp add: ctx_rep_def update_byte_def Let_def)
  next
    case False
    then show ?thesis
      using len st buf by (simp add: ctx_rep_def update_byte_def Let_def absorb_short)
  qed
qed

lemma absorb_split:
  assumes "length t < 64"
  shows "absorb st (t @ b # xs) = (case absorb st (t @ [b]) of (st', t') \<Rightarrow> absorb st' (t' @ xs))"
proof (cases "Suc (length t) = 64")
  case True
  then show ?thesis
    using absorb_full [of "t @ [b]" st xs] absorb_full [of "t @ [b]" st "[]"]
    by (simp add: absorb_short)
next
  case False
  with assms show ?thesis by (simp add: absorb_short)
qed

lemma update_loop_rep:
  "ctx_rep ctx (st, t) \<Longrightarrow> ctx_rep (update_loop ctx xs) (absorb st (t @ xs))"
proof (induction xs arbitrary: ctx st t)
  case Nil
  then show ?case by (simp add: update_loop_def ctx_rep_def absorb_short)
next
  case (Cons b xs)
  obtain st' t' where s: "absorb st (t @ [b]) = (st', t')"
    by fastforce
  have "ctx_rep (update_byte ctx b) (st', t')"
    using update_byte_rep [OF Cons.prems, of b] s by simp
  then have "ctx_rep (update_loop (update_byte ctx b) xs) (absorb st' (t' @ xs))"
    by (rule Cons.IH)
  moreover have "length t < 64" using Cons.prems by (simp add: ctx_rep_def)
  ultimately show ?case
    using absorb_split [of t st b xs] s by (simp add: update_loop_def)
qed

lemma update_byte_frame [simp]:
  "sha_total_bytes (update_byte ctx b) = sha_total_bytes ctx + 1"
  "sha_finalized (update_byte ctx b) = sha_finalized ctx"
  by (simp_all add: update_byte_def Let_def)

lemma update_loop_frame:
  "sha_total_bytes (update_loop ctx xs) = sha_total_bytes ctx + of_nat (length xs)"
  "sha_finalized (update_loop ctx xs) = sha_finalized ctx"
  by (induction xs arbitrary: ctx) (simp_all add: update_loop_def add.assoc add.commute)

lemma update_loop_append: "update_loop ctx (xs @ ys) = update_loop (update_loop ctx xs) ys"
  by (simp add: update_loop_def)

section \<open>Padding\<close>

lemma update_byte_len:
  "sha_buffer_len ctx < 64 \<Longrightarrow>
   sha_buffer_len (update_byte ctx b) = (if sha_buffer_len ctx = 63 then 0 else sha_buffer_len ctx + 1)"
  by (simp add: update_byte_def Let_def)

lemma pad_loop_zeros:
  "sha_buffer_len ctx < 64 \<Longrightarrow>
   pad_loop ctx = update_loop ctx (replicate ((120 - sha_buffer_len ctx) mod 64) 0)"
proof (induction ctx rule: pad_loop.induct)
  case (1 ctx)
  show ?case
  proof (cases "sha_buffer_len ctx = 56")
    case True
    then show ?thesis by (simp add: pad_loop.simps [of ctx] update_loop_def)
  next
    case False
    let ?n = "sha_buffer_len ctx" and ?c = "update_byte ctx 0"
    have c: "sha_buffer_len ?c < 64"
      using "1.prems" by (simp add: update_byte_len)
    have "(120 - ?n) mod 64 = Suc ((120 - sha_buffer_len ?c) mod 64)"
    proof (cases "?n < 56")
      case True
      then have "(120 - ?n) mod 64 = 56 - ?n" "(120 - (?n + 1)) mod 64 = 55 - ?n"
        by (simp_all add: mod_if)
      with True show ?thesis by (simp add: update_byte_len)
    next
      case False
      with \<open>?n \<noteq> 56\<close> "1.prems" show ?thesis by (auto simp: update_byte_len mod_if)
    qed
    then have "replicate ((120 - ?n) mod 64) (0 :: u8)
        = 0 # replicate ((120 - sha_buffer_len ?c) mod 64) 0" by simp
    moreover have "pad_loop ctx = pad_loop ?c"
      using False "1.prems" by (simp add: pad_loop.simps [of ctx])
    ultimately show ?thesis
      using "1.IH" c False "1.prems" by (simp add: update_loop_def)
  qed
qed


lemma absorb_blocks: "fst (absorb st m) = foldl transform st (blocks64 m)"
proof (induction st m rule: absorb.induct)
  case (1 st m)
  then show ?case
    by (cases "length m < 64") (simp_all add: absorb.simps [of st m] blocks64.simps [of m])
qed

lemma absorb_tail_length: "length (snd (absorb st m)) = length m mod 64"
proof (induction st m rule: absorb.induct)
  case (1 st m)
  then show ?case
    by (cases "length m < 64") (simp_all add: absorb.simps [of st m] le_mod_geq)
qed

lemma blocks64_length: "b \<in> set (blocks64 m) \<Longrightarrow> length b = 64"
proof (induction m rule: blocks64.induct)
  case (1 m)
  then show ?case by (subst (asm) blocks64.simps) (auto split: if_splits)
qed

lemma foldl_transform_fips:
  "\<forall>b\<in>set bs. length b = 64 \<Longrightarrow>
   foldl transform (regs_list regs) bs = regs_list (foldl fips_compress regs bs)"
  by (induction bs arbitrary: regs) (simp_all add: transform_fips)

lemma byte_of_word:
  assumes "8 * k + 8 \<le> LENGTH('a)"
  shows "(ucast (drop_bit (8 * k) (of_nat m :: 'a::len word) AND 0xFF) :: u8) = of_nat (m div 256 ^ k mod 256)"
proof -
  have mask: "(0xFF :: 'a word) = mask 8"
    by (simp add: mask_eq_exp_minus_1)
  have "m div 256 ^ k mod 256 = take_bit 8 (drop_bit (8 * k) m)"
    by (simp add: take_bit_eq_mod drop_bit_eq_div power_mult)
  then show ?thesis
    using assms unfolding mask
    by (intro bit_word_eqI) (auto simp: bit_simps)
qed

lemma length_bytes_of_nat:
  "length_bytes (of_nat m) = map (\<lambda>i. of_nat (m div 256 ^ (7 - i) mod 256)) [0..<8]"
  using byte_of_word [where 'a = 64 and m = m and k = 7] byte_of_word [where 'a = 64 and m = m and k = 6]
    byte_of_word [where 'a = 64 and m = m and k = 5] byte_of_word [where 'a = 64 and m = m and k = 4]
    byte_of_word [where 'a = 64 and m = m and k = 3] byte_of_word [where 'a = 64 and m = m and k = 2]
    byte_of_word [where 'a = 64 and m = m and k = 1] byte_of_word [where 'a = 64 and m = m and k = 0]
  by (simp add: length_bytes_def upt_rec)

lemma length_bytes_fips:
  "length_bytes (of_nat n * 8) = map (\<lambda>i. of_nat (8 * n div 256 ^ (7 - i) mod 256)) [0..<8]"
  using length_bytes_of_nat [of "8 * n"] by (simp only: of_nat_mult of_nat_numeral mult.commute)

lemma word_bytes_fips: "word_bytes x = fips_bytes x"
  using byte_of_word [where 'a = 32 and m = "unat x" and k = 3]
    byte_of_word [where 'a = 32 and m = "unat x" and k = 2]
    byte_of_word [where 'a = 32 and m = "unat x" and k = 1]
    byte_of_word [where 'a = 32 and m = "unat x" and k = 0]
  by (simp add: word_bytes_def fips_bytes_def upt_rec)

lemma bytesToHex_fips: "bytesToHex bs = fips_hex bs"
proof -
  have "unat (drop_bit 4 b) = unat b div 16" "unat (b AND 15) = unat b mod 16" for b :: u8
  proof -
    show "unat (drop_bit 4 b) = unat b div 16"
      by (simp add: drop_bit_eq_div unat_div)
    have "b AND 15 = take_bit 4 b"
      by (simp add: take_bit_eq_mask mask_eq_exp_minus_1)
    then show "unat (b AND 15) = unat b mod 16"
      by (simp add: take_bit_eq_mod unat_mod)
  qed
  then show ?thesis by (simp add: bytesToHex_def fips_hex_def hexDigit_def)
qed


section \<open>The digest of a context\<close>

definition sha_absorbed :: "sha_ctx \<Rightarrow> bytes \<Rightarrow> bool" where
  "sha_absorbed ctx m \<longleftrightarrow> ctx = update_loop Sha256_new m"

lemma sha_absorbed_rep:
  assumes "sha_absorbed ctx m"
  shows "ctx_rep ctx (absorb (sha_state Sha256_new) m)" "sha_total_bytes ctx = of_nat (length m)"
    "\<not> sha_finalized ctx" "sha_buffer_len ctx = length m mod 64"
proof -
  show rep: "ctx_rep ctx (absorb (sha_state Sha256_new) m)"
    using assms update_loop_rep [OF ctx_rep_new, of m] by (simp add: sha_absorbed_def)
  show "sha_total_bytes ctx = of_nat (length m)" "\<not> sha_finalized ctx"
    using assms by (simp_all add: sha_absorbed_def update_loop_frame) (simp_all add: Sha256_new_def)
  show "sha_buffer_len ctx = length m mod 64"
    using rep by (simp add: ctx_rep_def absorb_tail_length)
qed

lemma padded_context:
  assumes "sha_absorbed ctx m"
  shows "update_loop (pad_loop (update_byte ctx 0x80)) (length_bytes (sha_total_bytes ctx * 8))
         = update_loop Sha256_new (fips_pad m)"
proof -
  have one: "update_byte ctx 0x80 = update_loop Sha256_new (m @ [0x80])"
    using assms by (simp add: sha_absorbed_def update_loop_def)
  then have a: "sha_absorbed (update_byte ctx 0x80) (m @ [0x80])"
    by (simp add: sha_absorbed_def)
  have len: "sha_buffer_len (update_byte ctx 0x80) = Suc (length m) mod 64"
    using sha_absorbed_rep(4) [OF a] by simp
  have "(120 - Suc (length m) mod 64) mod 64 = (119 - length m mod 64) mod 64"
    by (simp add: mod_Suc)
  then have "pad_loop (update_byte ctx 0x80)
      = update_loop (update_byte ctx 0x80) (replicate ((119 - length m mod 64) mod 64) 0)"
    using len by (simp add: pad_loop_zeros)
  then show ?thesis
    by (simp add: one fips_pad_def update_loop_append [symmetric] length_bytes_fips
        sha_absorbed_rep(2) [OF assms])
qed

lemma padAndFinalize_fips:
  assumes "sha_absorbed ctx m"
  shows "bytesToHex (snd (padAndFinalize ctx)) = fips_sha256_hex m"
proof -
  let ?c = "update_loop Sha256_new (fips_pad m)"
  let ?init = "(fips_H0 0, fips_H0 1, fips_H0 2, fips_H0 3, fips_H0 4, fips_H0 5, fips_H0 6, fips_H0 7)"
  have "sha_state ?c = fst (absorb (sha_state Sha256_new) (fips_pad m))"
    using update_loop_rep [OF ctx_rep_new, of "fips_pad m"] by (simp add: ctx_rep_def)
  also have "\<dots> = foldl transform (regs_list ?init) (blocks64 (fips_pad m))"
    by (simp add: absorb_blocks sha_state_fips upt_rec eval_nat_numeral)
  also have "\<dots> = regs_list (fips_sha256 m)"
    using foldl_transform_fips [of "blocks64 (fips_pad m)" ?init] blocks64_length
    by (simp add: fips_sha256_def)
  finally have st: "sha_state ?c = regs_list (fips_sha256 m)" .
  have "map (\<lambda>i. word_bytes (sha_state ?c ! i)) [0..<8] = map fips_bytes (regs_list (fips_sha256 m))"
    unfolding st by (cases "fips_sha256 m" rule: regs_list.cases) (simp add: upt_rec word_bytes_fips)
  then show ?thesis
    using padded_context [OF assms]
    by (simp add: padAndFinalize_def Let_def bytesToHex_fips fips_sha256_hex_def)
qed

lemma finalizeHex_fips:
  "sha_absorbed ctx m \<Longrightarrow> \<exists>ctx'. finalizeHex ctx = Inr (ctx', fips_sha256_hex m) \<and> sha_finalized ctx'"
  using padAndFinalize_fips [of ctx m] sha_absorbed_rep(3) [of ctx m]
  by (auto simp: finalizeHex_def split: prod.split)

lemma clone_id [simp]: "clone ctx = ctx"
  by (simp add: clone_def)


section \<open>The contract of an incremental hash\<close>

text \<open>
  What a client of the class relies on: a fresh context has absorbed nothing, \<open>update\<close> extends
  what was absorbed, a copy has absorbed the same bytes, and \<open>finalizeHex\<close> returns the digest of
  what was absorbed and closes the context.
\<close>

locale incremental_hash =
  fixes new :: "'c"
    and upd :: "'c \<Rightarrow> bytes \<Rightarrow> 'e + 'c"
    and copy :: "'c \<Rightarrow> 'c"
    and fin :: "'c \<Rightarrow> 'e + ('c \<times> string)"
    and digest :: "bytes \<Rightarrow> string"
    and absorbed :: "'c \<Rightarrow> bytes \<Rightarrow> bool"
    and closed_err :: "'e"
    and is_closed :: "'c \<Rightarrow> bool"
  assumes new_absorbed: "absorbed new []"
    and upd_absorbed: "absorbed c m \<Longrightarrow> \<exists>c'. upd c xs = Inr c' \<and> absorbed c' (m @ xs)"
    and copy_absorbed: "absorbed c m \<Longrightarrow> absorbed (copy c) m"
    and fin_digest: "absorbed c m \<Longrightarrow> \<exists>c'. fin c = Inr (c', digest m) \<and> is_closed c'"
    and closed_upd: "is_closed c \<Longrightarrow> upd c xs = Inl closed_err"
    and closed_fin: "is_closed c \<Longrightarrow> fin c = Inl closed_err"
begin

fun feed :: "'c \<Rightarrow> bytes list \<Rightarrow> 'e + 'c" where
  "feed c [] = Inr c"
| "feed c (xs # xss) = (case upd c xs of Inl e \<Rightarrow> Inl e | Inr c' \<Rightarrow> feed c' xss)"

lemma feed_absorbed:
  "absorbed c m \<Longrightarrow> \<exists>c'. feed c xss = Inr c' \<and> absorbed c' (m @ concat xss)"
proof (induction xss arbitrary: c m)
  case (Cons xs xss)
  obtain c' where "upd c xs = Inr c'" "absorbed c' (m @ xs)"
    using upd_absorbed [OF Cons.prems] by blast
  with Cons.IH [of c' "m @ xs"] show ?case by simp
qed simp

lemma feed_digest: "\<exists>c c'. feed new xss = Inr c \<and> fin c = Inr (c', digest (concat xss))"
  using feed_absorbed [OF new_absorbed, of xss] fin_digest by fastforce

lemma copy_digest:
  assumes "feed new xss = Inr c"
  shows "\<exists>c1 c2 c3. fin (copy c) = Inr (c1, digest (concat xss)) \<and> feed c yss = Inr c2
           \<and> fin c2 = Inr (c3, digest (concat xss @ concat yss))"
proof -
  have c: "absorbed c (concat xss)"
    using feed_absorbed [OF new_absorbed, of xss] assms by simp
  show ?thesis
    using fin_digest [OF copy_absorbed [OF c]] feed_absorbed [OF c, of yss] fin_digest by blast
qed

lemma fin_closes: "absorbed c m \<Longrightarrow> fin c = Inr (c', d) \<Longrightarrow> upd c' xs = Inl closed_err \<and> fin c' = Inl closed_err"
  using fin_digest [of c m] closed_upd closed_fin by auto

end

interpretation sha: incremental_hash Sha256_new sha_update clone finalizeHex fips_sha256_hex
  sha_absorbed AlreadyFinalized sha_finalized
proof unfold_locales
  show "sha_absorbed Sha256_new []"
    by (simp add: sha_absorbed_def update_loop_def)
  show "\<exists>c'. sha_update c xs = Inr c' \<and> sha_absorbed c' (m @ xs)" if "sha_absorbed c m" for c m xs
    using that sha_absorbed_rep(3) [OF that]
    by (simp add: sha_update_def sha_absorbed_def update_loop_append)
  show "sha_absorbed (clone c) m" if "sha_absorbed c m" for c m
    using that by simp
  show "\<exists>c'. finalizeHex c = Inr (c', fips_sha256_hex m) \<and> sha_finalized c'" if "sha_absorbed c m" for c m
    using that by (rule finalizeHex_fips)
qed (simp_all add: sha_update_def finalizeHex_def)

fun sha_feed :: "sha_ctx \<Rightarrow> bytes list \<Rightarrow> sha_error + sha_ctx" where
  "sha_feed c [] = Inr c"
| "sha_feed c (xs # xss) = (case sha_update c xs of Inl e \<Rightarrow> Inl e | Inr c' \<Rightarrow> sha_feed c' xss)"

lemma sha_feed_eq: "sha_feed c xss = sha.feed c xss"
  by (induction xss arbitrary: c) (simp_all split: sum.split)

text \<open>
  (C14) The one-shot digest is SHA-256: for every byte string, \<open>hashHex\<close> returns (it never throws) the
  lower-case hexadecimal digest of the FIPS 180-4 definition: its padding, message schedule recurrence
  and 64 rounds, with the round constants and the initial hash value taken from the fractional parts of
  the cube and square roots of the first primes.
\<close>

theorem hashHex_is_sha256: "hashHex data = Inr (fips_sha256_hex data)"
  using sha.upd_absorbed [OF sha.new_absorbed, of data] sha.fin_digest
  by (fastforce simp: hashHex_def)

text \<open>
  Streaming with a checkpoint: after any sequence of \<open>update\<close> calls, finalizing a \<open>clone\<close> gives
  the digest of the bytes so far, the original context accepts further updates, and its digest is
  that of all bytes; after \<open>finalizeHex\<close> both operations fail with the finalized error.
\<close>

theorem sha_checkpoint:
  "\<exists>c c1 c2 c3. sha_feed Sha256_new xss = Inr c
     \<and> finalizeHex (clone c) = Inr (c1, fips_sha256_hex (concat xss))
     \<and> sha_feed c yss = Inr c2
     \<and> finalizeHex c2 = Inr (c3, fips_sha256_hex (concat xss @ concat yss))
     \<and> sha_update c3 zs = Inl AlreadyFinalized \<and> finalizeHex c3 = Inl AlreadyFinalized"
proof -
  obtain c where c: "sha.feed Sha256_new xss = Inr c" "sha_absorbed c (concat xss)"
    using sha.feed_absorbed [OF sha.new_absorbed, of xss] by auto
  obtain c2 where c2: "sha.feed c yss = Inr c2" "sha_absorbed c2 (concat xss @ concat yss)"
    using sha.feed_absorbed [OF c(2), of yss] by auto
  obtain c1 where c1: "finalizeHex (clone c) = Inr (c1, fips_sha256_hex (concat xss))"
    using sha.copy_digest [OF c(1), of "[]"] by blast
  obtain c3 where c3: "finalizeHex c2 = Inr (c3, fips_sha256_hex (concat xss @ concat yss))"
    using sha.fin_digest [OF c2(2)] by blast
  show ?thesis
    using c(1) c1 c2(1) c3 sha.fin_closes [OF c2(2) c3] by (auto simp: sha_feed_eq)
qed

end
