(* ===== verification/StreamDownloadSession.thy ===== *)
theory StreamDownloadSession
  imports DownloaderState ReceivedRanges ChunkCoverageTracker Sha256
begin

text \<open>
  \<^verbatim>\<open>StreamDownloadSession\<close>: the download of a byte window of one log. The members of the class and the
  locals of \<open>run\<close> are the records \<open>Params\<close>, \<open>session\<close> and \<open>run_state\<close>; the loops of \<open>run\<close> are
  \<open>process_loop\<close> (chunks of one drain), \<open>stream_loop\<close> (polling of one attempt) and \<open>attempt_loop\<close>
  (attempts). Log lines and the benchmark output are left out. The operating system enters as the
  parameter \<open>disk\<close>: \<open>disk ofs n\<close> says whether a write of \<open>n\<close> bytes at \<open>ofs\<close> succeeds.
\<close>

section \<open>Model\<close>

record Params =
  p_log_id :: u16
  p_byte_offset :: u32
  p_byte_count :: u32
  p_probe_bytes :: int
  p_write_file :: bool

record StreamDownloadResult =
  res_success :: bool
  res_failure :: ArchiveFailureReason
  res_metrics :: StreamDownloadMetrics
  res_ranges :: ranges
  res_sha256 :: string
  res_probe_sha256 :: string
  res_probe_bytes :: int

text \<open>
  An output stream: its bytes and its bad bit. Once the bad bit is set, \<^verbatim>\<open>seekp\<close> and \<^verbatim>\<open>write\<close> do
  nothing. A write past the end fills the hole with zeros.
\<close>

record ofile =
  of_data :: bytes
  of_bad :: bool

type_synonym disk = "nat \<Rightarrow> nat \<Rightarrow> bool"

definition write_at :: "bytes \<Rightarrow> nat \<Rightarrow> bytes \<Rightarrow> bytes" where
  "write_at f ofs d =
     take ofs f @ replicate (ofs - length f) 0 @ d @ drop (ofs + length d) f"

definition ofile_write :: "disk \<Rightarrow> nat \<Rightarrow> bytes \<Rightarrow> ofile \<Rightarrow> ofile" where
  "ofile_write disk ofs d f =
     (if of_bad f then f
      else if disk ofs (length d) then f\<lparr>of_data := write_at (of_data f) ofs d\<rparr>
      else f\<lparr>of_bad := True\<rparr>)"

record session =
  s_file :: ofile
  s_ranges :: ranges
  s_coverage :: coverage
  s_hasher :: sha_ctx
  s_probe_finalized :: bool
  s_hashed_bytes :: u32
  s_probe_sha256 :: string
  s_saw_short_eof :: bool
  s_metrics :: StreamDownloadMetrics

text \<open>
  The hasher of a session is not finalized before \<open>run\<close> returns, so that its \<open>update\<close> and
  \<open>finalizeHex\<close> do not throw; the two readers below give the value of a call that did not throw.
\<close>

definition hash_update :: "sha_ctx \<Rightarrow> bytes \<Rightarrow> sha_ctx" where
  "hash_update h xs = (case sha_update h xs of Inl _ \<Rightarrow> h | Inr h' \<Rightarrow> h')"

definition hash_hex :: "sha_ctx \<Rightarrow> string" where
  "hash_hex h = (case finalizeHex h of Inl _ \<Rightarrow> [] | Inr (_, hex) \<Rightarrow> hex)"

definition empty_hash :: string where
  "empty_hash = (case hashHex [] of Inl _ \<Rightarrow> [] | Inr hex \<Rightarrow> hex)"

definition probe_count :: "int \<Rightarrow> u32 \<Rightarrow> u32" where
  "probe_count pb n = of_int (min pb (sint n))"

text \<open>Hashing of one accepted piece, with the probe checkpoint.\<close>

definition hash_piece :: "u32 \<Rightarrow> bytes \<Rightarrow> u32 \<Rightarrow> session \<Rightarrow> session" where
  "hash_piece probe_n data write_len s =
     (if \<not> s_probe_finalized s \<and> probe_n \<le> s_hashed_bytes s + write_len then
        let probe_take = probe_n - s_hashed_bytes s;
            h = (if 0 < probe_take then hash_update (s_hasher s) (take (unat probe_take) data)
                 else s_hasher s);
            probe = hash_hex (clone h);
            h = (if probe_take < write_len
                 then hash_update h (take (unat (write_len - probe_take)) (drop (unat probe_take) data))
                 else h)
        in s\<lparr>s_hasher := h, s_probe_sha256 := probe, s_probe_finalized := True,
             s_hashed_bytes := s_hashed_bytes s + write_len\<rparr>
      else s\<lparr>s_hasher := hash_update (s_hasher s) (take (unat write_len) data),
             s_hashed_bytes := s_hashed_bytes s + write_len\<rparr>)"

text \<open>The body of the chunk loop of \<open>processQueuedChunks\<close>: the flag is false on a conflict.\<close>

definition clipped_len :: "Params \<Rightarrow> LogDataChunk \<Rightarrow> u32" where
  "clipped_len p c =
     (if p_byte_offset p + p_byte_count p < lc_offset c + lc_count c
      then p_byte_offset p + p_byte_count p - lc_offset c else lc_count c)"

definition skipped_chunk :: "Params \<Rightarrow> LogDataChunk \<Rightarrow> bool" where
  "skipped_chunk p c \<longleftrightarrow>
     lc_offset c < p_byte_offset p \<or> p_byte_offset p + p_byte_count p \<le> lc_offset c"

definition process_chunk ::
  "Params \<Rightarrow> bool \<Rightarrow> disk \<Rightarrow> LogDataChunk \<Rightarrow> session \<Rightarrow> bool \<times> session" where
  "process_chunk p detect disk c s =
     (let s = s\<lparr>s_metrics := (s_metrics s)\<lparr>log_data_packets := log_data_packets (s_metrics s) + 1\<rparr>\<rparr>;
          write_ofs = lc_offset c;
          write_len = clipped_len p c
      in if skipped_chunk p c \<or> write_len = 0 then (True, s) else
      let slots_before = slots_received (s_coverage s);
          s = (if p_write_file p
               then s\<lparr>s_file := ofile_write disk (unat write_ofs) (take (unat write_len) (lc_data c)) (s_file s)\<rparr>
               else s);
          (ok, cov) = coverage_record (s_coverage s) write_ofs (Some (lc_data c)) write_len detect;
          s = s\<lparr>s_coverage := cov\<rparr>
      in if \<not> ok then (False, s) else
      let s = (if slots_received cov = slots_before \<and> write_ofs mod kLogChunkSize = 0
               then s\<lparr>s_metrics := (s_metrics s)\<lparr>duplicate_packets := duplicate_packets (s_metrics s) + 1\<rparr>\<rparr>
               else s);
          s = hash_piece (probe_count (p_probe_bytes p) (p_byte_count p)) (lc_data c) write_len s;
          s = s\<lparr>s_ranges := ranges_add (s_ranges s) write_ofs write_len\<rparr>;
          s = (if write_len < kLogChunkSize \<and>
                  write_ofs + write_len = p_byte_offset p + p_byte_count p
               then s\<lparr>s_saw_short_eof := True\<rparr> else s)
      in (True, s))"

fun process_loop ::
  "Params \<Rightarrow> bool \<Rightarrow> disk \<Rightarrow> LogDataChunk list \<Rightarrow> session \<Rightarrow> bool \<times> session" where
  "process_loop p detect disk [] s = (True, s)"
| "process_loop p detect disk (c # cs) s =
     (case process_chunk p detect disk c s of
        (False, s') \<Rightarrow> (False, s')
      | (True, s') \<Rightarrow> process_loop p detect disk cs s')"

definition processQueuedChunks ::
  "Params \<Rightarrow> disk \<Rightarrow> session \<Rightarrow> downloader \<Rightarrow> bool \<times> session \<times> downloader" where
  "processQueuedChunks p disk s w =
     (case drainLogDataChunks (p_log_id p) w of (chunks, w') \<Rightarrow>
        let m = s_metrics s;
            s = (if queue_depth_max m < length chunks
                 then s\<lparr>s_metrics := m\<lparr>queue_depth_max := length chunks\<rparr>\<rparr> else s)
        in case process_loop p (detect_overlap_conflict (settings w)) disk chunks s of
             (ok, s') \<Rightarrow> (ok, s', w'))"


text \<open>
  \<open>requestMergedGaps\<close>. Both inner loops compare 32-bit sums that may wrap, so they are partial: the
  value \<open>None\<close> is a loop that does not end.
\<close>

partial_function (option) coalesce :: "u32 \<Rightarrow> u32 \<Rightarrow> u32 \<Rightarrow> u32 option" where
  "coalesce req_start end_ofs coalesced =
     (if req_start + coalesced < end_ofs then coalesce req_start end_ofs (coalesced + kLogChunkSize)
      else Some coalesced)"

partial_function (option) request_span ::
  "u16 \<Rightarrow> u32 \<Rightarrow> u32 \<Rightarrow> downloader \<Rightarrow> downloader option" where
  "request_span log_id req_start end_ofs w =
     (if req_start < end_ofs then
        Option.bind (coalesce req_start end_ofs kLogChunkSize) (\<lambda>coalesced.
          let req_count = min (min (end_ofs - req_start) coalesced) kLogStreamRequestCount
          in request_span log_id (req_start + req_count) end_ofs
               (snd (requestLogData log_id req_start req_count w)))
      else Some w)"

definition gap_start :: "u32 \<Rightarrow> u32 \<Rightarrow> u32" where
  "gap_start gap_offset gap_count =
     (let start = alignDownToChunk gap_offset;
          start = (if start < gap_offset then start + kLogChunkSize else start)
      in if gap_offset + gap_count \<le> start then gap_offset else start)"

fun request_gaps :: "u16 \<Rightarrow> ranges \<Rightarrow> downloader \<Rightarrow> downloader option" where
  "request_gaps log_id [] w = Some w"
| "request_gaps log_id ((gap_offset, gap_count) # gs) w =
     (if gap_count = 0 then request_gaps log_id gs w
      else Option.bind
             (request_span log_id (gap_start gap_offset gap_count) (gap_offset + gap_count) w)
             (request_gaps log_id gs))"

definition requestMergedGaps :: "Params \<Rightarrow> ranges \<Rightarrow> u32 \<Rightarrow> downloader \<Rightarrow> downloader option" where
  "requestMergedGaps p rs sz w = request_gaps (p_log_id p) (gaps rs sz) w"

text \<open>The locals of \<open>run\<close> that change; \<open>rs_last_gap_request = 0\<close> is the clock's epoch.\<close>

record run_state =
  rs_session :: session
  rs_failure :: ArchiveFailureReason
  rs_no_progress_attempts :: int
  rs_last_progress_bytes :: u32
  rs_last_data_time :: nat
  rs_last_gap_request :: nat
  rs_fc_busy_waits :: int

datatype stream_end = Session_done | Overlap | Stopped

text \<open>
  One iteration of the polling loop up to the wait: \<open>Inl\<close> when the loop is left, \<open>Inr\<close> when it goes
  on to \<^verbatim>\<open>waitForLogDataNotify\<close>.
\<close>

definition note_progress :: "run_state \<Rightarrow> downloader \<Rightarrow> run_state \<times> downloader" where
  "note_progress r w =
     (let received = bytesReceived (s_ranges (rs_session r)) in
      if rs_last_progress_bytes r < received
      then (r\<lparr>rs_last_data_time := clock w, rs_last_progress_bytes := received,
              rs_no_progress_attempts := 0\<rparr>, updateProgressBytes received w)
      else (r, w))"

definition gap_fill_due :: "run_state \<Rightarrow> bool \<Rightarrow> downloader \<Rightarrow> bool" where
  "gap_fill_due r range_complete w \<longleftrightarrow>
     (let idle_ms = gap_fill_idle_ms (settings w) in
      \<not> range_complete \<and> idle_ms \<le> int (clock w) - int (rs_last_data_time r) \<and>
      (rs_last_gap_request r = 0 \<or> idle_ms \<le> int (clock w) - int (rs_last_gap_request r)))"

definition fill_gaps :: "Params \<Rightarrow> bool \<Rightarrow> run_state \<Rightarrow> downloader \<Rightarrow> (run_state \<times> downloader) option" where
  "fill_gaps p range_complete r w =
     (if gap_fill_due r range_complete w then
        Option.bind (requestMergedGaps p (s_ranges (rs_session r)) (p_byte_count p) w) (\<lambda>w'.
          let s = rs_session r; m = s_metrics s in
          Some (r\<lparr>rs_session := s\<lparr>s_metrics := m\<lparr>gap_fill_requests := gap_fill_requests m + 1\<rparr>\<rparr>,
                  rs_last_gap_request := clock w\<rparr>, w'))
      else Some (r, w))"

definition stream_iter ::
  "Params \<Rightarrow> disk \<Rightarrow> run_state \<Rightarrow> downloader \<Rightarrow>
   (stream_end \<times> run_state \<times> downloader + run_state \<times> downloader) option" where
  "stream_iter p disk r w =
     (case processQueuedChunks p disk (rs_session r) w of (ok, s, w) \<Rightarrow>
        let r = r\<lparr>rs_session := s\<rparr> in
        if \<not> ok then Some (Inl (Overlap, r, w)) else
        case note_progress r w of (r, w) \<Rightarrow>
        let range_complete = ranges_complete (s_ranges s) (p_byte_count p) in
        if range_complete \<and> allSlotsReceived (s_coverage s) then Some (Inl (Session_done, r, w)) else
        Option.bind (fill_gaps p range_complete r w) (\<lambda>(r, w).
          if download_timeout_sec (settings w) * 1000 \<le> int (clock w) - int (rs_last_data_time r) then
            let s = rs_session r; m = s_metrics s in
            Some (Inl (Stopped, r\<lparr>rs_failure := classifyTimeout w,
                     rs_session := s\<lparr>s_metrics := m\<lparr>retries := retries m + 1\<rparr>\<rparr>\<rparr>, w))
          else Some (Inr (r, w))))"


text \<open>What the steps between two waits leave alone.\<close>

definition same_env :: "downloader \<Rightarrow> downloader \<Rightarrow> bool" where
  "same_env w w' \<longleftrightarrow> script w' = script w \<and> settings w' = settings w \<and> clock w' = clock w \<and>
     cancel_requested w' = cancel_requested w \<and> subseq (data_chunks w') (data_chunks w)"

lemma same_env_refl [simp]: "same_env w w"
  by (simp add: same_env_def)

lemma same_env_trans: "same_env w w' \<Longrightarrow> same_env w' w'' \<Longrightarrow> same_env w w''"
  by (auto simp: same_env_def intro: subseq_order.order_trans)

lemma same_env_requests:
  "same_env w (snd (requestLogData i ofs n w))"
  "same_env w (requestLogEnd w)"
  "same_env w (clearDataChunks w)"
  "same_env w (updateProgressBytes k w)"
  by (simp_all add: same_env_def)

lemma request_span_env:
  assumes "request_span i a e w = Some w'"
  shows "same_env w w'"
proof (rule request_span.raw_induct [OF _ assms], goal_cases)
  case (1 rec i a e w w')
  show ?case
  proof (cases "a < e")
    case True
    with 1(2) obtain co where
      "rec i (a + min (min (e - a) co) kLogStreamRequestCount) e
         (snd (requestLogData i a (min (min (e - a) co) kLogStreamRequestCount) w)) = Some w'"
      by (auto simp: Let_def bind_eq_Some_conv)
    from 1(1) [OF this] show ?thesis
      using same_env_requests(1) same_env_trans by blast
  next
    case False
    with 1(2) show ?thesis by simp
  qed
qed

lemma request_gaps_env: "request_gaps i gs w = Some w' \<Longrightarrow> same_env w w'"
proof (induction i gs w rule: request_gaps.induct)
  case (2 i a n gs w)
  show ?case
  proof (cases "n = 0")
    case True
    with 2 show ?thesis by simp
  next
    case False
    with 2(3) obtain w1 where w1: "request_span i (gap_start a n) (a + n) w = Some w1"
      "request_gaps i gs w1 = Some w'" by (auto simp: bind_eq_Some_conv)
    with 2(2) [OF False] request_span_env show ?thesis
      using same_env_trans by blast
  qed
qed simp

lemma processQueuedChunks_env:
  "processQueuedChunks p disk s w = (ok, s', w') \<Longrightarrow> same_env w w'"
  by (auto simp: processQueuedChunks_def drainLogDataChunks_eq same_env_def Let_def split: prod.splits)

lemma note_progress_env: "note_progress r w = (r', w') \<Longrightarrow> same_env w w'"
  by (auto simp: note_progress_def Let_def same_env_requests split: if_splits)

lemma fill_gaps_env: "fill_gaps p rc r w = Some (r', w') \<Longrightarrow> same_env w w'"
  by (auto simp: fill_gaps_def requestMergedGaps_def Let_def bind_eq_Some_conv
      dest: request_gaps_env split: if_splits)

lemma stream_iter_env:
  assumes "stream_iter p disk r w = Some x"
  shows "case x of Inl (_, _, w') \<Rightarrow> same_env w w' | Inr (_, w') \<Rightarrow> same_env w w'"
proof -
  obtain ok s w1 where q: "processQueuedChunks p disk (rs_session r) w = (ok, s, w1)"
    by (cases "processQueuedChunks p disk (rs_session r) w") auto
  obtain r2 w2 where n: "note_progress (r\<lparr>rs_session := s\<rparr>) w1 = (r2, w2)"
    by fastforce
  have "same_env w w1" and "same_env w w2"
    using processQueuedChunks_env [OF q] note_progress_env [OF n] same_env_trans by blast+
  then show ?thesis
    using assms
    by (auto simp: stream_iter_def q n Let_def bind_eq_Some_conv split: if_splits sum.splits
        dest!: fill_gaps_env intro: same_env_trans)
qed

lemma wait_tick_script: "wait_tick w = Some w' \<Longrightarrow> length (script w') < length (script w)"
  by (auto simp: wait_tick_def split: list.splits)

function stream_loop ::
  "Params \<Rightarrow> disk \<Rightarrow> run_state \<Rightarrow> downloader \<Rightarrow> (stream_end \<times> run_state \<times> downloader) option" where
  "stream_loop p disk r w =
     (if cancelled w then Some (Stopped, r, w)
      else case stream_iter p disk r w of
        None \<Rightarrow> None
      | Some (Inl res) \<Rightarrow> Some res
      | Some (Inr (r', w')) \<Rightarrow>
          (case wait_tick w' of None \<Rightarrow> None | Some w'' \<Rightarrow> stream_loop p disk r' w''))"
  by pat_completeness auto
termination
  by (relation "measure (\<lambda>(p, disk, r, w). length (script w))")
    (auto simp: same_env_def dest!: stream_iter_env wait_tick_script)

declare stream_loop.simps [simp del]

text \<open>The polling loop does not touch the counter of busy waits.\<close>

lemma stream_iter_waits:
  assumes "stream_iter p disk r w = Some x"
  shows "case x of Inl (_, r', _) \<Rightarrow> rs_fc_busy_waits r' = rs_fc_busy_waits r
                 | Inr (r', _) \<Rightarrow> rs_fc_busy_waits r' = rs_fc_busy_waits r"
  using assms
  by (auto simp: stream_iter_def note_progress_def fill_gaps_def Let_def bind_eq_Some_conv
      split: prod.splits if_splits sum.splits)

lemma stream_loop_waits:
  "stream_loop p disk r w = Some (e, r', w') \<Longrightarrow> rs_fc_busy_waits r' = rs_fc_busy_waits r"
proof (induction p disk r w rule: stream_loop.induct)
  case (1 p disk r w)
  show ?case
  proof (cases "cancelled w")
    case True
    with "1.prems" show ?thesis by (simp add: stream_loop.simps [of p disk r w])
  next
    case False
    with "1.prems" "1.IH" show ?thesis
      by (subst (asm) stream_loop.simps [of p disk r w])
        (auto split: option.splits sum.splits dest!: stream_iter_waits)
  qed
qed

datatype run_exit = Returned | Finished bool

definition start_attempt :: "Params \<Rightarrow> int \<Rightarrow> run_state \<Rightarrow> downloader \<Rightarrow> run_state \<times> downloader" where
  "start_attempt p attempt r w =
     (if bytesReceived (s_ranges (rs_session r)) = 0 \<or> 0 < attempt then
        let s = rs_session r; m = s_metrics s in
        (r\<lparr>rs_session := s\<lparr>s_metrics := m\<lparr>log_request_packets := log_request_packets m + 1\<rparr>\<rparr>,
           rs_last_data_time := clock w\<rparr>,
         snd (requestLogData (p_log_id p) (p_byte_offset p) kLogStreamRequestCount w))
      else (r, w))"

text \<open>
  What follows the polling loop of an attempt that neither completed nor met a conflict: back off
  for a busy flight controller and repeat the attempt, abort a stalled transfer, or go on to the
  next attempt. \<open>Inr\<close> carries the number of the attempt that runs next; \<open>Returned\<close> is a
  \<^verbatim>\<open>return result\<close> inside the loop, \<open>Finished\<close> leaving it with or without success.
\<close>

definition fc_busy :: "DownloadSettings \<Rightarrow> u64 \<Rightarrow> run_state \<Rightarrow> downloader \<Rightarrow> bool" where
  "fc_busy cfg zero_len_before r w \<longleftrightarrow>
     bytesReceived (s_ranges (rs_session r)) = 0 \<and>
     zero_len_before < zero_length_data_count w \<and>
     rs_fc_busy_waits r < fc_busy_retry_attempts cfg"

definition after_stop ::
  "DownloadSettings \<Rightarrow> int \<Rightarrow> u32 \<Rightarrow> u64 \<Rightarrow> run_state \<Rightarrow> downloader \<Rightarrow>
   (run_exit \<times> run_state \<times> downloader + int \<times> run_state \<times> downloader) option" where
  "after_stop cfg attempt before zero_len_before r w =
     (if fc_busy cfg zero_len_before r w then
        Option.bind
          (interruptibleSleep (fc_busy_retry_delay_sec cfg) (requestLogEnd (clearDataChunks w)))
          (\<lambda>w'. Some (Inr (attempt,
             r\<lparr>rs_fc_busy_waits := rs_fc_busy_waits r + 1, rs_failure := None_reason\<rparr>, w')))
      else
        let stalled = bytesReceived (s_ranges (rs_session r)) \<le> before;
            r = (if stalled then r\<lparr>rs_no_progress_attempts := rs_no_progress_attempts r + 1\<rparr> else r)
        in if stalled \<and> stall_abort_attempts cfg \<le> rs_no_progress_attempts r then
             Some (Inl (Returned,
               r\<lparr>rs_failure := (if rs_failure r = None_reason then NoProgress else rs_failure r)\<rparr>,
               abortLogTransfer w))
           else if attempt < retry_count cfg then
             Option.bind (wait_tick (requestLogEnd (clearDataChunks w)))
               (\<lambda>w'. Some (Inr (attempt + 1, r, w')))
           else Some (Inr (attempt + 1, r, w)))"

definition attempt_body ::
  "Params \<Rightarrow> disk \<Rightarrow> DownloadSettings \<Rightarrow> int \<Rightarrow> run_state \<Rightarrow> downloader \<Rightarrow>
   (run_exit \<times> run_state \<times> downloader + int \<times> run_state \<times> downloader) option" where
  "attempt_body p disk cfg attempt r w =
     (if cancelled w then Some (Inl (Returned, r\<lparr>rs_failure := Cancelled_reason\<rparr>, w))
      else
        let before = bytesReceived (s_ranges (rs_session r));
            zero_len_before = zero_length_data_count w;
            (r, w) = start_attempt p attempt r w
        in Option.bind (stream_loop p disk r w) (\<lambda>(e, r, w).
             (case e of
                Overlap \<Rightarrow>
                  (let s = rs_session r in
                   Some (Inl (Returned, r\<lparr>rs_failure := OverlapConflict,
                     rs_session := s\<lparr>s_metrics := (s_metrics s)\<lparr>met_overlap_conflicts :=
                       ucast (overlap_conflicts (s_coverage s))\<rparr>\<rparr>\<rparr>, w)))
              | Session_done \<Rightarrow> Some (Inl (Finished True, r, w))
              | Stopped \<Rightarrow> after_stop cfg attempt before zero_len_before r w)))"

lemma after_stop_progress:
  assumes "after_stop cfg attempt before z r w = Some (Inr (attempt', r', w'))"
  shows "(attempt' = attempt + 1 \<and> rs_fc_busy_waits r' = rs_fc_busy_waits r) \<or>
         (attempt' = attempt \<and> rs_fc_busy_waits r' = rs_fc_busy_waits r + 1 \<and>
          rs_fc_busy_waits r < fc_busy_retry_attempts cfg)"
  using assms
  by (auto simp: after_stop_def fc_busy_def Let_def bind_eq_Some_conv split: if_splits)

lemma attempt_body_progress:
  assumes "attempt_body p disk cfg attempt r w = Some (Inr (attempt', r', w'))"
  shows "(attempt' = attempt + 1 \<and> rs_fc_busy_waits r' = rs_fc_busy_waits r) \<or>
         (attempt' = attempt \<and> rs_fc_busy_waits r' = rs_fc_busy_waits r + 1 \<and>
          rs_fc_busy_waits r < fc_busy_retry_attempts cfg)"
proof -
  obtain r0 w0 where st: "start_attempt p attempt r w = (r0, w0)" by fastforce
  then have w0: "rs_fc_busy_waits r0 = rs_fc_busy_waits r"
    by (auto simp: start_attempt_def Let_def split: if_splits)
  from assms st obtain r1 w1 where
    "stream_loop p disk r0 w0 = Some (Stopped, r1, w1)"
    "after_stop cfg attempt (bytesReceived (s_ranges (rs_session r))) (zero_length_data_count w) r1 w1
       = Some (Inr (attempt', r', w'))"
    by (auto simp: attempt_body_def Let_def bind_eq_Some_conv split: if_splits stream_end.splits)
      (metis stream_end.exhaust)
  with w0 show ?thesis
    using stream_loop_waits after_stop_progress by metis
qed

function attempt_loop ::
  "Params \<Rightarrow> disk \<Rightarrow> DownloadSettings \<Rightarrow> int \<Rightarrow> run_state \<Rightarrow> downloader \<Rightarrow>
   (run_exit \<times> run_state \<times> downloader) option" where
  "attempt_loop p disk cfg attempt r w =
     (if retry_count cfg < attempt then Some (Finished False, r, w)
      else case attempt_body p disk cfg attempt r w of
        None \<Rightarrow> None
      | Some (Inl res) \<Rightarrow> Some res
      | Some (Inr (attempt', r', w')) \<Rightarrow> attempt_loop p disk cfg attempt' r' w')"
  by pat_completeness auto
termination
  by (relation "measures [\<lambda>(p, disk, cfg, attempt, r, w). nat (retry_count cfg + 1 - attempt),
        \<lambda>(p, disk, cfg, attempt, r, w). nat (fc_busy_retry_attempts cfg - rs_fc_busy_waits r)]")
    (auto dest!: attempt_body_progress)

declare attempt_loop.simps [simp del]

definition session_new :: "u32 \<Rightarrow> ofile \<Rightarrow> session" where
  "session_new sz file =
     \<lparr>s_file = file, s_ranges = [], s_coverage = coverage_new sz, s_hasher = Sha256_new,
      s_probe_finalized = False, s_hashed_bytes = 0, s_probe_sha256 = [], s_saw_short_eof = False,
      s_metrics = StreamDownloadMetrics_new\<rparr>"

definition run_new :: "u32 \<Rightarrow> ofile \<Rightarrow> nat \<Rightarrow> run_state" where
  "run_new sz file now =
     \<lparr>rs_session = session_new sz file, rs_failure = None_reason, rs_no_progress_attempts = 0,
      rs_last_progress_bytes = 0, rs_last_data_time = now, rs_last_gap_request = 0,
      rs_fc_busy_waits = 0\<rparr>"

text \<open>A result built from the locals, before the digests are filled in.\<close>

definition partial_result :: "int \<Rightarrow> bool \<Rightarrow> run_state \<Rightarrow> StreamDownloadResult" where
  "partial_result pb success r =
     \<lparr>res_success = success, res_failure = rs_failure r, res_metrics = s_metrics (rs_session r),
      res_ranges = [], res_sha256 = [], res_probe_sha256 = s_probe_sha256 (rs_session r),
      res_probe_bytes = pb\<rparr>"

definition finish_run :: "Params \<Rightarrow> run_exit \<Rightarrow> run_state \<Rightarrow> StreamDownloadResult" where
  "finish_run p e r =
     (let probe_n = probe_count (p_probe_bytes p) (p_byte_count p);
          s = rs_session r
      in case e of
        Returned \<Rightarrow> partial_result (sint probe_n) False r
      | Finished False \<Rightarrow>
          partial_result (sint probe_n) False
            (if rs_failure r = None_reason
             then r\<lparr>rs_failure := (if ranges_complete (s_ranges s) (p_byte_count p)
                                  then VerificationFailed else IncompleteDownload)\<rparr>
             else r)
      | Finished True \<Rightarrow>
          if 0 < overlap_conflicts (s_coverage s)
          then partial_result (sint probe_n) False (r\<lparr>rs_failure := OverlapConflict\<rparr>)
          else
            (partial_result (sint probe_n) True r)
              \<lparr>res_probe_sha256 :=
                 (if probe_n = 0 then empty_hash
                  else if \<not> s_probe_finalized s then hash_hex (clone (s_hasher s))
                  else s_probe_sha256 s),
               res_sha256 := hash_hex (s_hasher s),
               res_ranges := s_ranges s,
               res_metrics := (s_metrics s)\<lparr>met_overlap_conflicts :=
                 ucast (overlap_conflicts (s_coverage s))\<rparr>\<rparr>)"

definition run :: "Params \<Rightarrow> disk \<Rightarrow> ofile \<Rightarrow> downloader \<Rightarrow>
  (StreamDownloadResult \<times> ofile \<times> downloader) option" where
  "run p disk file w =
     (if p_byte_count p = 0 then
        Some (\<lparr>res_success = True, res_failure = None_reason, res_metrics = StreamDownloadMetrics_new,
               res_ranges = [], res_sha256 = empty_hash, res_probe_sha256 = empty_hash,
               res_probe_bytes = p_probe_bytes p\<rparr>, file, w)
      else Option.bind
        (attempt_loop p disk (settings w) 0 (run_new (p_byte_count p) file (clock w)) (clearDataChunks w))
        (\<lambda>(e, r, w'). Some (finish_run p e r, s_file (rs_session r), w')))"


section \<open>The output file\<close>

lemma length_write_at: "d \<noteq> [] \<Longrightarrow> length (write_at f ofs d) = max (length f) (ofs + length d)"
  by (cases "ofs \<le> length f") (auto simp: write_at_def)

lemma nth_write_at_in:
  "ofs \<le> i \<Longrightarrow> i < ofs + length d \<Longrightarrow> write_at f ofs d ! i = d ! (i - ofs)"
  by (cases "ofs \<le> length f") (auto simp: write_at_def nth_append min_def)

lemma nth_write_at_out:
  assumes "i < length f" and "i < ofs \<or> ofs + length d \<le> i"
  shows "write_at f ofs d ! i = f ! i"
proof (cases "ofs \<le> length f")
  case True
  with assms show ?thesis by (auto simp: write_at_def nth_append min_def)
next
  case False
  with assms show ?thesis by (auto simp: write_at_def nth_append)
qed

end
