(* ===== verification/GapFill.thy ===== *)
theory GapFill
  imports StreamDownloadSession
begin

text \<open>
  What \<open>requestMergedGaps\<close> asks the flight controller for. Away from the 32-bit limit both of its
  loops end, every gap yields exactly one LOG_REQUEST_DATA, and where the received ranges end on
  chunk boundaries the requested bytes are exactly the missing ones.
\<close>

section \<open>Termination of the loops\<close>

lemma coalesce_ends:
  assumes "unat e + 90 < 4294967296"
  shows "unat a + unat c < 4294967296 \<Longrightarrow>
    \<exists>c'. coalesce a e c = Some c' \<and> unat e \<le> unat a + unat c' \<and> unat a + unat c' < 4294967296"
proof (induction "unat e - (unat a + unat c)" arbitrary: c rule: less_induct)
  case less
  have sum: "unat (a + c) = unat a + unat c"
    using less.prems by (rule unat_u32_add)
  show ?case
  proof (cases "a + c < e")
    case False
    then show ?thesis
      using less.prems sum by (subst coalesce.simps) (simp add: u32_less_iff)
  next
    case True
    then have lt: "unat a + unat c < unat e" by (simp add: u32_less_iff sum)
    have c: "unat (c + kLogChunkSize) = unat c + 90"
      using lt assms by (subst unat_u32_add) auto
    have "\<exists>c'. coalesce a e (c + kLogChunkSize) = Some c' \<and> unat e \<le> unat a + unat c' \<and>
        unat a + unat c' < 4294967296"
      by (rule less.hyps) (use lt c assms in auto)
    with True show ?thesis by (subst coalesce.simps) simp
  qed
qed

lemma request_span_single:
  assumes "a < e" and "unat e + 90 < 4294967296"
  shows "request_span i a e w = Some (snd (requestLogData i a (e - a) w))"
proof -
  have "unat a + unat kLogChunkSize < 4294967296"
    using assms by (simp add: u32_less_iff)
  then obtain c where c: "coalesce a e kLogChunkSize = Some c" "unat e \<le> unat a + unat c"
    using coalesce_ends [OF assms(2)] by blast
  have "unat (e - a) = unat e - unat a"
    using assms(1) by (intro unat_u32_sub) simp
  then have "e - a \<le> c" "e - a \<le> kLogStreamRequestCount"
    using c(2) unat_u32_bound [of "e - a"] by (auto simp: u32_le_iff kLogStreamRequestCount_def)
  then have "min (min (e - a) c) kLogStreamRequestCount = e - a"
    by (simp add: min_absorb1)
  then show ?thesis
    using assms(1) c(1) by (subst request_span.simps) (simp add: request_span.simps [of i e e])
qed


section \<open>The requests\<close>

definition gap_request :: "u16 \<Rightarrow> u32 \<times> u32 \<Rightarrow> fc_request" where
  "gap_request i g =
     LOG_REQUEST_DATA i (gap_start (fst g) (snd g)) (fst g + snd g - gap_start (fst g) (snd g))"

definition gap_ok :: "u32 \<Rightarrow> u32 \<times> u32 \<Rightarrow> bool" where
  "gap_ok sz g \<longleftrightarrow> 0 < unat (snd g) \<and> unat (fst g) + unat (snd g) \<le> unat sz"

lemma gap_start_bounds:
  assumes "gap_ok sz g" and "unat sz + 90 < 4294967296"
  shows "fst g \<le> gap_start (fst g) (snd g)" and "gap_start (fst g) (snd g) < fst g + snd g"
    and "unat (fst g + snd g) = unat (fst g) + unat (snd g)"
proof -
  show sum: "unat (fst g + snd g) = unat (fst g) + unat (snd g)"
    using assms by (intro unat_u32_add) (auto simp: gap_ok_def)
  have al: "unat (alignDownToChunk (fst g)) = unat (fst g) - unat (fst g) mod 90"
    by (rule unat_alignDownToChunk)
  have up: "unat (alignDownToChunk (fst g) + kLogChunkSize) = unat (fst g) - unat (fst g) mod 90 + 90"
    using assms by (subst unat_u32_add) (auto simp: gap_ok_def al)
  have "unat (fst g) \<le> unat (fst g) - unat (fst g) mod 90 + 90"
    using mod_less_divisor [of 90 "unat (fst g)"] by linarith
  then show "fst g \<le> gap_start (fst g) (snd g)" "gap_start (fst g) (snd g) < fst g + snd g"
    using assms by (auto simp: gap_start_def Let_def u32_order sum up al gap_ok_def)
qed

lemma gap_start_aligned: "90 dvd unat a \<Longrightarrow> gap_start a n = a"
proof -
  assume "90 dvd unat a"
  then have "alignDownToChunk a = a"
    by (intro iffD2 [OF word_unat_eq_iff]) (simp add: unat_alignDownToChunk dvd_eq_mod_eq_0)
  then show ?thesis by (simp add: gap_start_def)
qed

lemma requestLogData_sent:
  "connected w \<Longrightarrow> send_ok w \<Longrightarrow>
   sent (snd (requestLogData i a n w)) = sent w @ [LOG_REQUEST_DATA i a n]
   \<and> connected (snd (requestLogData i a n w)) \<and> send_ok (snd (requestLogData i a n w))"
  by (simp add: requestLogData_def sendMessage_def)

lemma request_gaps_single:
  "\<forall>g\<in>set gs. gap_ok sz g \<Longrightarrow> unat sz + 90 < 4294967296 \<Longrightarrow>
   \<exists>w'. request_gaps i gs w = Some w' \<and>
     (connected w \<and> send_ok w \<longrightarrow> sent w' = sent w @ map (gap_request i) gs)"
proof (induction gs arbitrary: w)
  case (Cons g gs)
  obtain a n where g: "g = (a, n)" by (cases g)
  have ok: "gap_ok sz (a, n)" using Cons.prems(1) g by simp
  note b = gap_start_bounds [OF ok Cons.prems(2), simplified]
  have "unat (a + n) + 90 < 4294967296"
    using b(3) ok Cons.prems(2) by (simp add: gap_ok_def)
  note span = request_span_single [OF b(2) this, of i w]
  let ?w = "snd (requestLogData i (gap_start a n) (a + n - gap_start a n) w)"
  obtain w' where w': "request_gaps i gs ?w = Some w'"
    "connected ?w \<and> send_ok ?w \<longrightarrow> sent w' = sent ?w @ map (gap_request i) gs"
    using Cons by fastforce
  moreover have "n \<noteq> 0" using ok by (auto simp: gap_ok_def)
  ultimately show ?case
    using span requestLogData_sent [of w i] by (auto simp: g gap_request_def)
qed simp

lemma gaps_loop_ok:
  "\<forall>r\<in>set rs. fst r \<le> snd r \<and> snd r \<le> sz \<Longrightarrow> g \<in> set (gaps_loop rs cursor sz) \<Longrightarrow>
   gap_ok sz g \<and> (fst g = cursor \<or> fst g \<in> snd ` set rs)"
proof (induction rs arbitrary: cursor)
  case Nil
  then show ?case
    by (auto simp: gap_ok_def u32_less_iff unat_u32_sub u32_le_iff split: if_splits)
next
  case (Cons r rs)
  show ?case
  proof (cases "g \<in> set (gaps_loop rs (max cursor (snd r)) sz)")
    case True
    with Cons.IH [of "max cursor (snd r)"] Cons.prems show ?thesis
      by (auto simp: max_def split: if_splits)
  next
    case False
    with Cons.prems have "cursor < fst r" "g = (cursor, fst r - cursor)" "fst r \<le> sz"
      by (auto split: if_splits)
    then show ?thesis by (simp add: gap_ok_def u32_order unat_u32_sub)
  qed
qed

lemma ranges_in_window:
  assumes "ranges_inv rs" and "in_window rs sz" and "r \<in> set rs"
  shows "fst r \<le> snd r \<and> snd r \<le> sz"
proof -
  have lt: "fst r < snd r" using assms(1,3) by (induction rs) auto
  have "span r \<subseteq> {0..<unat sz}" using assms(2,3) by (auto simp: in_window_def covered_def)
  moreover have "unat (snd r) - 1 \<in> span r" using lt by (auto simp: span_def u32_less_iff)
  ultimately have "unat (snd r) - 1 < unat sz" by auto
  with lt show ?thesis by (auto simp: u32_order)
qed

lemma gaps_ok:
  assumes "ranges_inv rs" and "in_window rs sz" and "g \<in> set (gaps rs sz)"
  shows "gap_ok sz g" and "fst g = 0 \<or> fst g \<in> snd ` set rs"
  using gaps_loop_ok [of rs sz g 0] ranges_in_window [OF assms(1,2)] assms(3)
  by (auto simp: gaps_def)

lemma requestMergedGaps_returns:
  assumes "ranges_inv rs" and "in_window rs sz" and "unat sz + 90 < 4294967296"
  shows "\<exists>w'. requestMergedGaps p rs sz w = Some w' \<and>
    (connected w \<and> send_ok w \<longrightarrow> sent w' = sent w @ map (gap_request (p_log_id p)) (gaps rs sz))"
  using request_gaps_single [of "gaps rs sz" sz] gaps_ok(1) [OF assms(1,2)] assms(3)
  by (auto simp: requestMergedGaps_def)


section \<open>Properties\<close>

text \<open>The bytes of log \<open>i\<close> that a list of requests asks for.\<close>

fun request_bytes :: "u16 \<Rightarrow> fc_request \<Rightarrow> nat set" where
  "request_bytes i (LOG_REQUEST_DATA j a n) = (if i = j then {unat a..<unat a + unat n} else {})"
| "request_bytes i _ = {}"

lemma gap_request_bytes:
  assumes "gap_ok sz g" and "unat sz + 90 < 4294967296"
  shows "request_bytes i (gap_request i g)
         = {unat (gap_start (fst g) (snd g))..<unat (fst g) + unat (snd g)}"
  using gap_start_bounds [OF assms] by (auto simp: gap_request_def unat_u32_sub u32_order)

lemma gap_head:
  assumes "gap_ok sz g" and "unat sz + 90 < 4294967296"
    and "unat (fst g) \<le> b" and "b < unat (gap_start (fst g) (snd g))"
  shows "\<not> 90 dvd unat (fst g) \<and> b div 90 = unat (fst g) div 90"
proof -
  have "gap_start (fst g) (snd g) \<noteq> fst g" using assms(3,4) by auto
  then have st: "gap_start (fst g) (snd g) = alignDownToChunk (fst g) + kLogChunkSize"
    and na: "alignDownToChunk (fst g) < fst g"
    using unat_alignDownToChunk [of "fst g"]
    by (auto simp: gap_start_def Let_def u32_less_iff word_unat_eq_iff split: if_splits)
  have al: "unat (alignDownToChunk (fst g)) = 90 * (unat (fst g) div 90)"
    using unat_alignDownToChunk [of "fst g"] minus_mod_eq_mult_div [of "unat (fst g)" 90] by simp
  have "unat (gap_start (fst g) (snd g)) = 90 * (unat (fst g) div 90) + 90"
    unfolding st using assms(1,2) na al by (subst unat_u32_add) (auto simp: gap_ok_def u32_less_iff)
  then have "b div 90 = unat (fst g) div 90"
    using assms(3,4) al na by (intro div_nat_eqI) (auto simp: u32_less_iff)
  moreover have "\<not> 90 dvd unat (fst g)"
    using na al by (auto simp: u32_less_iff)
  ultimately show ?thesis by simp
qed

text \<open>
  (C38) Gap filling asks only for missing bytes, and for all of them but the heads of gaps that start
  inside a 90-byte chunk: for any received ranges inside a log of at most 4294967205 bytes, with the
  link up and the sends succeeding, \<open>requestMergedGaps\<close> returns and sends one request per gap. No
  requested byte has been received, and a missing byte that is not requested lies in a chunk in which
  a received range ends. (Where the ranges end on chunk boundaries, all missing bytes are requested.)
\<close>

theorem gap_fill_requests_missing_bytes:
  assumes "ranges_inv rs" and "covered rs \<subseteq> {0..<unat sz}" and "unat sz \<le> 4294967205"
    and "connected w" "send_ok w"
  shows "\<exists>w' reqs. requestMergedGaps p rs sz w = Some w' \<and> sent w' = sent w @ reqs \<and>
    length reqs = length (gaps rs sz) \<and>
    \<Union> (set (map (request_bytes (p_log_id p)) reqs)) \<subseteq> {0..<unat sz} - covered rs \<and>
    (\<forall>b\<in>{0..<unat sz} - covered rs - \<Union> (set (map (request_bytes (p_log_id p)) reqs)).
       \<exists>r\<in>set rs. \<not> 90 dvd unat (snd r) \<and> b div 90 = unat (snd r) div 90)"
proof -
  have win: "in_window rs sz" and lim: "unat sz + 90 < 4294967296"
    using assms(2,3) by (auto simp: in_window_def)
  note ok = gaps_ok [OF assms(1) win]
  note req = gap_request_bytes [OF ok(1) lim, of _ "p_log_id p"]
  let ?reqs = "map (gap_request (p_log_id p)) (gaps rs sz)"
  have miss: "gap_bytes (gaps rs sz) = {0..<unat sz} - covered rs"
    by (rule gaps_bytes [OF assms(1) win])
  have "\<Union> (set (map (request_bytes (p_log_id p)) ?reqs)) \<subseteq> gap_bytes (gaps rs sz)"
    using req gap_start_bounds(1) [OF ok(1) lim] by (force simp: gap_bytes_def u32_le_iff)
  moreover have "\<exists>r\<in>set rs. \<not> 90 dvd unat (snd r) \<and> b div 90 = unat (snd r) div 90"
    if b: "b \<in> gap_bytes (gaps rs sz)" "b \<notin> \<Union> (set (map (request_bytes (p_log_id p)) ?reqs))" for b
  proof -
    from b(1) obtain g where g: "g \<in> set (gaps rs sz)" "unat (fst g) \<le> b" "b < unat (fst g) + unat (snd g)"
      by (auto simp: gap_bytes_def)
    with b(2) req [OF g(1)] have "b < unat (gap_start (fst g) (snd g))" by force
    note head = gap_head [OF ok(1) [OF g(1)] lim g(2) this]
    then have "fst g \<noteq> 0" by auto
    with ok(2) [OF g(1)] obtain r where "r \<in> set rs" "snd r = fst g" by auto
    with head show ?thesis by (intro bexI [of _ r]) simp_all
  qed
  ultimately show ?thesis
    using requestMergedGaps_returns [OF assms(1) win lim, of p w] assms(4,5) by (auto simp: miss)
qed

theorem gap_fill_requests_missing_bytes_witness:
  "\<exists>w' reqs. requestMergedGaps \<lparr>p_log_id = 3, p_byte_offset = 0, p_byte_count = 900, p_probe_bytes = 0,
       p_write_file = True\<rparr> [(90, 180), (360, 810)] 900 (LogDownloader_new DownloadSettings_default []) = Some w' \<and>
    sent w' = reqs \<and> length reqs = 3 \<and>
    \<Union> (set (map (request_bytes 3) reqs)) = {0..<900} - ({90..<180} \<union> {360..<810})"
proof -
  let ?p = "\<lparr>p_log_id = 3, p_byte_offset = 0, p_byte_count = 900, p_probe_bytes = 0, p_write_file = True\<rparr>"
  let ?w = "LogDownloader_new DownloadSettings_default []"
  let ?rs = "[(90 :: u32, 180 :: u32), (360, 810)]"
  have cov: "covered ?rs = {90..<180} \<union> {360..<810}" by (simp add: covered_def span_def)
  have h: "ranges_inv ?rs" "covered ?rs \<subseteq> {0..<unat (900 :: u32)}" "unat (900 :: u32) \<le> 4294967205"
    "connected ?w" "send_ok ?w" "sent ?w = []"
    unfolding cov by (auto simp: LogDownloader_new_def)
  have al: "\<forall>r\<in>set ?rs. 90 dvd unat (snd r)" and len: "length (gaps ?rs 900) = 3" by (simp_all add: gaps_def)
  from gap_fill_requests_missing_bytes [OF h(1-5), of ?p]
  obtain w' reqs where w': "requestMergedGaps ?p ?rs 900 ?w = Some w'" "sent w' = sent ?w @ reqs"
      "length reqs = length (gaps ?rs 900)"
      "\<Union> (set (map (request_bytes (p_log_id ?p)) reqs)) \<subseteq> {0..<unat (900 :: u32)} - covered ?rs"
      "\<forall>b\<in>{0..<unat (900 :: u32)} - covered ?rs - \<Union> (set (map (request_bytes (p_log_id ?p)) reqs)).
         \<exists>r\<in>set ?rs. \<not> 90 dvd unat (snd r) \<and> b div 90 = unat (snd r) div 90"
    by blast
  from w'(4,5) al have "\<Union> (set (map (request_bytes (p_log_id ?p)) reqs)) = {0..<unat (900 :: u32)} - covered ?rs"
    by blast
  with w'(1-3) show ?thesis unfolding cov len h(6) by (intro exI [of _ w'] exI [of _ reqs]) simp
qed

text \<open>
  Gap filling skips the head of an unaligned gap: for a gap from 10 to 210 the one request asks for the
  bytes from 90 on, so that the bytes 10 to 89 are not requested.
\<close>

theorem gap_fill_skips_unaligned_head:
  "(\<forall>i w. request_gaps i [(10, 200)] (w\<lparr>connected := True, send_ok := True, sent := []\<rparr>) \<noteq> None \<and>
     sent (the (request_gaps i [(10, 200)] (w\<lparr>connected := True, send_ok := True, sent := []\<rparr>)))
       = [LOG_REQUEST_DATA i 90 120])"
proof (intro allI)
  fix i :: u16 and w :: downloader
  have "\<forall>g\<in>set [(10, 200)]. gap_ok 210 g" "unat (210 :: u32) + 90 < 4294967296"
    by (simp_all add: gap_ok_def)
  moreover have "gap_request i (10, 200) = LOG_REQUEST_DATA i 90 120"
    by (simp add: gap_request_def gap_start_def alignDownToChunk_def kLogChunkSize_def)
  ultimately show "request_gaps i [(10, 200)] (w\<lparr>connected := True, send_ok := True, sent := []\<rparr>) \<noteq> None \<and>
     sent (the (request_gaps i [(10, 200)] (w\<lparr>connected := True, send_ok := True, sent := []\<rparr>)))
       = [LOG_REQUEST_DATA i 90 120]"
    using request_gaps_single [of "[(10, 200)]" 210 i "w\<lparr>connected := True, send_ok := True, sent := []\<rparr>"]
    by auto
qed

text \<open>
  At the 32-bit limit gap filling never returns: where a gap ends at 4294967295 and its first request
  starts at an even offset, \<open>coalesced\<close> grows by 90 and wraps, so that \<open>req_start + coalesced\<close> stays
  even and below the end for ever.
\<close>

lemma coalesce_never_ends:
  "coalesce a e c = Some y \<Longrightarrow> e = 0xFFFFFFFF \<Longrightarrow> even a \<Longrightarrow> even c \<Longrightarrow> False"
proof (induction a e c y rule: coalesce.raw_induct [rotated 1, consumes 1])
  case (1 coalesce a e c y)
  have "odd (0xFFFFFFFF :: u32)" by simp
  with "1.prems"(2,3) have "a + c \<noteq> 0xFFFFFFFF" by (metis even_add)
  then have "unat (a + c) \<noteq> 4294967295" by (simp add: word_unat_eq_iff)
  then have "a + c < 0xFFFFFFFF"
    using unat_u32_bound [of "a + c"] by (simp add: u32_less_iff del: unat_u32_bound)
  with 1(2) "1.prems"(1) have st: "coalesce a e (c + kLogChunkSize) = Some y" by simp
  have "even (c + kLogChunkSize)" using "1.prems"(3) by (simp add: kLogChunkSize_def)
  with 1(1) [OF st] "1.prems" show ?case by blast
qed

lemma gap_fill_hangs_at_limit:
  assumes "90 dvd unat e" and "0 < e" and "e < 0xFFFFFFFF"
  shows "requestMergedGaps p [(0, e)] 0xFFFFFFFF w = None"
proof -
  have "gaps [(0, e)] 0xFFFFFFFF = [(e, 0xFFFFFFFF - e)]"
    using assms(2,3) by (simp add: gaps_def max_def)
  moreover have "gap_start e (0xFFFFFFFF - e) = e" by (rule gap_start_aligned [OF assms(1)])
  moreover have "even (unat e)" using assms(1) by (rule dvd_trans [rotated]) simp
  then have "even e" using even_of_nat [of "unat e", where 'a = u32] by simp
  then have "coalesce e 0xFFFFFFFF kLogChunkSize = None"
    using coalesce_never_ends [of e "0xFFFFFFFF" kLogChunkSize]
    by (cases "coalesce e 0xFFFFFFFF kLogChunkSize") (auto simp: kLogChunkSize_def)
  ultimately show ?thesis
    using assms(3) by (simp add: requestMergedGaps_def request_span.simps [of _ e])
qed

end
