(* ===== verification/ConfigLoad.thy ===== *)
theory ConfigLoad
  imports Types
begin

text \<open>
  \<^verbatim>\<open>Config::loadFromFile\<close>. A parsed file is a tree of \<open>toml\<close> nodes; the conversions \<^verbatim>\<open>value<T>()\<close> of the
  library are parameters, of which only what its documentation promises for nodes of the asked type
  is used. A key that is absent or not convertible leaves the default, and \<^verbatim>\<open>static_cast<int>\<close> keeps the
  low 32 bits.
\<close>

section \<open>Model\<close>

datatype toml =
    Toml_string string
  | Toml_int int
  | Toml_float rat
  | Toml_bool bool
  | Toml_array "toml list"
  | Toml_table "(string \<times> toml) list"

record toml_lib =
  value_string :: "toml \<Rightarrow> string option"
  value_int64 :: "toml \<Rightarrow> int option"
  value_double :: "toml \<Rightarrow> rat option"
  value_bool :: "toml \<Rightarrow> bool option"

type_synonym table = "(string \<times> toml) list"

definition as_table :: "string \<Rightarrow> table \<Rightarrow> table option" where
  "as_table key t = (case map_of t key of Some (Toml_table u) \<Rightarrow> Some u | _ \<Rightarrow> None)"

text \<open>One \<^verbatim>\<open>if (auto v = sec[key].value<T>())\<close> with its assignment.\<close>

definition load_string :: "toml_lib \<Rightarrow> table \<Rightarrow> string \<Rightarrow> (string \<Rightarrow> 'c \<Rightarrow> 'c) \<Rightarrow> 'c \<Rightarrow> 'c" where
  "load_string L sec key put c =
     (case Option.bind (map_of sec key) (value_string L) of None \<Rightarrow> c | Some v \<Rightarrow> put v c)"

definition load_int :: "toml_lib \<Rightarrow> table \<Rightarrow> string \<Rightarrow> (int \<Rightarrow> 'c \<Rightarrow> 'c) \<Rightarrow> 'c \<Rightarrow> 'c" where
  "load_int L sec key put c =
     (case Option.bind (map_of sec key) (value_int64 L) of None \<Rightarrow> c | Some v \<Rightarrow> put (to_int v) c)"

definition load_double :: "toml_lib \<Rightarrow> table \<Rightarrow> string \<Rightarrow> (rat \<Rightarrow> 'c \<Rightarrow> 'c) \<Rightarrow> 'c \<Rightarrow> 'c" where
  "load_double L sec key put c =
     (case Option.bind (map_of sec key) (value_double L) of None \<Rightarrow> c | Some v \<Rightarrow> put v c)"

definition load_bool :: "toml_lib \<Rightarrow> table \<Rightarrow> string \<Rightarrow> (bool \<Rightarrow> 'c \<Rightarrow> 'c) \<Rightarrow> 'c \<Rightarrow> 'c" where
  "load_bool L sec key put c =
     (case Option.bind (map_of sec key) (value_bool L) of None \<Rightarrow> c | Some v \<Rightarrow> put v c)"

text \<open>Statements one after the other.\<close>

definition in_order :: "('c \<Rightarrow> 'c) list \<Rightarrow> 'c \<Rightarrow> 'c" where
  "in_order fs c = fold (\<lambda>f c. f c) fs c"

definition loadTransportTable :: "toml_lib \<Rightarrow> table \<Rightarrow> TransportSettings \<Rightarrow> TransportSettings" where
  "loadTransportTable L sec =
     in_order
      [load_string L sec ''transport'' (\<lambda>v. ts_transport_update (\<lambda>_. v)),
       load_string L sec ''host'' (\<lambda>v. ts_host_update (\<lambda>_. v)),
       load_int L sec ''port'' (\<lambda>v. ts_port_update (\<lambda>_. v)),
       load_string L sec ''bind_host'' (\<lambda>v. ts_bind_host_update (\<lambda>_. v)),
       load_int L sec ''bind_port'' (\<lambda>v. ts_bind_port_update (\<lambda>_. v)),
       load_int L sec ''heartbeat_timeout_sec'' (\<lambda>v. heartbeat_timeout_sec_update (\<lambda>_. v))]"

definition load_download :: "toml_lib \<Rightarrow> table \<Rightarrow> DownloadSettings \<Rightarrow> DownloadSettings" where
  "load_download L sec =
     in_order
      [load_int L sec ''delay_after_disarm'' (\<lambda>v. delay_after_disarm_sec_update (\<lambda>_. v)),
       load_int L sec ''delay_after_disarm_sec'' (\<lambda>v. delay_after_disarm_sec_update (\<lambda>_. v)),
       load_int L sec ''enumerate_attempts'' (\<lambda>v. enumerate_attempts_update (\<lambda>_. v)),
       load_int L sec ''enumerate_retry_delay_sec'' (\<lambda>v. enumerate_retry_delay_sec_update (\<lambda>_. v)),
       load_int L sec ''download_timeout'' (\<lambda>v. download_timeout_sec_update (\<lambda>_. v)),
       load_int L sec ''retry_count'' (\<lambda>v. retry_count_update (\<lambda>_. v)),
       load_int L sec ''retry_delay'' (\<lambda>v. retry_delay_sec_update (\<lambda>_. v)),
       load_int L sec ''probe_bytes'' (\<lambda>v. probe_bytes_update (\<lambda>_. v)),
       load_bool L sec ''verify_after_download'' (\<lambda>v. verify_after_download_update (\<lambda>_. v)),
       load_bool L sec ''erase_after_success'' (\<lambda>v. erase_after_success_update (\<lambda>_. v)),
       load_int L sec ''stall_abort_attempts'' (\<lambda>v. stall_abort_attempts_update (\<lambda>_. v)),
       load_int L sec ''fc_busy_retry_attempts'' (\<lambda>v. fc_busy_retry_attempts_update (\<lambda>_. v)),
       load_int L sec ''fc_busy_retry_delay_sec'' (\<lambda>v. fc_busy_retry_delay_sec_update (\<lambda>_. v)),
       load_int L sec ''max_queued_log_data'' (\<lambda>v. max_queued_log_data_update (\<lambda>_. v)),
       load_bool L sec ''reconnect_on_transport_failure'' (\<lambda>v. reconnect_on_transport_failure_update (\<lambda>_. v)),
       load_int L sec ''reconnect_after_consecutive_failures'' (\<lambda>v. reconnect_after_consecutive_failures_update (\<lambda>_. v)),
       load_int L sec ''gap_fill_idle_ms'' (\<lambda>v. gap_fill_idle_ms_update (\<lambda>_. v)),
       load_bool L sec ''verify_dataflash_parse'' (\<lambda>v. verify_dataflash_parse_update (\<lambda>_. v)),
       load_double L sec ''verify_max_bad_header_ratio'' (\<lambda>v. verify_max_bad_header_ratio_update (\<lambda>_. v)),
       load_bool L sec ''detect_overlap_conflict'' (\<lambda>v. detect_overlap_conflict_update (\<lambda>_. v)),
       load_string L sec ''verify_fc_reread'' (\<lambda>v. verify_fc_reread_update (\<lambda>_. v)),
       load_int L sec ''verify_fc_reread_sample_count'' (\<lambda>v. verify_fc_reread_sample_count_update (\<lambda>_. v)),
       load_bool L sec ''benchmark_download'' (\<lambda>v. benchmark_download_update (\<lambda>_. v))]"

definition load_storage :: "toml_lib \<Rightarrow> table \<Rightarrow> StorageSettings \<Rightarrow> StorageSettings" where
  "load_storage L sec =
     in_order
      [load_string L sec ''directory'' (\<lambda>v. st_directory_update (\<lambda>_. v)),
       load_int L sec ''max_size_gb'' (\<lambda>v. max_size_gb_update (\<lambda>_. v))]"

definition load_logging :: "toml_lib \<Rightarrow> table \<Rightarrow> LoggingSettings \<Rightarrow> LoggingSettings" where
  "load_logging L sec =
     in_order
      [load_bool L sec ''verbose'' (\<lambda>v. verbose_update (\<lambda>_. v)),
       load_string L sec ''file'' (\<lambda>v. lg_file_update (\<lambda>_. v))]"

definition load_companion :: "toml_lib \<Rightarrow> table \<Rightarrow> CompanionSettings \<Rightarrow> CompanionSettings" where
  "load_companion L sec =
     in_order
      [load_bool L sec ''enabled'' (\<lambda>v. co_enabled_update (\<lambda>_. v)),
       load_string L sec ''bind_host'' (\<lambda>v. co_bind_host_update (\<lambda>_. v)),
       load_int L sec ''bind_port'' (\<lambda>v. co_bind_port_update (\<lambda>_. v)),
       load_string L sec ''send_host'' (\<lambda>v. send_host_update (\<lambda>_. v)),
       load_int L sec ''send_port'' (\<lambda>v. send_port_update (\<lambda>_. v)),
       load_string L sec ''token'' (\<lambda>v. token_update (\<lambda>_. v)),
       load_int L sec ''max_request_bytes'' (\<lambda>v. max_request_bytes_update (\<lambda>_. v)),
       load_int L sec ''max_response_bytes'' (\<lambda>v. max_response_bytes_update (\<lambda>_. v)),
       load_int L sec ''max_fc_logs_per_response'' (\<lambda>v. max_fc_logs_per_response_update (\<lambda>_. v)),
       load_int L sec ''udp_proxy_keepalive_ms'' (\<lambda>v. udp_proxy_keepalive_ms_update (\<lambda>_. v))]"

definition load_recording :: "toml_lib \<Rightarrow> table \<Rightarrow> RecordingSettings \<Rightarrow> RecordingSettings" where
  "load_recording L sec =
     in_order
      [load_bool L sec ''enabled'' (\<lambda>v. re_enabled_update (\<lambda>_. v)),
       load_string L sec ''mount_path'' (\<lambda>v. mount_path_update (\<lambda>_. v)),
       load_int L sec ''source_port'' (\<lambda>v. source_port_update (\<lambda>_. v)),
       load_int L sec ''rtp_payload_type'' (\<lambda>v. rtp_payload_type_update (\<lambda>_. v)),
       load_string L sec ''filename_prefix'' (\<lambda>v. filename_prefix_update (\<lambda>_. v)),
       load_string L sec ''gst_launch_path'' (\<lambda>v. gst_launch_path_update (\<lambda>_. v)),
       load_int L sec ''fsync_interval_sec'' (\<lambda>v. fsync_interval_sec_update (\<lambda>_. v))]"

definition load_section :: "string \<Rightarrow> table \<Rightarrow> (table \<Rightarrow> Config \<Rightarrow> Config) \<Rightarrow> Config \<Rightarrow> Config" where
  "load_section key t load cfg = (case as_table key t of None \<Rightarrow> cfg | Some sec \<Rightarrow> load sec cfg)"

text \<open>The section \<^verbatim>\<open>mavlink\<close> is read when there is no section \<^verbatim>\<open>transport\<close>.\<close>

definition load_transport :: "toml_lib \<Rightarrow> table \<Rightarrow> Config \<Rightarrow> Config" where
  "load_transport L t cfg =
     (case as_table ''transport'' t of
        Some sec \<Rightarrow> transport_update (loadTransportTable L sec) cfg
      | None \<Rightarrow> load_section ''mavlink'' t (\<lambda>sec. transport_update (loadTransportTable L sec)) cfg)"

text \<open>\<open>parse_file\<close> is the library's parser on the file; its exception leaves \<^verbatim>\<open>loadFromFile\<close>.\<close>

definition loadFromFile :: "toml_lib \<Rightarrow> (string \<Rightarrow> string + table) \<Rightarrow> string \<Rightarrow> string + Config" where
  "loadFromFile L parse_file path =
     (case parse_file path of
        Inl e \<Rightarrow> Inl e
      | Inr t \<Rightarrow> Inr (in_order
         [load_transport L t,
          load_section ''download'' t (\<lambda>sec. download_update (load_download L sec)),
          load_section ''storage'' t (\<lambda>sec. storage_update (load_storage L sec)),
          load_section ''logging'' t (\<lambda>sec. logging_update (load_logging L sec)),
          load_section ''companion'' t (\<lambda>sec cfg.
            companion_update (load_companion L sec) (cfg\<lparr>companion_table_present := True\<rparr>)),
          load_section ''recording'' t (\<lambda>sec. recording_update (load_recording L sec))] Config_default))"

section \<open>Properties\<close>

text \<open>What the library promises for a node of the asked type.\<close>

definition toml_exact :: "toml_lib \<Rightarrow> bool" where
  "toml_exact L \<longleftrightarrow> (\<forall>x. value_string L (Toml_string x) = Some x) \<and> (\<forall>i. value_int64 L (Toml_int i) = Some i) \<and>
     (\<forall>q. value_double L (Toml_float q) = Some q) \<and> (\<forall>b. value_bool L (Toml_bool b) = Some b)"

text \<open>The file that sets every key.\<close>

definition save_transport :: "TransportSettings \<Rightarrow> table" where
  "save_transport c =
     [(''transport'', Toml_string (ts_transport c)), (''host'', Toml_string (ts_host c)), (''port'', Toml_int (ts_port c)),
      (''bind_host'', Toml_string (ts_bind_host c)), (''bind_port'', Toml_int (ts_bind_port c)),
      (''heartbeat_timeout_sec'', Toml_int (heartbeat_timeout_sec c))]"

definition save_download :: "DownloadSettings \<Rightarrow> table" where
  "save_download c =
     [(''delay_after_disarm_sec'', Toml_int (delay_after_disarm_sec c)), (''enumerate_attempts'', Toml_int (enumerate_attempts c)),
      (''enumerate_retry_delay_sec'', Toml_int (enumerate_retry_delay_sec c)), (''download_timeout'', Toml_int (download_timeout_sec c)),
      (''retry_count'', Toml_int (retry_count c)), (''retry_delay'', Toml_int (retry_delay_sec c)),
      (''probe_bytes'', Toml_int (probe_bytes c)), (''verify_after_download'', Toml_bool (verify_after_download c)),
      (''erase_after_success'', Toml_bool (erase_after_success c)), (''stall_abort_attempts'', Toml_int (stall_abort_attempts c)),
      (''fc_busy_retry_attempts'', Toml_int (fc_busy_retry_attempts c)), (''fc_busy_retry_delay_sec'', Toml_int (fc_busy_retry_delay_sec c)),
      (''max_queued_log_data'', Toml_int (max_queued_log_data c)),
      (''reconnect_on_transport_failure'', Toml_bool (reconnect_on_transport_failure c)),
      (''reconnect_after_consecutive_failures'', Toml_int (reconnect_after_consecutive_failures c)),
      (''gap_fill_idle_ms'', Toml_int (gap_fill_idle_ms c)), (''verify_dataflash_parse'', Toml_bool (verify_dataflash_parse c)),
      (''verify_max_bad_header_ratio'', Toml_float (verify_max_bad_header_ratio c)),
      (''detect_overlap_conflict'', Toml_bool (detect_overlap_conflict c)), (''verify_fc_reread'', Toml_string (verify_fc_reread c)),
      (''verify_fc_reread_sample_count'', Toml_int (verify_fc_reread_sample_count c)),
      (''benchmark_download'', Toml_bool (benchmark_download c))]"

definition save_companion :: "CompanionSettings \<Rightarrow> table" where
  "save_companion c =
     [(''enabled'', Toml_bool (co_enabled c)), (''bind_host'', Toml_string (co_bind_host c)), (''bind_port'', Toml_int (co_bind_port c)),
      (''send_host'', Toml_string (send_host c)), (''send_port'', Toml_int (send_port c)), (''token'', Toml_string (token c)),
      (''max_request_bytes'', Toml_int (max_request_bytes c)), (''max_response_bytes'', Toml_int (max_response_bytes c)),
      (''max_fc_logs_per_response'', Toml_int (max_fc_logs_per_response c)),
      (''udp_proxy_keepalive_ms'', Toml_int (udp_proxy_keepalive_ms c))]"

definition save_recording :: "RecordingSettings \<Rightarrow> table" where
  "save_recording c =
     [(''enabled'', Toml_bool (re_enabled c)), (''mount_path'', Toml_string (mount_path c)), (''source_port'', Toml_int (source_port c)),
      (''rtp_payload_type'', Toml_int (rtp_payload_type c)), (''filename_prefix'', Toml_string (filename_prefix c)),
      (''gst_launch_path'', Toml_string (gst_launch_path c)), (''fsync_interval_sec'', Toml_int (fsync_interval_sec c))]"

definition save :: "Config \<Rightarrow> table" where
  "save c =
     [(''transport'', Toml_table (save_transport (transport c))), (''download'', Toml_table (save_download (download c))),
      (''storage'', Toml_table [(''directory'', Toml_string (st_directory (storage c))), (''max_size_gb'', Toml_int (max_size_gb (storage c)))]),
      (''logging'', Toml_table [(''verbose'', Toml_bool (verbose (logging c))), (''file'', Toml_string (lg_file (logging c)))]),
      (''companion'', Toml_table (save_companion (companion c))), (''recording'', Toml_table (save_recording (recording c)))]"

text \<open>The integers of a configuration, which are 32-bit in the program.\<close>

definition config_ints :: "Config \<Rightarrow> int list" where
  "config_ints c =
     [ts_port (transport c), ts_bind_port (transport c), heartbeat_timeout_sec (transport c),
      delay_after_disarm_sec (download c), enumerate_attempts (download c), enumerate_retry_delay_sec (download c),
      download_timeout_sec (download c), retry_count (download c), retry_delay_sec (download c), probe_bytes (download c),
      stall_abort_attempts (download c), fc_busy_retry_attempts (download c), fc_busy_retry_delay_sec (download c),
      max_queued_log_data (download c), reconnect_after_consecutive_failures (download c), gap_fill_idle_ms (download c),
      verify_fc_reread_sample_count (download c), max_size_gb (storage c), co_bind_port (companion c), send_port (companion c),
      max_request_bytes (companion c), max_response_bytes (companion c), max_fc_logs_per_response (companion c),
      udp_proxy_keepalive_ms (companion c), source_port (recording c), rtp_payload_type (recording c), fsync_interval_sec (recording c)]"

lemmas load_defs = in_order_def load_string_def load_int_def load_double_def load_bool_def toml_exact_def

lemma load_save_transport:
  assumes "toml_exact L" and "list_all in_int32 [ts_port c, ts_bind_port c, heartbeat_timeout_sec c]"
  shows "loadTransportTable L (save_transport c) d = c"
  using assms by (simp add: loadTransportTable_def save_transport_def load_defs)

lemma load_save_companion:
  assumes "toml_exact L" and "list_all in_int32 [co_bind_port c, send_port c, max_request_bytes c, max_response_bytes c,
     max_fc_logs_per_response c, udp_proxy_keepalive_ms c]"
  shows "load_companion L (save_companion c) d = c"
  using assms by (simp add: load_companion_def save_companion_def load_defs)

lemma load_save_recording:
  assumes "toml_exact L" and "list_all in_int32 [source_port c, rtp_payload_type c, fsync_interval_sec c]"
  shows "load_recording L (save_recording c) d = c"
  using assms by (simp add: load_recording_def save_recording_def load_defs)

lemma load_save_download:
  assumes "toml_exact L" and "list_all in_int32 [delay_after_disarm_sec c, enumerate_attempts c, enumerate_retry_delay_sec c,
      download_timeout_sec c, retry_count c, retry_delay_sec c, probe_bytes c, stall_abort_attempts c, fc_busy_retry_attempts c,
      fc_busy_retry_delay_sec c, max_queued_log_data c, reconnect_after_consecutive_failures c, gap_fill_idle_ms c,
      verify_fc_reread_sample_count c]"
  shows "load_download L (save_download c) d = c"
  using assms by (simp add: load_download_def save_download_def load_defs)

text \<open>
  (C23) Every setting can be set from the file: loading a file that sets each key to the value it has in
  a configuration, whose integers fit in 32 bits and whose companion section is present, gives exactly
  this configuration.
\<close>

theorem config_roundtrip:
  assumes "toml_exact L" and "list_all in_int32 (config_ints c)" and "companion_table_present c"
    and "parse_file path = Inr (save c)"
  shows "loadFromFile L parse_file path = Inr c"
proof -
  have t: "loadTransportTable L (save_transport (transport c)) x = transport c" for x
    using assms(1,2) by (intro load_save_transport) (simp_all add: config_ints_def)
  have d: "load_download L (save_download (download c)) x = download c" for x
    using assms(1,2) by (intro load_save_download) (simp_all add: config_ints_def)
  have co: "load_companion L (save_companion (companion c)) x = companion c" for x
    using assms(1,2) by (intro load_save_companion) (simp_all add: config_ints_def)
  have r: "load_recording L (save_recording (recording c)) x = recording c" for x
    using assms(1,2) by (intro load_save_recording) (simp_all add: config_ints_def)
  have "in_int32 (max_size_gb (storage c))" using assms(2) by (simp add: config_ints_def)
  then show ?thesis
    using assms(1,3,4) t d co r
    by (simp add: loadFromFile_def save_def load_transport_def load_section_def as_table_def load_storage_def
        load_logging_def load_defs)
qed

definition ex_toml_lib :: toml_lib where
  "ex_toml_lib =
     \<lparr>value_string = (\<lambda>n. case n of Toml_string x \<Rightarrow> Some x | _ \<Rightarrow> None),
      value_int64 = (\<lambda>n. case n of Toml_int i \<Rightarrow> Some i | _ \<Rightarrow> None),
      value_double = (\<lambda>n. case n of Toml_float q \<Rightarrow> Some q | _ \<Rightarrow> None),
      value_bool = (\<lambda>n. case n of Toml_bool b \<Rightarrow> Some b | _ \<Rightarrow> None)\<rparr>"

lemma ex_toml_exact: "toml_exact ex_toml_lib"
  by (simp add: toml_exact_def ex_toml_lib_def)

theorem config_roundtrip_witness:
  "loadFromFile ex_toml_lib (\<lambda>_. Inr (save (Config_default\<lparr>companion_table_present := True\<rparr>))) ''c.toml''
     = Inr (Config_default\<lparr>companion_table_present := True\<rparr>)"
  by (rule config_roundtrip [OF ex_toml_exact])
     (simp_all add: config_ints_def Config_default_def DownloadSettings_default_def in_int32_def)

text \<open>
  Keys that the file does not set keep their defaults: when none of the known sections is a table
  of the file, the configuration is the default one, and an exception of the parser leaves
  \<^verbatim>\<open>loadFromFile\<close>.
\<close>

theorem absent_sections_keep_defaults:
  assumes "list_all (\<lambda>key. as_table key t = None)
    [''transport'', ''mavlink'', ''download'', ''storage'', ''logging'', ''companion'', ''recording'']"
  shows "loadFromFile L (\<lambda>_. Inr t) path = Inr Config_default \<and> loadFromFile L (\<lambda>_. Inl e) path = Inl e"
  using assms by (simp add: loadFromFile_def load_transport_def load_section_def in_order_def)

theorem absent_sections_keep_defaults_witness:
  "loadFromFile ex_toml_lib (\<lambda>_. Inr [(''Download'', Toml_table [(''erase_after_success'', Toml_bool False)])]) ''c.toml''
     = Inr Config_default"
  using absent_sections_keep_defaults [of "[(''Download'', Toml_table [(''erase_after_success'', Toml_bool False)])]"
      ex_toml_lib "''c.toml''" "''''"]
  by (simp add: as_table_def)

text \<open>
  Integers that do not fit are reduced, not refused: a limit of 4294967296 GB in the file becomes a
  limit of 0 GB, with which every archive exceeds the storage limit.
\<close>

theorem oversized_limit_becomes_zero:
  assumes "toml_exact L" and "as_table ''storage'' t = Some [(''max_size_gb'', Toml_int 4294967296)]"
  shows "\<exists>c. loadFromFile L (\<lambda>_. Inr t) path = Inr c \<and> max_size_gb (storage c) = 0"
proof -
  have "to_int 4294967296 = 0" by (simp add: to_int_def)
  with assms have "load_storage L [(''max_size_gb'', Toml_int 4294967296)] s = s\<lparr>max_size_gb := 0\<rparr>" for s
    by (simp add: load_storage_def load_defs)
  with assms(2) show ?thesis
    by (auto simp: loadFromFile_def in_order_def load_section_def load_transport_def split: option.splits)
qed

theorem oversized_limit_becomes_zero_witness:
  "\<exists>c. loadFromFile ex_toml_lib (\<lambda>_. Inr [(''storage'', Toml_table [(''max_size_gb'', Toml_int 4294967296)])]) ''c.toml''
     = Inr c \<and> max_size_gb (storage c) = 0"
  by (rule oversized_limit_becomes_zero [OF ex_toml_exact]) (simp add: as_table_def)

end
