(* ===== verification/DownloaderHistory.thy ===== *)
theory DownloaderHistory
  imports StreamDownloadSession
begin

text \<open>
  How the state of the downloader evolves: every call of a session keeps the settings, consumes a
  prefix of the script, moves the clock forward only, and appends to the requests sent, among which
  there is never a \<open>LOG_ERASE\<close>.
\<close>

definition later :: "downloader \<Rightarrow> downloader \<Rightarrow> bool" where
  "later w w' \<longleftrightarrow> settings w' = settings w \<and> (\<exists>ts. script w = ts @ script w') \<and> clock w \<le> clock w' \<and>
     (\<exists>qs. sent w' = sent w @ qs \<and> LOG_ERASE \<notin> set qs)"

lemma later_refl [simp]: "later w w"
  by (simp add: later_def)

lemma later_trans: "later w w' \<Longrightarrow> later w' w'' \<Longrightarrow> later w w''"
  by (fastforce simp: later_def)

lemma later_settings: "later w w' \<Longrightarrow> settings w' = settings w"
  by (simp add: later_def)

lemma later_coming: "later w w' \<Longrightarrow> set (coming_msgs w') \<subseteq> set (coming_msgs w)"
  by (auto simp: later_def coming_msgs_def)

lemma later_script: "later w w' \<Longrightarrow> set (script w') \<subseteq> set (script w)"
  by (auto simp: later_def)

lemma later_same:
  assumes "settings w' = settings w" "script w' = script w" "clock w' = clock w" "sent w' = sent w"
  shows "later w w'"
  using assms by (simp add: later_def)

lemma later_updates [simp]:
  "later w (w\<lparr>pending_entries := es\<rparr>)" "later w (w\<lparr>data_chunks := cs\<rparr>)"
  "later w (w\<lparr>last_failure_reason := x\<rparr>)" "later w (w\<lparr>progress := p\<rparr>)" "later w (clearDataChunks w)"
  "later w (updateProgressBytes k w)" "later w (updateProgressEnd w)" "later w (updateProgressBegin i n w)"
  by (auto intro!: later_same simp: clearDataChunks_def updateProgressBytes_def updateProgressEnd_def
      updateProgressBegin_def Let_def)

lemma later_sendMessage: "q \<noteq> LOG_ERASE \<Longrightarrow> later w (snd (sendMessage q w))"
  by (auto simp: later_def sendMessage_def)

lemma later_requests [simp]:
  "later w (snd (requestLogData i ofs n w))" "later w (requestLogEnd w)" "later w (requestLogList w)"
  "later w (abortLogTransfer w)"
  by (auto simp: requestLogData_def requestLogEnd_def requestLogList_def abortLogTransfer_def
      intro: later_sendMessage later_trans [OF later_updates(5)])

lemma later_wait: "wait_tick w = Some w' \<Longrightarrow> later w w'"
  by (auto simp: later_def dest!: wait_tick_SomeD)

lemma later_sleep_loop: "sleep_loop n w = Some w' \<Longrightarrow> later w w'"
proof (induction n w rule: sleep_loop.induct)
  case (1 n w)
  from 1(2) show ?case
    using 1(1)
    by (subst (asm) sleep_loop.simps) (auto split: if_splits option.splits intro: later_trans [OF later_wait])
qed

lemma later_drain: "drainLogDataChunks i w = (cs, w') \<Longrightarrow> later w w'"
  by (auto simp: drainLogDataChunks_eq)

lemma later_processQueuedChunks: "processQueuedChunks p disk s w = (ok, s', w') \<Longrightarrow> later w w'"
  by (auto simp: processQueuedChunks_def Let_def dest: later_drain split: prod.splits)

lemma later_request_span:
  assumes "request_span i a e w = Some w'"
  shows "later w w'"
proof (rule request_span.raw_induct [OF _ assms], goal_cases)
  case (1 rec i a e w w')
  show ?case
  proof (cases "a < e")
    case True
    with 1(2) obtain co where
      "rec i (a + min (min (e - a) co) kLogStreamRequestCount) e
         (snd (requestLogData i a (min (min (e - a) co) kLogStreamRequestCount) w)) = Some w'"
      by (auto simp: Let_def bind_eq_Some_conv)
    from 1(1) [OF this] show ?thesis
      using later_requests(1) later_trans by blast
  next
    case False
    with 1(2) show ?thesis by simp
  qed
qed

lemma later_request_gaps: "request_gaps i gs w = Some w' \<Longrightarrow> later w w'"
proof (induction i gs w rule: request_gaps.induct)
  case (2 i a n gs w)
  show ?case
  proof (cases "n = 0")
    case True
    with 2 show ?thesis by simp
  next
    case False
    with 2(3) obtain w1 where w1: "request_span i (gap_start a n) (a + n) w = Some w1"
      "request_gaps i gs w1 = Some w'" by (auto simp: bind_eq_Some_conv)
    with 2(2) [OF False] later_request_span show ?thesis
      using later_trans by blast
  qed
qed simp

lemma later_note_progress: "note_progress r w = (r', w') \<Longrightarrow> later w w'"
  by (auto simp: note_progress_def Let_def split: if_splits)

lemma later_fill_gaps: "fill_gaps p rc r w = Some (r', w') \<Longrightarrow> later w w'"
  by (auto simp: fill_gaps_def requestMergedGaps_def Let_def bind_eq_Some_conv
      dest: later_request_gaps split: if_splits)

lemma later_stream_iter:
  assumes "stream_iter p disk r w = Some x"
  shows "case x of Inl (_, _, w') \<Rightarrow> later w w' | Inr (_, w') \<Rightarrow> later w w'"
proof -
  obtain ok s w1 where q: "processQueuedChunks p disk (rs_session r) w = (ok, s, w1)"
    by (cases "processQueuedChunks p disk (rs_session r) w") auto
  obtain r2 w2 where n: "note_progress (r\<lparr>rs_session := s\<rparr>) w1 = (r2, w2)"
    by fastforce
  have "later w w1" and "later w w2"
    using later_processQueuedChunks [OF q] later_note_progress [OF n] later_trans by blast+
  then show ?thesis
    using assms
    by (auto simp: stream_iter_def q n Let_def bind_eq_Some_conv split: if_splits sum.splits
        dest!: later_fill_gaps intro: later_trans)
qed

lemma later_stream_loop: "stream_loop p disk r w = Some (e, r', w') \<Longrightarrow> later w w'"
proof (induction p disk r w rule: stream_loop.induct)
  case (1 p disk r w)
  show ?case
  proof (cases "cancelled w")
    case True
    with "1.prems" show ?thesis by (simp add: stream_loop.simps [of p disk r w])
  next
    case False
    note u = "1.prems" [unfolded stream_loop.simps [of p disk r w]]
    show ?thesis
    proof (cases "stream_iter p disk r w")
      case None
      with u False show ?thesis by simp
    next
      case (Some x)
      note it = later_stream_iter [OF Some]
      show ?thesis
      proof (cases x)
        case (Inl y)
        with u False Some it show ?thesis by (cases y) auto
      next
        case (Inr y)
        obtain r1 w1 where y: "y = (r1, w1)" by fastforce
        with u False Some Inr obtain w2 where w2: "wait_tick w1 = Some w2" "stream_loop p disk r1 w2 = Some (e, r', w')"
          by (auto split: option.splits)
        from "1.IH" [OF False Some Inr y [symmetric] w2(1) w2(2)] show ?thesis
          using it Inr y later_wait [OF w2(1)] later_trans by auto
      qed
    qed
  qed
qed

lemma later_start_attempt: "start_attempt p k r w = (r', w') \<Longrightarrow> later w w'"
  by (auto simp: start_attempt_def Let_def split: if_splits)

lemma later_after_stop:
  assumes "after_stop cfg k before z r w = Some x"
  shows "case x of Inl (_, _, w') \<Rightarrow> later w w' | Inr (_, _, w') \<Rightarrow> later w w'"
proof -
  have cl: "later w (requestLogEnd (clearDataChunks w))"
    using later_updates(5) later_requests(2) later_trans by blast
  show ?thesis
    using assms cl
    by (auto simp: after_stop_def Let_def interruptibleSleep_def bind_eq_Some_conv split: if_splits
        dest!: later_sleep_loop later_wait intro: later_trans)
qed

lemma later_attempt_body:
  assumes "attempt_body p disk cfg k r w = Some x"
  shows "case x of Inl (_, _, w') \<Rightarrow> later w w' | Inr (_, _, w') \<Rightarrow> later w w'"
proof (cases "cancelled w")
  case True
  with assms show ?thesis by (auto simp: attempt_body_def)
next
  case False
  obtain r0 w0 where st: "start_attempt p k r w = (r0, w0)" by fastforce
  with assms False obtain e r1 w1 where sl: "stream_loop p disk r0 w0 = Some (e, r1, w1)"
    by (auto simp: attempt_body_def Let_def bind_eq_Some_conv)
  have l: "later w w1"
    using later_start_attempt [OF st] later_stream_loop [OF sl] later_trans by blast
  show ?thesis
  proof (cases e)
    case Stopped
    with assms False st sl have "after_stop cfg k (bytesReceived (s_ranges (rs_session r)))
        (zero_length_data_count w) r1 w1 = Some x"
      by (auto simp: attempt_body_def Let_def)
    from later_after_stop [OF this] l show ?thesis
      by (auto split: sum.splits intro: later_trans)
  qed (use assms False st sl l in \<open>auto simp: attempt_body_def Let_def\<close>)
qed

lemma later_attempt_loop: "attempt_loop p disk cfg k r w = Some (e, r', w') \<Longrightarrow> later w w'"
proof (induction p disk cfg k r w rule: attempt_loop.induct)
  case (1 p disk cfg k r w)
  note u = "1.prems" [unfolded attempt_loop.simps [of p disk cfg k r w]]
  show ?case
  proof (cases "retry_count cfg < k")
    case True
    with u show ?thesis by simp
  next
    case False
    with u obtain x where x: "attempt_body p disk cfg k r w = Some x" by (cases "attempt_body p disk cfg k r w") auto
    note b = later_attempt_body [OF x]
    show ?thesis
    proof (cases x)
      case (Inl y)
      with u False x b show ?thesis by (cases y) auto
    next
      case (Inr y)
      obtain k1 r1 w1 where y: "y = (k1, r1, w1)" by (cases y) auto
      with u False x Inr have "attempt_loop p disk cfg k1 r1 w1 = Some (e, r', w')" by auto
      from "1.IH" [OF False x Inr y [symmetric] refl this] show ?thesis
        using b Inr y later_trans by auto
    qed
  qed
qed

lemma later_run: "run p disk f w = Some (res, f', w') \<Longrightarrow> later w w'"
  by (auto simp: run_def bind_eq_Some_conv split: if_splits dest!: later_attempt_loop
      intro: later_trans [OF later_updates(5)])

end
