(* ===== verification/DataFlashValidator.thy ===== *)
theory DataFlashValidator
  imports Prelude
begin

text \<open>
  \<^verbatim>\<open>DataFlashValidator.cpp\<close>: the structural check of a downloaded DataFlash log. A buffer is a list
  of bytes, the array of 256 formats indexed by a byte a function \<open>u8 \<Rightarrow> u8 option\<close> (the length of a
  defined format); the tests \<^verbatim>\<open>type < kMaxFormatTypes\<close> hold for every byte. A \<^verbatim>\<open>double\<close> is a \<open>rat\<close>.
  The check is proved equivalent to a grammar of FMT records and messages of declared length.
\<close>

section \<open>Model\<close>

record DataFlashValidationResult =
  df_ok :: bool
  df_bytes_scanned :: u64
  df_resync_count :: u32
  df_bad_message_count :: u32
  df_error :: string

definition DataFlashValidationResult_new :: DataFlashValidationResult where
  "DataFlashValidationResult_new =
     \<lparr>df_ok = False, df_bytes_scanned = 0, df_resync_count = 0, df_bad_message_count = 0, df_error = []\<rparr>"

definition kHeadByte1 :: u8 where "kHeadByte1 = 0xA3"
definition kHeadByte2 :: u8 where "kHeadByte2 = 0x95"
definition kLogFormatType :: u8 where "kLogFormatType = 0x80"
definition kFmtSize :: nat where "kFmtSize = 3 + 1 + 1 + 4 + 16 + 64"

lemmas head_defs = kHeadByte1_def kHeadByte2_def kLogFormatType_def kFmtSize_def

definition count_resync :: "DataFlashValidationResult \<Rightarrow> DataFlashValidationResult" where
  "count_resync r = r\<lparr>df_resync_count := df_resync_count r + 1\<rparr>"

definition count_bad :: "DataFlashValidationResult \<Rightarrow> DataFlashValidationResult" where
  "count_bad r = r\<lparr>df_bad_message_count := df_bad_message_count r + 1\<rparr>"

function validate_loop ::
  "bytes \<Rightarrow> nat \<Rightarrow> (u8 \<Rightarrow> u8 option) \<Rightarrow> bool \<Rightarrow> DataFlashValidationResult \<Rightarrow> DataFlashValidationResult" where
  "validate_loop data pos formats have_fmt r =
     (if length data < pos + 3 then
        if \<not> have_fmt then r\<lparr>df_error := ''no FMT bootstrap found''\<rparr> else r\<lparr>df_ok := True\<rparr>
      else if data ! pos \<noteq> kHeadByte1 \<or> data ! (pos + 1) \<noteq> kHeadByte2 then
        validate_loop data (pos + 1) formats have_fmt (count_resync r)
      else if data ! (pos + 2) = kLogFormatType then
        if length data < pos + kFmtSize then
          r\<lparr>df_error := ''truncated FMT message'', df_bytes_scanned := of_nat pos\<rparr>
        else validate_loop data (pos + kFmtSize) (formats(data ! (pos + 3) := Some (data ! (pos + 4)))) True
               (r\<lparr>df_bytes_scanned := of_nat (pos + kFmtSize)\<rparr>)
      else if \<not> have_fmt then
        validate_loop data (pos + 1) formats have_fmt (count_resync r)
      else case formats (data ! (pos + 2)) of
        None \<Rightarrow> validate_loop data (pos + 1) formats have_fmt (count_resync (count_bad r))
      | Some msg_len \<Rightarrow>
          if msg_len < 3 then validate_loop data (pos + 1) formats have_fmt (count_bad r)
          else if length data < pos + unat msg_len then
            r\<lparr>df_error := ''message extends past end of file'', df_bytes_scanned := of_nat pos\<rparr>
          else validate_loop data (pos + unat msg_len) formats have_fmt
                 (r\<lparr>df_bytes_scanned := of_nat (pos + unat msg_len)\<rparr>))"
  by pat_completeness auto
termination
  by (relation "measure (\<lambda>(data, pos, formats, have_fmt, r). length data - pos)")
    (auto simp: kFmtSize_def word_less_nat_alt)

declare validate_loop.simps [simp del]

definition validateBytes :: "bytes \<Rightarrow> DataFlashValidationResult" where
  "validateBytes data =
     (if data = [] then DataFlashValidationResult_new\<lparr>df_error := ''empty buffer''\<rparr>
      else validate_loop data 0 (\<lambda>_. None) False DataFlashValidationResult_new)"

definition dataFlashResyncRatioExceeded :: "DataFlashValidationResult \<Rightarrow> u32 \<Rightarrow> rat \<Rightarrow> bool" where
  "dataFlashResyncRatioExceeded result file_size max_ratio \<longleftrightarrow>
     file_size \<noteq> 0 \<and> of_nat (unat (df_resync_count result)) / of_nat (unat file_size) > max_ratio"

definition validateDataFlashBuffer :: "bytes \<Rightarrow> DataFlashValidationResult" where
  "validateDataFlashBuffer data = validateBytes data"

text \<open>A file that cannot be opened, whose size cannot be read, or that cannot be read in full.\<close>

datatype file_read = Open_failed | Stat_failed | Read_failed | Contents bytes

fun validateDataFlashFile :: "file_read \<Rightarrow> DataFlashValidationResult" where
  "validateDataFlashFile Open_failed = DataFlashValidationResult_new\<lparr>df_error := ''failed to open file''\<rparr>"
| "validateDataFlashFile Stat_failed = DataFlashValidationResult_new\<lparr>df_error := ''failed to stat file''\<rparr>"
| "validateDataFlashFile Read_failed = DataFlashValidationResult_new\<lparr>df_error := ''failed to read file''\<rparr>"
| "validateDataFlashFile (Contents data) = validateBytes data"

section \<open>The grammar of a DataFlash log\<close>

text \<open>An FMT record declares the length of a message type; a message has the declared length.\<close>

datatype df_item = Fmt u8 u8 bytes | Msg u8 bytes

fun item_bytes :: "df_item \<Rightarrow> bytes" where
  "item_bytes (Fmt t l rest) = [0xA3, 0x95, 0x80, t, l] @ rest"
| "item_bytes (Msg t body) = [0xA3, 0x95, t] @ body"

fun item_formats :: "df_item \<Rightarrow> (u8 \<Rightarrow> u8 option) \<Rightarrow> (u8 \<Rightarrow> u8 option)" where
  "item_formats (Fmt t l rest) fs = fs(t := Some l)"
| "item_formats (Msg t body) fs = fs"

fun item_ok :: "(u8 \<Rightarrow> u8 option) \<Rightarrow> bool \<Rightarrow> df_item \<Rightarrow> bool" where
  "item_ok fs have_fmt (Fmt t l rest) \<longleftrightarrow> length rest = 84"
| "item_ok fs have_fmt (Msg t body) \<longleftrightarrow>
     have_fmt \<and> t \<noteq> 0x80 \<and> (case fs t of None \<Rightarrow> False | Some l \<Rightarrow> unat l = 3 + length body)"

fun is_fmt :: "df_item \<Rightarrow> bool" where
  "is_fmt (Fmt t l rest) = True"
| "is_fmt (Msg t body) = False"

fun items_ok :: "(u8 \<Rightarrow> u8 option) \<Rightarrow> bool \<Rightarrow> df_item list \<Rightarrow> bool" where
  "items_ok fs have_fmt [] \<longleftrightarrow> True"
| "items_ok fs have_fmt (x # xs) \<longleftrightarrow>
     item_ok fs have_fmt x \<and> items_ok (item_formats x fs) (have_fmt \<or> is_fmt x) xs"

definition encode :: "df_item list \<Rightarrow> bytes" where
  "encode xs = concat (map item_bytes xs)"

definition wf_log :: "df_item list \<Rightarrow> bool" where
  "wf_log xs \<longleftrightarrow> xs \<noteq> [] \<and> items_ok (\<lambda>_. None) False xs"

lemma encode_simps [simp]: "encode [] = []" "encode (x # xs) = item_bytes x @ encode xs"
  by (simp_all add: encode_def)

text \<open>One well-formed item is consumed in one step.\<close>

lemma validate_loop_item:
  assumes "drop pos data = item_bytes x @ rest" and "item_ok fs have_fmt x"
  shows "validate_loop data pos fs have_fmt r =
         validate_loop data (pos + length (item_bytes x)) (item_formats x fs) (have_fmt \<or> is_fmt x)
           (r\<lparr>df_bytes_scanned := of_nat (pos + length (item_bytes x))\<rparr>)"
proof -
  have nth: "data ! (pos + i) = (item_bytes x @ rest) ! i" if "i < length (item_bytes x @ rest)" for i
    using assms(1) that by (metis length_drop less_imp_le_nat nat_le_linear nth_drop diff_is_0_eq' not_less_zero)
  have len: "length data - pos = length (item_bytes x @ rest)"
    using assms(1) by (metis length_drop)
  show ?thesis
  proof (cases x)
    case (Fmt t l tl)
    then have "\<not> length data < pos + 89" using assms(2) len by auto
    moreover have "data ! pos = 0xA3" "data ! (pos + 1) = 0x95" "data ! (pos + 2) = 0x80"
      "data ! (pos + 3) = t" "data ! (pos + 4) = l"
      using nth [of 0] nth [of 1] nth [of 2] nth [of 3] nth [of 4] Fmt by (auto simp: numeral_eq_Suc)
    ultimately show ?thesis
      using Fmt assms(2) by (subst validate_loop.simps) (auto simp: head_defs)
  next
    case (Msg t body)
    with assms(2) obtain l where l: "fs t = Some l" "unat l = 3 + length body" "have_fmt" "t \<noteq> 0x80"
      by (auto split: option.splits)
    then have "\<not> length data < pos + unat l" "\<not> l < 3" using len Msg by (auto simp: word_less_nat_alt)
    moreover have "data ! pos = 0xA3" "data ! (pos + 1) = 0x95" "data ! (pos + 2) = t"
      using nth [of 0] nth [of 1] nth [of 2] Msg by (auto simp: numeral_eq_Suc)
    ultimately show ?thesis
      using Msg l by (subst validate_loop.simps) (auto simp: head_defs ac_simps eval_nat_numeral)
  qed
qed

fun items_formats :: "df_item list \<Rightarrow> (u8 \<Rightarrow> u8 option) \<Rightarrow> (u8 \<Rightarrow> u8 option)" where
  "items_formats [] fs = fs"
| "items_formats (x # xs) fs = items_formats xs (item_formats x fs)"

lemma validate_loop_items:
  assumes "drop pos data = encode xs @ rest" and "items_ok fs have_fmt xs" and "xs \<noteq> []"
  shows "validate_loop data pos fs have_fmt r =
         validate_loop data (pos + length (encode xs)) (items_formats xs fs) (have_fmt \<or> list_ex is_fmt xs)
           (r\<lparr>df_bytes_scanned := of_nat (pos + length (encode xs))\<rparr>)"
  using assms
proof (induction xs arbitrary: pos fs have_fmt r)
  case (Cons x xs)
  have "drop pos data = item_bytes x @ encode xs @ rest" using Cons.prems(1) by simp
  note step = validate_loop_item [OF this, of fs have_fmt r]
  show ?case
  proof (cases "xs = []")
    case True
    with step Cons.prems show ?thesis by simp
  next
    case False
    have "drop (pos + length (item_bytes x)) data = encode xs @ rest"
      using arg_cong [OF Cons.prems(1), of "drop (length (item_bytes x))"] by (simp add: add.commute)
    from Cons.IH [OF this _ False] step Cons.prems show ?thesis
      by (simp add: add.assoc disj_assoc)
  qed
qed simp

text \<open>The first item of a well-formed log is an FMT record.\<close>

lemma wf_log_fmt: "wf_log xs \<Longrightarrow> list_ex is_fmt xs"
  by (cases xs; cases "hd xs") (auto simp: wf_log_def)

lemma validate_loop_wf_log:
  assumes "wf_log xs"
  shows "validate_loop (encode xs @ rest) 0 (\<lambda>_. None) False r =
         validate_loop (encode xs @ rest) (length (encode xs)) (items_formats xs (\<lambda>_. None)) True
           (r\<lparr>df_bytes_scanned := of_nat (length (encode xs))\<rparr>)"
  using validate_loop_items [of 0 "encode xs @ rest" xs rest "\<lambda>_. None" False r] assms wf_log_fmt [OF assms]
  by (simp add: wf_log_def)

text \<open>The counters only grow, and by at most one per byte.\<close>

definition no_overflow :: "bytes \<Rightarrow> nat \<Rightarrow> DataFlashValidationResult \<Rightarrow> bool" where
  "no_overflow data pos r \<longleftrightarrow>
     unat (df_resync_count r) + (length data - pos) < 4294967296 \<and>
     unat (df_bad_message_count r) + (length data - pos) < 4294967296"

lemma unat_inc: "unat (n :: u32) + k < 4294967296 \<Longrightarrow> 0 < k \<Longrightarrow> unat (n + 1) = unat n + 1"
  using unat_u32_add [of n 1] by simp

lemma count_no_overflow:
  assumes "no_overflow data pos r" and "pos + 3 \<le> length data"
  shows "no_overflow data (pos + 1) (count_resync r)" "no_overflow data (pos + 1) (count_bad r)"
    "no_overflow data (pos + 1) (count_resync (count_bad r))"
    "unat (df_resync_count (count_resync r)) = unat (df_resync_count r) + 1"
    "unat (df_bad_message_count (count_bad r)) = unat (df_bad_message_count r) + 1"
  using assms unat_inc [of "df_resync_count r" "length data - pos"]
    unat_inc [of "df_bad_message_count r" "length data - pos"]
  by (auto simp: no_overflow_def count_resync_def count_bad_def)

text \<open>
  What one iteration does, as a case distinction: the loop ends, a byte is skipped and counted, or an
  item of the grammar is consumed.
\<close>

definition skip_ok :: "DataFlashValidationResult \<Rightarrow> DataFlashValidationResult \<Rightarrow> bool" where
  "skip_ok r r' \<longleftrightarrow> r' = count_resync r \<or> r' = count_bad r \<or> r' = count_resync (count_bad r)"

lemma drop3: "pos + 3 \<le> length data \<Longrightarrow>
  drop pos data = [data ! pos, data ! (pos + 1), data ! (pos + 2)] @ drop (pos + 3) data"
  by (simp add: Cons_nth_drop_Suc numeral_eq_Suc)

lemma drop_take_split: "drop pos data = take n (drop pos data) @ drop (pos + n) data"
  by (metis append_take_drop_id add.commute drop_drop)

lemma item_at:
  assumes "pos + 3 \<le> length data" "data ! pos = kHeadByte1" "data ! (pos + 1) = kHeadByte2"
  shows "data ! (pos + 2) = kLogFormatType \<Longrightarrow> pos + kFmtSize \<le> length data \<Longrightarrow>
      \<exists>x. drop pos data = item_bytes x @ drop (pos + length (item_bytes x)) data \<and>
        item_ok fs have_fmt x \<and> pos + length (item_bytes x) \<le> length data"
    and "data ! (pos + 2) \<noteq> kLogFormatType \<Longrightarrow> have_fmt \<Longrightarrow> fs (data ! (pos + 2)) = Some l \<Longrightarrow>
      \<not> l < 3 \<Longrightarrow> pos + unat l \<le> length data \<Longrightarrow>
      \<exists>x. drop pos data = item_bytes x @ drop (pos + length (item_bytes x)) data \<and>
        item_ok fs have_fmt x \<and> pos + length (item_bytes x) \<le> length data"
proof -
  assume a: "data ! (pos + 2) = kLogFormatType" "pos + kFmtSize \<le> length data"
  let ?x = "Fmt (data ! (pos + 3)) (data ! (pos + 4)) (take 84 (drop (pos + 5) data))"
  have "drop (pos + 3) data = [data ! (pos + 3), data ! (pos + 4)] @ drop (pos + 5) data"
    using a(2) by (simp add: Cons_nth_drop_Suc numeral_eq_Suc kFmtSize_def)
  then have "drop pos data = item_bytes ?x @ drop (pos + 89) data"
    using drop3 [OF assms(1)] a(1) assms(2,3) drop_take_split [of "pos + 5" data 84]
    by (simp add: head_defs add.assoc)
  then show "\<exists>x. drop pos data = item_bytes x @ drop (pos + length (item_bytes x)) data \<and>
        item_ok fs have_fmt x \<and> pos + length (item_bytes x) \<le> length data"
    using a(2) by (intro exI [of _ ?x]) (simp add: kFmtSize_def)
next
  assume a: "data ! (pos + 2) \<noteq> kLogFormatType" "have_fmt" "fs (data ! (pos + 2)) = Some l"
    "\<not> l < 3" "pos + unat l \<le> length data"
  let ?x = "Msg (data ! (pos + 2)) (take (unat l - 3) (drop (pos + 3) data))"
  have l: "3 \<le> unat l" using a(4) by (simp add: word_less_nat_alt)
  have len: "length (item_bytes ?x) = unat l" using l a(5) assms(1) by simp
  have "drop pos data = item_bytes ?x @ drop (pos + unat l) data"
    using drop3 [OF assms(1)] assms(2,3) drop_take_split [of "pos + 3" data "unat l - 3"] l
    by (simp add: head_defs)
  then show "\<exists>x. drop pos data = item_bytes x @ drop (pos + length (item_bytes x)) data \<and>
        item_ok fs have_fmt x \<and> pos + length (item_bytes x) \<le> length data"
    using a l len by (intro exI [of _ ?x]) (simp add: head_defs)
qed

lemma validate_loop_cases:
  assumes "\<not> df_ok r"
  obtains (ended) r' where "validate_loop data pos fs have_fmt r = r'"
      "df_ok r' \<Longrightarrow> length data < pos + 3 \<and> have_fmt"
      "df_resync_count r' = df_resync_count r" "df_bad_message_count r' = df_bad_message_count r"
  | (skipped) r' where "pos + 3 \<le> length data" "skip_ok r r'"
      "validate_loop data pos fs have_fmt r = validate_loop data (pos + 1) fs have_fmt r'"
  | (item) x where "drop pos data = item_bytes x @ drop (pos + length (item_bytes x)) data"
      "item_ok fs have_fmt x" "pos + length (item_bytes x) \<le> length data"
proof -
  note u = validate_loop.simps [of data pos fs have_fmt r]
  consider (short) "length data < pos + 3"
    | (head) "\<not> length data < pos + 3" "data ! pos \<noteq> kHeadByte1 \<or> data ! (pos + 1) \<noteq> kHeadByte2"
    | (msg) "\<not> length data < pos + 3" "data ! pos = kHeadByte1" "data ! (pos + 1) = kHeadByte2"
    by blast
  then show thesis
  proof cases
    case short
    then show ?thesis by (intro ended [OF refl]) (use u assms in \<open>auto split: if_splits\<close>)
  next
    case head
    then show ?thesis using u skipped [of "count_resync r"] by (auto simp: skip_ok_def)
  next
    case msg
    then have m: "pos + 3 \<le> length data" by simp
    note at = item_at [OF m msg(2,3)]
    show ?thesis
    proof (cases "data ! (pos + 2) = kLogFormatType")
      case True
      then show ?thesis
        using u msg assms at(1) [OF True] item ended [of "validate_loop data pos fs have_fmt r"]
        by (cases "length data < pos + kFmtSize") auto
    next
      case False
      show ?thesis
      proof (cases "have_fmt \<and> (\<exists>l. fs (data ! (pos + 2)) = Some l \<and> \<not> l < 3)")
        case True
        then obtain l where "have_fmt" "fs (data ! (pos + 2)) = Some l" "\<not> l < 3" by blast
        note l = this
        show ?thesis
        proof (cases "length data < pos + unat l")
          case True
          then show ?thesis by (intro ended [OF refl]) (use u msg assms False l in auto)
        next
          case fits: False
          with at(2) [OF False, of have_fmt fs l] l item show ?thesis by auto
        qed
      next
        case no: False
        have "\<exists>r'. skip_ok r r' \<and>
            validate_loop data pos fs have_fmt r = validate_loop data (pos + 1) fs have_fmt r'"
          using u msg m False no unfolding skip_ok_def
          by (cases have_fmt; cases "fs (data ! (pos + 2))") auto
        with m skipped show ?thesis by blast
      qed
    qed
  qed
qed

lemma item_bytes_pos: "0 < length (item_bytes x)"
  by (cases x) simp_all

lemma skip_counts:
  assumes "skip_ok r r'" and "no_overflow data pos r" and "pos + 3 \<le> length data"
  shows "no_overflow data (pos + 1) r'"
    and "unat (df_resync_count r) \<le> unat (df_resync_count r')"
    and "unat (df_bad_message_count r) \<le> unat (df_bad_message_count r')"
    and "unat (df_resync_count r') \<le> unat (df_resync_count r) + 1"
    and "unat (df_resync_count r) + unat (df_bad_message_count r)
         < unat (df_resync_count r') + unat (df_bad_message_count r')"
    and "df_ok r' = df_ok r"
  using assms(1) count_no_overflow [OF assms(2,3)]
  by (auto simp: skip_ok_def) (auto simp: count_resync_def count_bad_def)

lemma validate_loop_counts:
  assumes "\<not> df_ok r" and "no_overflow data pos r"
  shows "unat (df_resync_count r) \<le> unat (df_resync_count (validate_loop data pos fs have_fmt r)) \<and>
         unat (df_bad_message_count r) \<le> unat (df_bad_message_count (validate_loop data pos fs have_fmt r)) \<and>
         unat (df_resync_count (validate_loop data pos fs have_fmt r))
           \<le> unat (df_resync_count r) + (length data - pos)"
  using assms
proof (induction "length data - pos" arbitrary: pos fs have_fmt r rule: less_induct)
  case less
  from less.prems(1) show ?case
  proof (cases rule: validate_loop_cases [where data = data and pos = pos and fs = fs and have_fmt = have_fmt])
    case ended
    then show ?thesis by simp
  next
    case (skipped r')
    note k = skip_counts [OF skipped(2) less.prems(2) skipped(1)]
    have "length data - (pos + 1) < length data - pos" using skipped(1) by simp
    from less.hyps [OF this _ k(1), of fs have_fmt] k(2-4,6) skipped(1,3) less.prems(1)
    show ?thesis by auto
  next
    case (item x)
    let ?r = "r\<lparr>df_bytes_scanned := of_nat (pos + length (item_bytes x))\<rparr>"
    have "no_overflow data (pos + length (item_bytes x)) ?r"
      using less.prems(2) by (auto simp: no_overflow_def)
    moreover have "length data - (pos + length (item_bytes x)) < length data - pos"
      using item(3) item_bytes_pos [of x] by linarith
    ultimately show ?thesis
      using less.hyps [of "pos + length (item_bytes x)" ?r "item_formats x fs" "have_fmt \<or> is_fmt x"]
        less.prems(1) validate_loop_item [OF item(1,2), of r] item(3) by auto
  qed
qed

lemma validate_loop_sound:
  assumes "\<not> df_ok r" and "no_overflow data pos r" and "df_ok (validate_loop data pos fs have_fmt r)"
    and "df_resync_count (validate_loop data pos fs have_fmt r) = df_resync_count r"
    and "df_bad_message_count (validate_loop data pos fs have_fmt r) = df_bad_message_count r"
  shows "\<exists>xs tl. drop pos data = encode xs @ tl \<and> length tl < 3 \<and> items_ok fs have_fmt xs \<and>
           (have_fmt \<or> list_ex is_fmt xs)"
  using assms
proof (induction "length data - pos" arbitrary: pos fs have_fmt r rule: less_induct)
  case less
  from less.prems(1) show ?case
  proof (cases rule: validate_loop_cases [where data = data and pos = pos and fs = fs and have_fmt = have_fmt])
    case ended
    then show ?thesis using less.prems(3)
      by (intro exI [of _ "[]"] exI [of _ "drop pos data"]) auto
  next
    case (skipped r')
    note k = skip_counts [OF skipped(2) less.prems(2) skipped(1)]
    from validate_loop_counts [OF _ k(1), of fs have_fmt] k(5,6) skipped(3) less.prems(1,4,5)
    show ?thesis by simp
  next
    case (item x)
    let ?r = "r\<lparr>df_bytes_scanned := of_nat (pos + length (item_bytes x))\<rparr>"
    have "no_overflow data (pos + length (item_bytes x)) ?r"
      using less.prems(2) by (auto simp: no_overflow_def)
    moreover have "length data - (pos + length (item_bytes x)) < length data - pos"
      using item(3) item_bytes_pos [of x] by linarith
    ultimately
    obtain xs tl where xs: "drop (pos + length (item_bytes x)) data = encode xs @ tl" "length tl < 3"
      "items_ok (item_formats x fs) (have_fmt \<or> is_fmt x) xs" "(have_fmt \<or> is_fmt x) \<or> list_ex is_fmt xs"
      using less.hyps [of "pos + length (item_bytes x)" ?r "item_formats x fs" "have_fmt \<or> is_fmt x"]
        less.prems validate_loop_item [OF item(1,2), of r] by auto
    then show ?thesis using item(1,2)
      by (intro exI [of _ "x # xs"] exI [of _ tl]) auto
  qed
qed

section \<open>Properties\<close>

text \<open>
  (C15) The validator accepts exactly the DataFlash grammar: for a buffer of less than 2^32 bytes,
  \<open>validateBytes\<close> reports success without a resync and without a bad message exactly when the buffer
  is a sequence of FMT records and messages that have the length declared by an earlier FMT record,
  starting with an FMT record, followed by at most two stray bytes.
\<close>

theorem validator_accepts_exactly_grammar:
  assumes "length data < 4294967296"
  shows "df_ok (validateBytes data) \<and> df_resync_count (validateBytes data) = 0 \<and>
         df_bad_message_count (validateBytes data) = 0 \<longleftrightarrow>
         (\<exists>xs tl. wf_log xs \<and> data = encode xs @ tl \<and> length tl < 3)"
proof
  assume a: "df_ok (validateBytes data) \<and> df_resync_count (validateBytes data) = 0 \<and>
         df_bad_message_count (validateBytes data) = 0"
  then have "data \<noteq> []" by (auto simp: validateBytes_def DataFlashValidationResult_new_def)
  with a validate_loop_sound [of DataFlashValidationResult_new data 0 "\<lambda>_. None" False] assms
  obtain xs tl where "data = encode xs @ tl" "length tl < 3" "items_ok (\<lambda>_. None) False xs" "list_ex is_fmt xs"
    by (auto simp: validateBytes_def no_overflow_def DataFlashValidationResult_new_def)
  then show "\<exists>xs tl. wf_log xs \<and> data = encode xs @ tl \<and> length tl < 3"
    by (intro exI [of _ xs] exI [of _ tl]) (auto simp: wf_log_def)
next
  assume "\<exists>xs tl. wf_log xs \<and> data = encode xs @ tl \<and> length tl < 3"
  then obtain xs tl where x: "wf_log xs" "data = encode xs @ tl" "length tl < 3" by blast
  then have "data \<noteq> []" using item_bytes_pos by (cases xs) (auto simp: wf_log_def)
  with x validate_loop_wf_log [OF x(1), of tl DataFlashValidationResult_new]
  show "df_ok (validateBytes data) \<and> df_resync_count (validateBytes data) = 0 \<and>
         df_bad_message_count (validateBytes data) = 0"
    by (simp add: validateBytes_def validate_loop.simps [of _ "length (encode xs)"]
        DataFlashValidationResult_new_def)
qed

definition ex_fmt :: df_item where "ex_fmt = Fmt 42 5 (replicate 84 0)"

lemma ex_wf: "wf_log [ex_fmt, Msg 42 [7, 8]]"
  by (simp add: wf_log_def ex_fmt_def del: replicate.simps)

lemma ex_tail: "length [1 :: u8, 2] < 3"
  by simp

theorem validator_accepts_exactly_grammar_witness:
  "df_ok (validateBytes (encode [ex_fmt, Msg 42 [7, 8]] @ [1, 2]))"
proof -
  have "length (encode [ex_fmt, Msg 42 [7, 8]] @ [1, 2]) < 4294967296"
    by (simp add: ex_fmt_def del: replicate.simps)
  then show ?thesis
    using ex_wf validator_accepts_exactly_grammar [of "encode [ex_fmt, Msg 42 [7, 8]] @ [1, 2]"]
    by (metis ex_tail)
qed

lemma items_ok_snoc:
  "items_ok fs h (xs @ [x]) \<longleftrightarrow> items_ok fs h xs \<and> item_ok (items_formats xs fs) (h \<or> list_ex is_fmt xs) x"
  by (induction xs arbitrary: fs h) (auto simp: disj_assoc)

text \<open>A record cut after its header ends the scan with an error.\<close>

lemma validate_loop_cut:
  assumes "drop pos data = take k (item_bytes x)" and "item_ok fs True x"
    and "3 \<le> k" and "k < length (item_bytes x)" and "\<not> df_ok r"
  shows "\<not> df_ok (validate_loop data pos fs True r)"
proof -
  have len: "length data = pos + k" "pos \<le> length data"
    using arg_cong [OF assms(1), of length] assms(3,4) by auto
  have nth: "data ! (pos + i) = item_bytes x ! i" if "i < k" for i
    using assms(1) that len by (metis add_leD1 le_add1 nth_drop nth_take)
  have h: "data ! pos = 0xA3" "data ! (pos + 1) = 0x95"
    using nth [of 0] nth [of 1] assms(3) by (cases x; simp)+
  show ?thesis
  proof (cases x)
    case (Fmt t l tl)
    then have "data ! (pos + 2) = 0x80" using nth [of 2] assms(3) by (simp add: numeral_eq_Suc)
    with Fmt h assms len show ?thesis by (subst validate_loop.simps) (simp add: head_defs)
  next
    case (Msg t body)
    then have "data ! (pos + 2) = t" using nth [of 2] assms(3) by (simp add: numeral_eq_Suc)
    with Msg h assms len show ?thesis
      by (subst validate_loop.simps) (auto simp: head_defs word_less_nat_alt split: option.splits)
  qed
qed

text \<open>
  A truncated log is rejected: when the last record of a well-formed log is cut after its
  three-byte header, \<open>validateBytes\<close> does not report success.
\<close>

theorem truncated_log_rejected:
  assumes "wf_log (xs @ [x])" and "xs \<noteq> []" and "3 \<le> k" and "k < length (item_bytes x)"
  shows "\<not> df_ok (validateBytes (encode xs @ take k (item_bytes x)))"
proof -
  have xs: "wf_log xs" and x: "item_ok (items_formats xs (\<lambda>_. None)) True x"
    using assms(1,2) wf_log_fmt [of xs] by (auto simp: wf_log_def items_ok_snoc)
  have "encode xs @ take k (item_bytes x) \<noteq> []" using assms(3,4) by auto
  then show ?thesis
    using validate_loop_wf_log [OF xs, of "take k (item_bytes x)" DataFlashValidationResult_new]
      validate_loop_cut [OF _ x assms(3,4), of "length (encode xs)" "encode xs @ take k (item_bytes x)"]
    by (simp add: validateBytes_def DataFlashValidationResult_new_def)
qed

theorem truncated_log_rejected_witness:
  "\<not> df_ok (validateBytes (encode [ex_fmt] @ [0xA3, 0x95, 42, 7]))"
proof -
  have "take 4 (item_bytes (Msg 42 [7, 8])) = [0xA3, 0x95, 42, 7]" by simp
  with truncated_log_rejected [of "[ex_fmt]" "Msg 42 [7, 8]" 4] ex_wf show ?thesis by simp
qed

text \<open>
  The resync ratio is a fraction of the file: for a file of less than 2^32 bytes the number of
  resyncs is at most its size, so that a limit of one or more never rejects a file.
\<close>

theorem resync_count_bounded:
  assumes "length data < 4294967296" and "1 \<le> max_ratio"
  shows "unat (df_resync_count (validateBytes data)) \<le> length data \<and>
         \<not> dataFlashResyncRatioExceeded (validateBytes data) (of_nat (length data)) max_ratio"
proof -
  have le: "unat (df_resync_count (validateBytes data)) \<le> length data"
    using validate_loop_counts [of DataFlashValidationResult_new data 0 "\<lambda>_. None" False] assms(1)
    by (auto simp: validateBytes_def DataFlashValidationResult_new_def no_overflow_def)
  moreover have "unat (of_nat (length data) :: u32) = length data"
    using assms(1) by (simp add: unat_of_nat)
  moreover have "(of_nat (unat (df_resync_count (validateBytes data))) :: rat) \<le> of_nat (length data) * max_ratio"
    using le assms(2) order_trans [OF of_nat_mono [OF le] mult_left_mono [of 1 max_ratio "of_nat (length data)", simplified]]
    by simp
  ultimately show ?thesis
    by (auto simp: dataFlashResyncRatioExceeded_def not_less divide_le_eq mult.commute)
qed

theorem resync_count_bounded_witness:
  "unat (df_resync_count (validateBytes [1, 2, 3, 4])) \<le> 4"
  using resync_count_bounded [of "[1, 2, 3, 4]" 1] by simp

end
