(* ===== verification/FcSampleOffsets.thy ===== *)
theory FcSampleOffsets
  imports MavlinkLogProtocol
begin

text \<open>
  \<^verbatim>\<open>FcSampleOffsets.cpp\<close>: the choice of chunks that are read again from the flight controller after
  a download. A \<^verbatim>\<open>std::set<uint32_t>\<close> is its sorted list without duplicates (\<open>insort_insert\<close>); all
  arithmetic is on words, so that \<^verbatim>\<open>3 * size\<close> wraps as in the source.
\<close>

section \<open>Model\<close>

definition nybble :: "char \<Rightarrow> u8" where
  "nybble c =
     (let n = of_char c :: nat in
      if 48 \<le> n \<and> n \<le> 57 then of_nat (n - 48)
      else if 97 \<le> n \<and> n \<le> 102 then of_nat (10 + n - 97)
      else if 65 \<le> n \<and> n \<le> 70 then of_nat (10 + n - 65)
      else 0)"

fun seed_loop :: "nat \<Rightarrow> string \<Rightarrow> u64 \<Rightarrow> u64" where
  "seed_loop i [] seed = seed"
| "seed_loop i [hi] seed =
     (if i < 16 then seed XOR push_bit (i * 2) (ucast (push_bit 4 (nybble hi) OR nybble (CHR ''0''))) else seed)"
| "seed_loop i (hi # lo # cs) seed =
     (if i < 16
      then seed_loop (i + 2) cs (seed XOR push_bit (i * 2) (ucast (push_bit 4 (nybble hi) OR nybble lo)))
      else seed)"

definition seedFromParams :: "u16 \<Rightarrow> u32 \<Rightarrow> string \<Rightarrow> u64" where
  "seedFromParams fc_log_id fc_log_size sha256_hex =
     (let seed = seed_loop 0 sha256_hex (push_bit 32 (ucast fc_log_id) XOR ucast fc_log_size)
      in if seed \<noteq> 0 then seed else 1)"

definition xorshift64 :: "u64 \<Rightarrow> u32 \<times> u64" where
  "xorshift64 state =
     (let state = state XOR push_bit 13 state;
          state = state XOR drop_bit 7 state;
          state = state XOR push_bit 17 state
      in (ucast state, state))"

definition addAnchor :: "u32 \<Rightarrow> u32 \<Rightarrow> u32 list \<Rightarrow> u32 list" where
  "addAnchor sz ofs out =
     (if sz < kLogChunkSize then out
      else if ofs \<le> sz - kLogChunkSize then insort_insert (alignDownToChunk ofs) out
      else out)"

definition anchors :: "u32 \<Rightarrow> u32 list" where
  "anchors sz =
     (let c = kLogChunkSize;
          out = addAnchor sz 0 [];
          out = addAnchor sz c out;
          out = addAnchor sz (sz div 4) out;
          out = addAnchor sz (sz div 2) out;
          out = addAnchor sz (3 * sz div 4) out;
          out = (if 2 * c \<le> sz then addAnchor sz (sz - 2 * c) out else out)
      in addAnchor sz (sz - c) out)"

text \<open>The sampling loop; the measure is the number of attempts that are left.\<close>

function sample_loop :: "nat \<Rightarrow> nat \<Rightarrow> u32 \<Rightarrow> nat \<Rightarrow> u64 \<Rightarrow> u32 list \<Rightarrow> u32 list" where
  "sample_loop total_samples limit max_slot attempts rng offsets =
     (if length offsets < total_samples \<and> attempts < limit then
        case xorshift64 rng of (x, rng') \<Rightarrow>
          sample_loop total_samples limit max_slot (attempts + 1) rng'
            (insort_insert (x mod (max_slot + 1) * kLogChunkSize) offsets)
      else offsets)"
  by pat_completeness auto
termination
  by (relation "measure (\<lambda>(t, limit, m, attempts, r, xs). limit - attempts)") auto

declare sample_loop.simps [simp del]

definition buildFcSampleOffsets :: "u32 \<Rightarrow> int \<Rightarrow> u16 \<Rightarrow> u32 \<Rightarrow> string \<Rightarrow> u32 list" where
  "buildFcSampleOffsets sz total_samples fc_log_id fc_log_size sha256_hex =
     (if sz < kLogChunkSize \<or> total_samples \<le> 0 then []
      else
        let max_slot = chunkSlotIndex (sz - kLogChunkSize);
            offsets = anchors sz;
            random_want = max 0 (total_samples - int (length offsets));
            result = sample_loop (nat total_samples) (nat (random_want * 20)) max_slot 0
                       (seedFromParams fc_log_id fc_log_size sha256_hex) offsets
        in if total_samples < int (length result) then take (nat total_samples) result else result)"

section \<open>The sampled offsets\<close>

text \<open>What every offset satisfies: it is the start of a chunk that lies inside the log.\<close>

definition good_offset :: "u32 \<Rightarrow> u32 \<Rightarrow> bool" where
  "good_offset sz ofs \<longleftrightarrow> 90 dvd unat ofs \<and> unat ofs + 90 \<le> unat sz"

definition offsets_ok :: "u32 \<Rightarrow> u32 list \<Rightarrow> bool" where
  "offsets_ok sz xs \<longleftrightarrow> sorted xs \<and> distinct xs \<and> (\<forall>x\<in>set xs. good_offset sz x)"

lemma offsets_ok_insert: "offsets_ok sz xs \<Longrightarrow> good_offset sz x \<Longrightarrow> offsets_ok sz (insort_insert x xs)"
  by (auto simp: offsets_ok_def sorted_insort_insert distinct_insort_insert set_insort_insert)

lemma alignDown_good:
  assumes "\<not> sz < kLogChunkSize" and "ofs \<le> sz - kLogChunkSize"
  shows "good_offset sz (alignDownToChunk ofs)"
proof -
  have "unat (sz - kLogChunkSize) = unat sz - 90" "90 \<le> unat sz"
    using assms(1) by (auto simp: u32_order unat_u32_sub)
  then show ?thesis
    using assms(2) alignDownToChunk_le [of ofs] alignDownToChunk_dvd [of ofs]
    by (auto simp: good_offset_def u32_le_iff)
qed

lemma slot_good:
  assumes "\<not> sz < kLogChunkSize"
  shows "good_offset sz (x mod (chunkSlotIndex (sz - kLogChunkSize) + 1) * kLogChunkSize)"
proof -
  let ?m = "chunkSlotIndex (sz - kLogChunkSize)"
  have sz: "unat (sz - kLogChunkSize) = unat sz - 90" "90 \<le> unat sz"
    using assms by (auto simp: u32_order unat_u32_sub)
  have m: "unat ?m = (unat sz - 90) div 90" by (simp add: unat_chunkSlotIndex sz)
  also have "\<dots> \<le> unat sz - 90" by (rule div_le_dividend)
  finally have "unat ?m + 1 < 4294967296" using unat_u32_bound [of sz] sz(2) by linarith
  then have m1: "unat (?m + 1) = unat ?m + 1"
    using unat_u32_add [of ?m 1] by simp
  have "unat (x mod (?m + 1)) < unat ?m + 1" by (simp add: unat_mod_distrib m1)
  then have le: "unat (x mod (?m + 1)) * 90 \<le> unat sz - 90" using m by auto
  then have "unat (x mod (?m + 1)) * 90 < 4294967296" using unat_u32_bound [of sz] by linarith
  then have "unat (x mod (?m + 1) * kLogChunkSize) = unat (x mod (?m + 1)) * 90"
    using unat_u32_mult [of "x mod (?m + 1)" kLogChunkSize] by (simp only: unat_kLogChunkSize)
  with le sz show ?thesis by (simp add: good_offset_def)
qed

lemma offsets_ok_anchor: "offsets_ok sz xs \<Longrightarrow> offsets_ok sz (addAnchor sz ofs xs)"
  by (auto simp: addAnchor_def alignDown_good intro: offsets_ok_insert)

lemma offsets_ok_anchors: "offsets_ok sz (anchors sz)"
  by (simp add: anchors_def Let_def offsets_ok_anchor offsets_ok_def [of sz "[]"])

lemma offsets_ok_sample_loop:
  assumes "\<not> sz < kLogChunkSize" and "offsets_ok sz xs"
  shows "offsets_ok sz (sample_loop t l (chunkSlotIndex (sz - kLogChunkSize)) a r xs)"
  using assms(2)
proof (induction t l "chunkSlotIndex (sz - kLogChunkSize)" a r xs rule: sample_loop.induct)
  case (1 t l a r xs)
  then show ?case
    using slot_good [OF assms(1)] offsets_ok_insert
    by (subst sample_loop.simps) (auto split: prod.splits)
qed

lemma set_sample_loop: "set xs \<subseteq> set (sample_loop t l m a r xs)"
proof (induction t l m a r xs rule: sample_loop.induct)
  case (1 t l m a r xs)
  show ?case
  proof (cases "length xs < t \<and> a < l")
    case True
    obtain x r' where x: "xorshift64 r = (x, r')" by fastforce
    from 1 [OF True x [symmetric]] True show ?thesis
      by (subst sample_loop.simps) (auto simp: x set_insort_insert)
  next
    case False
    then show ?thesis by (subst sample_loop.simps) auto
  qed
qed

lemma length_insort_insert: "length (insort_insert x xs) \<le> length xs + 1"
  by (simp add: insort_insert_key_def)

lemma length_sample_loop:
  "length (sample_loop t l m a r xs) \<le> max t (length xs)"
proof (induction t l m a r xs rule: sample_loop.induct)
  case (1 t l m a r xs)
  show ?case
  proof (cases "length xs < t \<and> a < l")
    case True
    obtain x r' where x: "xorshift64 r = (x, r')" by fastforce
    from 1 [OF True x [symmetric]] True length_insort_insert [of "x mod (m + 1) * kLogChunkSize" xs]
    show ?thesis by (subst sample_loop.simps) (auto simp: x)
  next
    case False
    then show ?thesis by (subst sample_loop.simps) auto
  qed
qed

lemma length_addAnchor: "length (addAnchor sz ofs xs) \<le> length xs + 1"
  using length_insort_insert [of "alignDownToChunk ofs" xs] by (simp add: addAnchor_def)

lemma length_anchors: "length (anchors sz) \<le> 7"
proof -
  have step: "length xs \<le> n \<Longrightarrow> length (addAnchor sz ofs xs) \<le> Suc n" for ofs xs n
    using length_addAnchor [of sz ofs xs] by simp
  show ?thesis
    unfolding anchors_def Let_def numeral_eq_Suc pred_numeral_simps BitM.simps
    by (auto intro!: step intro: le_SucI)
qed

lemma set_addAnchor: "x \<in> set xs \<Longrightarrow> x \<in> set (addAnchor sz ofs xs)"
  by (auto simp: addAnchor_def set_insort_insert)

lemma anchors_ends:
  assumes "\<not> sz < kLogChunkSize"
  shows "0 \<in> set (anchors sz)" "alignDownToChunk (sz - kLogChunkSize) \<in> set (anchors sz)"
proof -
  have "alignDownToChunk 0 = 0" by (simp add: alignDownToChunk_def)
  then have "0 \<in> set (addAnchor sz 0 [])"
    using assms by (simp add: addAnchor_def set_insort_insert)
  then show "0 \<in> set (anchors sz)"
    unfolding anchors_def Let_def by (simp add: set_addAnchor)
  show "alignDownToChunk (sz - kLogChunkSize) \<in> set (anchors sz)"
    unfolding anchors_def Let_def using assms by (auto simp: addAnchor_def set_insort_insert)
qed

section \<open>Properties\<close>

text \<open>
  The re-read samples are chunks of the log: for every log size, sample count and digest the
  offsets are strictly increasing, each is a multiple of 90 whose whole chunk lies inside the log,
  and there are at most \<open>total_samples\<close> of them.
\<close>

theorem sample_offsets_valid:
  "sorted_wrt (<) (buildFcSampleOffsets sz total_samples i n sha) \<and>
   list_all (\<lambda>ofs. 90 dvd unat ofs \<and> unat ofs + 90 \<le> unat sz) (buildFcSampleOffsets sz total_samples i n sha) \<and>
   length (buildFcSampleOffsets sz total_samples i n sha) \<le> nat total_samples"
proof (cases "sz < kLogChunkSize \<or> total_samples \<le> 0")
  case True
  then show ?thesis by (simp add: buildFcSampleOffsets_def)
next
  case False
  let ?s = "sample_loop (nat total_samples) (nat (max 0 (total_samples - int (length (anchors sz))) * 20))
      (chunkSlotIndex (sz - kLogChunkSize)) 0 (seedFromParams i n sha) (anchors sz)"
  have ok: "offsets_ok sz ?s"
    using False offsets_ok_sample_loop offsets_ok_anchors by blast
  have b: "buildFcSampleOffsets sz total_samples i n sha = take (nat total_samples) ?s"
    using False by (simp add: buildFcSampleOffsets_def Let_def)
  show ?thesis
    using ok set_take_subset [of "nat total_samples" ?s]
    by (auto simp: b offsets_ok_def good_offset_def strict_sorted_iff list_all_iff sorted_wrt_take)
qed

text \<open>
  Head and tail are always sampled: for a log of at least one chunk and seven or more samples
  the first chunk and the last full chunk of the log are among the samples.
\<close>

theorem samples_include_head_and_tail:
  assumes "90 \<le> sz" and "7 \<le> total_samples"
  shows "0 \<in> set (buildFcSampleOffsets sz total_samples i n sha) \<and>
         alignDownToChunk (sz - 90) \<in> set (buildFcSampleOffsets sz total_samples i n sha)"
proof -
  let ?s = "sample_loop (nat total_samples) (nat (max 0 (total_samples - int (length (anchors sz))) * 20))
      (chunkSlotIndex (sz - kLogChunkSize)) 0 (seedFromParams i n sha) (anchors sz)"
  have sz: "\<not> sz < kLogChunkSize" using assms(1) by (simp add: kLogChunkSize_def not_less)
  have "length (anchors sz) \<le> nat total_samples" using length_anchors [of sz] assms(2) by linarith
  then have "length ?s \<le> nat total_samples"
    using order_trans [OF length_sample_loop] by fastforce
  then have "\<not> total_samples < int (length ?s)" using assms(2) by linarith
  then have "buildFcSampleOffsets sz total_samples i n sha = ?s"
    using sz assms(2) by (simp add: buildFcSampleOffsets_def Let_def)
  with anchors_ends [OF sz] subsetD [OF set_sample_loop] show ?thesis
    by (simp add: kLogChunkSize_def)
qed

theorem samples_include_head_and_tail_witness:
  "alignDownToChunk 910 \<in> set (buildFcSampleOffsets 1000 64 3 1000 ''ab'')"
  using samples_include_head_and_tail [of 1000 64 3 1000 "''ab''"] by simp

end
