(* ===== verification/Strings.thy ===== *)
theory Strings
  imports Prelude
begin

text \<open>
  The text functions of the C++ library the sources use: \<^verbatim>\<open>std::to_string\<close> on non-negative integers,
  with its inverse, and \<^verbatim>\<open>std::filesystem::path::extension\<close> of a file name.
\<close>

definition digit :: "nat \<Rightarrow> char" where
  "digit n = char_of (48 + n)"

fun to_string :: "nat \<Rightarrow> string" where
  "to_string n = (if n < 10 then [digit n] else to_string (n div 10) @ [digit (n mod 10)])"

declare to_string.simps [simp del]

definition is_digit :: "char \<Rightarrow> bool" where
  "is_digit c \<longleftrightarrow> 48 \<le> (of_char c :: nat) \<and> (of_char c :: nat) \<le> 57"

definition digit_value :: "char \<Rightarrow> nat" where
  "digit_value c = of_char c - 48"

definition of_digits :: "string \<Rightarrow> nat" where
  "of_digits cs = foldl (\<lambda>n c. n * 10 + digit_value c) 0 cs"

lemma digit_value_digit: "n < 10 \<Longrightarrow> digit_value (digit n) = n"
  by (simp add: digit_value_def digit_def)

lemma is_digit_digit: "n < 10 \<Longrightarrow> is_digit (digit n)"
  by (simp add: is_digit_def digit_def)

lemma of_digits_to_string [simp]: "of_digits (to_string n) = n"
proof (induction n rule: to_string.induct)
  case (1 n)
  show ?case
  proof (cases "n < 10")
    case True
    then show ?thesis by (subst to_string.simps) (simp add: of_digits_def digit_value_digit)
  next
    case False
    with 1 show ?thesis by (subst to_string.simps) (simp add: of_digits_def digit_value_digit)
  qed
qed

lemma to_string_inject [simp]: "to_string m = to_string n \<longleftrightarrow> m = n"
  by (metis of_digits_to_string)

lemma to_string_digits: "c \<in> set (to_string n) \<Longrightarrow> is_digit c"
proof (induction n rule: to_string.induct)
  case (1 n)
  then show ?case
    by (subst (asm) (2) to_string.simps) (auto simp: is_digit_digit split: if_splits)
qed

text \<open>The digits between a non-digit and a fixed suffix are determined by the whole text.\<close>

lemma takeWhile_digits:
  assumes "\<And>c. c \<in> set ds \<Longrightarrow> is_digit c" and "\<not> is_digit x"
  shows "takeWhile is_digit (rev (a @ x # ds)) = rev ds"
  using assms by (simp add: takeWhile_append)

lemma digits_before_suffix:
  assumes "a @ x # to_string m @ suf = b @ y # to_string n @ suf" and "\<not> is_digit x" and "\<not> is_digit y"
  shows "m = n"
proof -
  have "(a @ x # to_string m) @ suf = (b @ y # to_string n) @ suf"
    using assms(1) by simp
  then have "a @ x # to_string m = b @ y # to_string n"
    by (simp only: append_same_eq)
  then have "takeWhile is_digit (rev (a @ x # to_string m)) = takeWhile is_digit (rev (b @ y # to_string n))"
    by simp
  then show ?thesis
    using takeWhile_digits [of "to_string m" x a] takeWhile_digits [of "to_string n" y b]
      to_string_digits assms(2,3) by simp
qed

definition extension :: "string \<Rightarrow> string" where
  "extension name =
     (let rest = dropWhile (\<lambda>c. c \<noteq> CHR ''.'') (rev name) in
      if name = ''..'' \<or> length rest \<le> 1 then ''''
      else CHR ''.'' # rev (takeWhile (\<lambda>c. c \<noteq> CHR ''.'') (rev name)))"

lemma extension_append:
  "CHR ''.'' \<notin> set ext \<Longrightarrow> name \<noteq> [] \<Longrightarrow> ext \<noteq> [] \<Longrightarrow> extension (name @ CHR ''.'' # ext) = CHR ''.'' # ext"
  by (cases name rule: rev_cases)
    (auto simp: extension_def Let_def append_eq_Cons_conv takeWhile_append dropWhile_append)

end
