(* ===== verification/StorageManager.thy ===== *)
theory StorageManager
  imports Types Strings "HOL-Library.AList" "HOL-Library.Multiset"
begin

text \<open>
  \<^verbatim>\<open>StorageManager\<close>: the partial and final archive files under the storage directory. A path is the
  list of its components, the file system an association list from the paths of regular files to
  their bytes and modification time, together with the directories that exist. What the operating
  system decides is the parameter \<open>os\<close>: the wall clock, the local-time formatting of \<^verbatim>\<open>std::put_time\<close>,
  and which calls fail. A thrown \<^verbatim>\<open>filesystem_error\<close> is the value \<open>Inl Filesystem_error\<close>; the state
  reached when it is thrown is kept.
\<close>

section \<open>Model\<close>

type_synonym path = "string list"

datatype exn = Filesystem_error | Sqlite_error string

record stored_file =
  f_data :: bytes
  f_mtime :: nat

record filesystem =
  fs_files :: "(path \<times> stored_file) list"
  fs_dirs :: "path list"

text \<open>
  \<open>os_system_time\<close> is the wall clock (seconds since 1970) when the steady clock shows a number of
  milliseconds; \<open>os_date\<close> and \<open>os_stamp\<close> are the formats \<^verbatim>\<open>%Y-%m-%d\<close> and \<^verbatim>\<open>%Y-%m-%d_%H-%M-%S\<close> in local
  time. A finalization reads a clock three times: when the first reading shows \<open>t\<close>, the second (for
  the file name) shows \<open>os_then t\<close> and the third (after the move) \<open>os_done t\<close>.
\<close>

record os =
  os_system_time :: "nat \<Rightarrow> int"
  os_date :: "int \<Rightarrow> string"
  os_stamp :: "int \<Rightarrow> string"
  os_then :: "nat \<Rightarrow> nat"
  os_done :: "nat \<Rightarrow> nat"
  os_mkdir_ok :: "path \<Rightarrow> bool"
  os_remove_ok :: "path \<Rightarrow> bool"
  os_fsync_ok :: "path \<Rightarrow> bool"
  os_rename_ok :: "path \<Rightarrow> path \<Rightarrow> bool"
  os_open_ok :: "path \<Rightarrow> bool"
  os_write_ok :: "nat \<Rightarrow> nat \<Rightarrow> bool"

record StorageManager =
  sm_settings :: StorageSettings
  sm_root :: path
  sm_logs_dir :: path
  sm_tmp_dir :: path
  sm_partial_counter :: nat
  sm_fs :: filesystem

record FinalizeResult =
  final_path :: path
  fin_archive_duration_ms :: int

definition StorageManager_new :: "StorageSettings \<Rightarrow> filesystem \<Rightarrow> StorageManager" where
  "StorageManager_new s fs =
     \<lparr>sm_settings = s, sm_root = [st_directory s], sm_logs_dir = [st_directory s, ''logs''],
      sm_tmp_dir = [st_directory s, ''tmp''], sm_partial_counter = 0, sm_fs = fs\<rparr>"

text \<open>The calls of \<^verbatim>\<open>std::filesystem\<close>.\<close>

definition fs_exists :: "path \<Rightarrow> filesystem \<Rightarrow> bool" where
  "fs_exists p fs \<longleftrightarrow> p \<in> fst ` set (fs_files fs) \<or> p \<in> set (fs_dirs fs)"

definition fs_remove :: "path \<Rightarrow> filesystem \<Rightarrow> filesystem" where
  "fs_remove p fs = fs\<lparr>fs_files := AList.delete p (fs_files fs)\<rparr>"

definition fs_write :: "path \<Rightarrow> stored_file \<Rightarrow> filesystem \<Rightarrow> filesystem" where
  "fs_write p f fs = fs\<lparr>fs_files := AList.update p f (fs_files fs)\<rparr>"

definition fs_rename :: "path \<Rightarrow> path \<Rightarrow> filesystem \<Rightarrow> filesystem" where
  "fs_rename p q fs =
     (case map_of (fs_files fs) p of
        None \<Rightarrow> fs
      | Some f \<Rightarrow> fs\<lparr>fs_files := AList.update q f (AList.delete p (fs_files fs))\<rparr>)"

definition create_directories :: "os \<Rightarrow> path \<Rightarrow> StorageManager \<Rightarrow> (exn + unit) \<times> StorageManager" where
  "create_directories os p s =
     (if os_mkdir_ok os p
      then (Inr (), s\<lparr>sm_fs := (sm_fs s)\<lparr>fs_dirs := List.insert p (fs_dirs (sm_fs s))\<rparr>\<rparr>)
      else (Inl Filesystem_error, s))"

definition in_dir :: "path \<Rightarrow> path \<Rightarrow> bool" where
  "in_dir d p \<longleftrightarrow> length d < length p \<and> take (length d) p = d"

definition directly_in :: "path \<Rightarrow> path \<Rightarrow> bool" where
  "directly_in d p \<longleftrightarrow> in_dir d p \<and> length p = length d + 1"

fun remove_loop :: "os \<Rightarrow> path list \<Rightarrow> filesystem \<Rightarrow> (exn + unit) \<times> filesystem" where
  "remove_loop os [] fs = (Inr (), fs)"
| "remove_loop os (p # ps) fs =
     (if extension (last p) = ''.partial''
      then if os_remove_ok os p then remove_loop os ps (fs_remove p fs) else (Inl Filesystem_error, fs)
      else remove_loop os ps fs)"

definition cleanupPartials :: "os \<Rightarrow> StorageManager \<Rightarrow> (exn + unit) \<times> StorageManager" where
  "cleanupPartials os s =
     (if \<not> fs_exists (sm_tmp_dir s) (sm_fs s) then (Inr (), s)
      else case remove_loop os (filter (directly_in (sm_tmp_dir s)) (map fst (fs_files (sm_fs s)))) (sm_fs s) of
        (r, fs) \<Rightarrow> (r, s\<lparr>sm_fs := fs\<rparr>))"

definition initialize :: "os \<Rightarrow> StorageManager \<Rightarrow> (exn + unit) \<times> StorageManager" where
  "initialize os s =
     (case create_directories os (sm_logs_dir s) s of
        (Inl e, s) \<Rightarrow> (Inl e, s)
      | (Inr _, s) \<Rightarrow>
          (case create_directories os (sm_tmp_dir s) s of
             (Inl e, s) \<Rightarrow> (Inl e, s)
           | (Inr _, s) \<Rightarrow> cleanupPartials os s))"

definition timestampFilename :: "os \<Rightarrow> nat \<Rightarrow> string" where
  "timestampFilename os now = os_stamp os (os_system_time os now)"

definition beginPartialFile :: "os \<Rightarrow> nat \<Rightarrow> StorageManager \<Rightarrow> path \<times> StorageManager" where
  "beginPartialFile os now s =
     (let s = s\<lparr>sm_partial_counter := sm_partial_counter s + 1\<rparr>
      in (sm_tmp_dir s @ [timestampFilename os now @ ''_part'' @ to_string (sm_partial_counter s) @ ''.bin.partial''],
          s))"

text \<open>The directory of the day: the local date of the last midnight in UTC.\<close>

definition day_dir :: "os \<Rightarrow> nat \<Rightarrow> string" where
  "day_dir os now = os_date os (os_system_time os now div 86400 * 86400)"

definition dest_path :: "os \<Rightarrow> nat \<Rightarrow> StorageManager \<Rightarrow> path" where
  "dest_path os now s = sm_logs_dir s @ [day_dir os now, timestampFilename os (os_then os now) @ ''.bin'']"

text \<open>
  A rename that succeeded has made the destination exist: no other process removes files here, so the
  source's last test of \<^verbatim>\<open>exists\<close> holds whenever it is reached.
\<close>

definition finalizePartial ::
  "os \<Rightarrow> path \<Rightarrow> nat \<Rightarrow> nat \<Rightarrow> StorageManager \<Rightarrow> (exn + FinalizeResult option) \<times> StorageManager" where
  "finalizePartial os partial_path download_start now s =
     (if \<not> fs_exists partial_path (sm_fs s) then (Inr None, s)
      else case create_directories os (sm_logs_dir s @ [day_dir os now]) s of
        (Inl e, s) \<Rightarrow> (Inl e, s)
      | (Inr _, s) \<Rightarrow>
          let dest = dest_path os now s in
          if \<not> os_fsync_ok os partial_path then (Inr None, s)
          else if \<not> os_rename_ok os partial_path dest then (Inr None, s)
          else
            let s = s\<lparr>sm_fs := fs_rename partial_path dest (sm_fs s)\<rparr> in
            if \<not> fs_exists dest (sm_fs s) then (Inr None, s)
            else (Inr (Some \<lparr>final_path = dest, fin_archive_duration_ms = int (os_done os now) - int download_start\<rparr>), s))"

section \<open>The storage limit\<close>

definition is_archive :: "path \<Rightarrow> path \<Rightarrow> bool" where
  "is_archive logs_dir p \<longleftrightarrow> in_dir logs_dir p \<and> extension (last p) = ''.bin''"

definition file_size :: "stored_file \<Rightarrow> u64" where
  "file_size f = of_nat (length (f_data f))"

definition archive_entries :: "StorageManager \<Rightarrow> (path \<times> stored_file) list" where
  "archive_entries s = filter (\<lambda>(p, f). is_archive (sm_logs_dir s) p) (fs_files (sm_fs s))"

definition max_bytes :: "StorageSettings \<Rightarrow> u64" where
  "max_bytes st = of_int (max_size_gb st) * 1024 * 1024 * 1024"

fun evict_loop ::
  "os \<Rightarrow> u64 \<Rightarrow> u64 \<Rightarrow> (path \<times> stored_file) list \<Rightarrow> filesystem \<Rightarrow> (exn + unit) \<times> filesystem" where
  "evict_loop os limit total_bytes [] fs = (Inr (), fs)"
| "evict_loop os limit total_bytes ((p, f) # es) fs =
     (if total_bytes \<le> limit then (Inr (), fs)
      else if os_remove_ok os p
      then evict_loop os limit (total_bytes - file_size f) es (fs_remove p fs)
      else (Inl Filesystem_error, fs))"

definition enforceStorageLimit :: "os \<Rightarrow> StorageManager \<Rightarrow> (exn + unit) \<times> StorageManager" where
  "enforceStorageLimit os s =
     (if \<not> fs_exists (sm_logs_dir s) (sm_fs s) then (Inl Filesystem_error, s)
      else
        let verified = archive_entries s;
            total_bytes = sum_list (map (file_size \<circ> snd) verified)
        in if total_bytes \<le> max_bytes (sm_settings s) then (Inr (), s)
           else case evict_loop os (max_bytes (sm_settings s)) total_bytes
                       (sort_key (f_mtime \<circ> snd) verified) (sm_fs s) of
             (r, fs) \<Rightarrow> (r, s\<lparr>sm_fs := fs\<rparr>))"

definition totalVerifiedBytes :: "StorageManager \<Rightarrow> u64" where
  "totalVerifiedBytes s =
     (if \<not> fs_exists (sm_logs_dir s) (sm_fs s) then 0
      else sum_list (map (file_size \<circ> snd) (archive_entries s)))"

section \<open>Lemmas\<close>

lemma fs_remove_files [simp]: "map_of (fs_files (fs_remove p fs)) = (map_of (fs_files fs))(p := None)"
  by (simp add: fs_remove_def delete_conv')

lemma fs_write_files [simp]: "map_of (fs_files (fs_write p f fs)) = (map_of (fs_files fs))(p \<mapsto> f)"
  by (simp add: fs_write_def update_conv')

lemma create_directories_files:
  "create_directories os p s = (r, s') \<Longrightarrow> fs_files (sm_fs s') = fs_files (sm_fs s)"
  "create_directories os p s = (r, s') \<Longrightarrow> sm_logs_dir s' = sm_logs_dir s"
  "create_directories os p s = (r, s') \<Longrightarrow> sm_settings s' = sm_settings s"
  by (auto simp: create_directories_def split: if_splits)

lemma fs_exists_file: "map_of (fs_files fs) p = Some f \<Longrightarrow> fs_exists p fs"
  by (auto simp: fs_exists_def dest!: map_of_SomeD intro: rev_image_eqI)

lemma fs_rename_files:
  "map_of (fs_files fs) p = Some f \<Longrightarrow>
   map_of (fs_files (fs_rename p q fs)) = (map_of (fs_files fs))(p := None, q \<mapsto> f)"
  by (simp add: fs_rename_def update_conv' delete_conv')

text \<open>A finalization either moves the partial file to its final path or leaves every file as it was.\<close>

lemma finalizePartial_cases:
  assumes "finalizePartial os p start now s = (r, s')" and "map_of (fs_files (sm_fs s)) p = Some f"
  obtains (moved) "r = Inr (Some \<lparr>final_path = dest_path os now s, fin_archive_duration_ms = int (os_done os now) - int start\<rparr>)"
      "map_of (fs_files (sm_fs s')) = (map_of (fs_files (sm_fs s)))(p := None, dest_path os now s \<mapsto> f)"
  | (kept) "r = Inr None \<or> r = Inl Filesystem_error" "fs_files (sm_fs s') = fs_files (sm_fs s)"
proof -
  obtain r1 s1 where c: "create_directories os (sm_logs_dir s @ [day_dir os now]) s = (r1, s1)" by fastforce
  have s1: "fs_files (sm_fs s1) = fs_files (sm_fs s)" "dest_path os now s1 = dest_path os now s"
    using create_directories_files [OF c] by (simp_all add: dest_path_def)
  have ren: "map_of (fs_files (fs_rename p (dest_path os now s) (sm_fs s1)))
      = (map_of (fs_files (sm_fs s)))(p := None, dest_path os now s \<mapsto> f)"
    using assms(2) s1 by (simp add: fs_rename_files)
  then have ex: "fs_exists (dest_path os now s) (fs_rename p (dest_path os now s) (sm_fs s1))"
    by (intro fs_exists_file) simp
  show thesis
  proof (cases "r1 = Inr () \<and> os_fsync_ok os p \<and> os_rename_ok os p (dest_path os now s)")
    case True
    with assms(1) c s1 ren ex fs_exists_file [OF assms(2)] show ?thesis
      by (intro moved) (auto simp: finalizePartial_def Let_def)
  next
    case False
    moreover have "r1 = Inr () \<or> r1 = Inl Filesystem_error"
      using c by (auto simp: create_directories_def split: if_splits)
    ultimately show ?thesis
      using assms(1) c s1 fs_exists_file [OF assms(2)]
      by (intro kept) (auto simp: finalizePartial_def Let_def split: if_splits)
  qed
qed

lemma finalizePartial_logs_dir:
  "finalizePartial os p start now s = (r, s') \<Longrightarrow> sm_logs_dir s' = sm_logs_dir s"
  by (auto simp: finalizePartial_def create_directories_def Let_def split: if_splits)

definition bytes_of :: "(path \<times> stored_file) list \<Rightarrow> nat" where
  "bytes_of es = sum_list (map (length \<circ> f_data \<circ> snd) es)"

lemma bytes_of_simps [simp]:
  "bytes_of [] = 0" "bytes_of (e # es) = length (f_data (snd e)) + bytes_of es"
  by (simp_all add: bytes_of_def)

lemma sum_file_size: "sum_list (map (file_size \<circ> snd) es) = of_nat (bytes_of es)"
  by (induction es) (simp_all add: file_size_def)

lemma unat_u64_of_nat: "n < 2 ^ 64 \<Longrightarrow> unat (of_nat n :: u64) = n"
  by (simp add: unat_of_nat)

lemma evict_loop_spec:
  assumes "evict_loop os limit (of_nat (bytes_of es)) es fs = (Inr (), fs')" and "bytes_of es < 2 ^ 64"
  shows "\<exists>k\<le>length es. fs_files fs' = filter (\<lambda>(p, f). p \<notin> fst ` set (take k es)) (fs_files fs) \<and>
      bytes_of (drop k es) \<le> unat limit \<and> (0 < k \<longrightarrow> unat limit < bytes_of (drop (k - 1) es))"
  using assms
proof (induction es arbitrary: fs)
  case Nil
  then show ?case by simp
next
  case (Cons e es)
  obtain p f where e: "e = (p, f)" by fastforce
  have u: "unat (of_nat (bytes_of (e # es)) :: u64) = bytes_of (e # es)"
    using Cons.prems(2) by (rule unat_u64_of_nat)
  show ?case
  proof (cases "of_nat (bytes_of (e # es)) \<le> limit")
    case True
    with Cons.prems(1) e u show ?thesis
      by (intro exI [of _ 0]) (auto simp: word_le_nat_alt)
  next
    case False
    have "of_nat (bytes_of (e # es)) - file_size f = (of_nat (bytes_of es) :: u64)"
      by (simp add: e file_size_def)
    with Cons.prems(1) False e have "evict_loop os limit (of_nat (bytes_of es)) es (fs_remove p fs) = (Inr (), fs')"
      by (auto split: if_splits)
    from Cons.IH [OF this] Cons.prems(2) obtain k where k: "k \<le> length es"
      "fs_files fs' = filter (\<lambda>(p, f). p \<notin> fst ` set (take k es)) (fs_files (fs_remove p fs))"
      "bytes_of (drop k es) \<le> unat limit" "0 < k \<longrightarrow> unat limit < bytes_of (drop (k - 1) es)" by auto
    have "unat limit < bytes_of (e # es)" using False u by (simp add: word_le_nat_alt)
    then have "unat limit < bytes_of (drop (Suc k - 1) (e # es))"
      using k(4) by (cases k) auto
    moreover have "fs_files fs' = filter (\<lambda>(p, f). p \<notin> fst ` set (take (Suc k) (e # es))) (fs_files fs)"
      unfolding k(2) by (auto simp: fs_remove_def AList.delete_eq e intro!: filter_cong)
    ultimately show ?thesis using k(1,3) by (intro exI [of _ "Suc k"]) auto
  qed
qed

lemma bytes_of_mset: "mset xs = mset ys \<Longrightarrow> bytes_of xs = bytes_of ys"
  unfolding bytes_of_def by (metis mset_map sum_mset_sum_list)

lemma mset_minus_prefix:
  assumes "distinct xs" and "mset ys = mset xs"
  shows "mset (filter (\<lambda>e. e \<notin> set (take k ys)) xs) = mset (drop k ys)"
proof -
  have d: "distinct ys" using assms by (metis mset_eq_imp_distinct_iff)
  have "mset (filter (\<lambda>e. e \<notin> set (take k ys)) xs) = filter_mset (\<lambda>e. e \<notin> set (take k ys)) (mset ys)"
    by (simp add: assms(2))
  also have "\<dots> = mset (filter (\<lambda>e. e \<notin> set (take k ys)) (take k ys @ drop k ys))"
    by (simp only: append_take_drop_id mset_filter)
  also have "filter (\<lambda>e. e \<notin> set (take k ys)) (take k ys @ drop k ys) = drop k ys"
  proof -
    have "filter (\<lambda>e. e \<notin> set (take k ys)) (drop k ys) = drop k ys"
      using set_take_disj_set_drop_if_distinct [OF d, of k k] by (auto simp: filter_id_conv)
    moreover have "filter (\<lambda>e. e \<notin> set (take k ys)) (take k ys) = []" by (simp add: filter_empty_conv)
    ultimately show ?thesis by (simp only: filter_append append_Nil)
  qed
  finally show ?thesis .
qed

text \<open>The entries that a run of the eviction loop removes, for distinct paths.\<close>

lemma evicted_files:
  assumes "distinct (map fst files)" and "old \<subseteq> set files"
  shows "filter (\<lambda>(p, f). p \<notin> fst ` old) files = filter (\<lambda>e. e \<notin> old) files"
proof (rule filter_cong [OF refl])
  fix e assume e: "e \<in> set files"
  have "fst e \<in> fst ` old \<longleftrightarrow> e \<in> old"
  proof
    assume "fst e \<in> fst ` old"
    then obtain x where "x \<in> old" "fst x = fst e" by auto
    with e assms have "x = e" by (metis distinct_map inj_onD subsetD)
    with \<open>x \<in> old\<close> show "e \<in> old" by simp
  qed auto
  then show "(case e of (p, f) \<Rightarrow> p \<notin> fst ` old) = (e \<notin> old)" by (simp add: case_prod_beta)
qed

lemma sort_prefix_le:
  assumes "x \<in> set (take k (sort_key f xs))" and "y \<in> set (drop k (sort_key f xs))"
  shows "f x \<le> f y"
proof -
  have "sorted (map f (take k (sort_key f xs) @ drop k (sort_key f xs)))" by simp
  with assms show ?thesis by (simp only: map_append sorted_append) simp
qed

lemma enforceStorageLimit_cases:
  assumes "enforceStorageLimit os s = (Inr (), s')" and "bytes_of (archive_entries s) < 2 ^ 64"
  defines "es \<equiv> sort_key (f_mtime \<circ> snd) (archive_entries s)" and "limit \<equiv> unat (max_bytes (sm_settings s))"
  obtains (within) "s' = s" "bytes_of (archive_entries s) \<le> limit"
  | (evicted) k where "sm_logs_dir s' = sm_logs_dir s"
      "fs_files (sm_fs s') = filter (\<lambda>(p, f). p \<notin> fst ` set (take k es)) (fs_files (sm_fs s))"
      "bytes_of (drop k es) \<le> limit" "0 < k \<longrightarrow> limit < bytes_of (drop (k - 1) es)" "k \<le> length es"
proof -
  have bes: "bytes_of es = bytes_of (archive_entries s)"
    by (rule bytes_of_mset) (simp add: es_def)
  note u = unat_u64_of_nat [OF assms(2)]
  show thesis
  proof (cases "of_nat (bytes_of (archive_entries s)) \<le> max_bytes (sm_settings s)")
    case True
    with assms(1) u show ?thesis
      by (intro within) (auto simp: enforceStorageLimit_def sum_file_size Let_def limit_def word_le_nat_alt
          split: if_splits)
  next
    case False
    with assms(1) obtain fs where
      ev: "evict_loop os (max_bytes (sm_settings s)) (of_nat (bytes_of es)) es (sm_fs s) = (Inr (), fs)"
      and s': "s' = s\<lparr>sm_fs := fs\<rparr>"
      by (auto simp: enforceStorageLimit_def sum_file_size Let_def es_def bes [unfolded es_def]
          split: if_splits prod.splits)
    from evict_loop_spec [OF ev] assms(2) bes obtain k where "k \<le> length es"
      "fs_files fs = filter (\<lambda>(p, f). p \<notin> fst ` set (take k es)) (fs_files (sm_fs s))"
      "bytes_of (drop k es) \<le> limit" "0 < k \<longrightarrow> limit < bytes_of (drop (k - 1) es)"
      unfolding limit_def by auto
    with s' show ?thesis by (intro evicted [of k]) auto
  qed
qed

section \<open>Properties\<close>

text \<open>
  (C11) Rotation enforces the storage limit and deletes the oldest archives only: when
  \<open>enforceStorageLimit\<close> returns, the archives under the log directory take at most
  \<^verbatim>\<open>max_size_gb\<close>; what it deleted are archives, none of them newer than an archive it kept, and it
  stopped as soon as the limit was met. No other file changes.
\<close>

theorem storage_limit_enforced:
  assumes "distinct (map fst (fs_files (sm_fs s)))" and "bytes_of (archive_entries s) < 2 ^ 64"
    and "enforceStorageLimit os s = (Inr (), s')"
  shows "bytes_of (archive_entries s') \<le> unat (max_bytes (sm_settings s)) \<and>
    (\<exists>old. old \<subseteq> set (archive_entries s) \<and>
       fs_files (sm_fs s') = filter (\<lambda>e. e \<notin> old) (fs_files (sm_fs s)) \<and>
       (\<forall>x\<in>old. \<forall>y\<in>set (archive_entries s'). f_mtime (snd x) \<le> f_mtime (snd y)) \<and>
       (old \<noteq> {} \<longrightarrow> (\<exists>x\<in>old. unat (max_bytes (sm_settings s))
          < bytes_of (archive_entries s') + length (f_data (snd x)))))"
  using assms(3,2)
proof (cases rule: enforceStorageLimit_cases)
  case within
  then show ?thesis by (auto intro!: exI [of _ "{}"])
next
  case (evicted k)
  let ?es = "sort_key (f_mtime \<circ> snd) (archive_entries s)" and ?limit = "unat (max_bytes (sm_settings s))"
  let ?old = "set (take k ?es)"
  have sub: "?old \<subseteq> set (archive_entries s)" using set_take_subset [of k ?es] by simp
  then have "?old \<subseteq> set (fs_files (sm_fs s))" by (auto simp: archive_entries_def)
  from evicted(2) evicted_files [OF assms(1) this]
  have files: "fs_files (sm_fs s') = filter (\<lambda>e. e \<notin> ?old) (fs_files (sm_fs s))" by simp
  have "archive_entries s' = filter (\<lambda>e. e \<notin> ?old) (archive_entries s)"
    by (simp add: archive_entries_def files evicted(1) conj_commute)
  moreover have "distinct (archive_entries s)"
    using assms(1) by (simp add: archive_entries_def distinct_map)
  ultimately have ms: "mset (archive_entries s') = mset (drop k ?es)"
    using mset_minus_prefix [of "archive_entries s" ?es k] by simp
  note left = bytes_of_mset [OF ms] mset_eq_setD [OF ms]
  have "\<exists>x\<in>?old. ?limit < bytes_of (archive_entries s') + length (f_data (snd x))" if "?old \<noteq> {}"
  proof -
    from that have k: "0 < k" by auto
    then have lt: "k - 1 < length ?es" using evicted(5) by linarith
    have "drop (k - 1) ?es = ?es ! (k - 1) # drop k ?es"
      using Cons_nth_drop_Suc [OF lt] k by simp
    then have "?limit < length (f_data (snd (?es ! (k - 1)))) + bytes_of (drop k ?es)"
      using evicted(4) k by simp
    moreover have "?es ! (k - 1) \<in> ?old"
      using nth_mem [of "k - 1" "take k ?es"] lt k by simp
    ultimately show ?thesis using left(1) by (intro bexI [of _ "?es ! (k - 1)"]) simp_all
  qed
  moreover have "\<forall>x\<in>?old. \<forall>y\<in>set (archive_entries s'). f_mtime (snd x) \<le> f_mtime (snd y)"
    unfolding left(2) using sort_prefix_le [of _ k "f_mtime \<circ> snd" "archive_entries s"] by simp
  moreover have "bytes_of (archive_entries s') \<le> ?limit" using left(1) evicted(3) by (simp only:)
  ultimately show ?thesis using files sub by blast
qed

definition ex_os :: os where
  "ex_os = \<lparr>os_system_time = (\<lambda>ms. int (ms div 1000)), os_date = (\<lambda>_. ''2026-01-01''),
     os_stamp = (\<lambda>t. to_string (nat t)), os_then = (\<lambda>t. t), os_done = (\<lambda>t. t), os_mkdir_ok = (\<lambda>_. True), os_remove_ok = (\<lambda>_. True),
     os_fsync_ok = (\<lambda>_. True), os_rename_ok = (\<lambda>_ _. True), os_open_ok = (\<lambda>_. True),
     os_write_ok = (\<lambda>_ _. True)\<rparr>"

definition ex_storage :: "int \<Rightarrow> (path \<times> stored_file) list \<Rightarrow> StorageManager" where
  "ex_storage gb files = StorageManager_new \<lparr>st_directory = ''/s'', max_size_gb = gb\<rparr>
     \<lparr>fs_files = files, fs_dirs = [[''/s'', ''logs''], [''/s'', ''tmp'']]\<rparr>"

lemmas ex_storage_defs = ex_os_def ex_storage_def StorageManager_new_def fs_exists_def

theorem storage_limit_enforced_witness:
  "\<exists>s'. enforceStorageLimit ex_os (ex_storage 0 [([''/s'', ''logs'', ''d'', ''a.bin''], \<lparr>f_data = [1, 2], f_mtime = 5\<rparr>)])
      = (Inr (), s') \<and> bytes_of (archive_entries s') \<le> 0"
proof -
  let ?s = "ex_storage 0 [([''/s'', ''logs'', ''d'', ''a.bin''], \<lparr>f_data = [1, 2], f_mtime = 5\<rparr>)]"
  have ev: "enforceStorageLimit ex_os ?s = (Inr (), ?s\<lparr>sm_fs := fs_remove [''/s'', ''logs'', ''d'', ''a.bin''] (sm_fs ?s)\<rparr>)"
    by (simp add: enforceStorageLimit_def ex_storage_defs archive_entries_def is_archive_def in_dir_def
        extension_def file_size_def max_bytes_def)
  have "distinct (map fst (fs_files (sm_fs ?s)))" "bytes_of (archive_entries ?s) < 2 ^ 64"
    "max_bytes (sm_settings ?s) = 0"
    by (simp_all add: ex_storage_defs archive_entries_def is_archive_def in_dir_def extension_def max_bytes_def)
  with storage_limit_enforced [OF this(1,2) ev] ev show ?thesis by auto
qed

text \<open>
  (C37) Finalization is all or nothing: for a partial file, \<open>finalizePartial\<close> either returns the final
  path \<^verbatim>\<open>logs/<day>/<timestamp>.bin\<close> and has moved the file there unchanged, or returns no result (or
  throws) and every file is as before.
\<close>

theorem finalize_all_or_nothing:
  assumes "finalizePartial os p start now s = (r, s')" and "map_of (fs_files (sm_fs s)) p = Some f"
  shows "(r = Inr (Some \<lparr>final_path = sm_logs_dir s @ [day_dir os now, timestampFilename os (os_then os now) @ ''.bin''],
              fin_archive_duration_ms = int (os_done os now) - int start\<rparr>) \<and>
          map_of (fs_files (sm_fs s')) =
            (map_of (fs_files (sm_fs s)))(p := None,
               (sm_logs_dir s @ [day_dir os now, timestampFilename os (os_then os now) @ ''.bin'']) \<mapsto> f)) \<or>
         ((r = Inr None \<or> r = Inl Filesystem_error) \<and> fs_files (sm_fs s') = fs_files (sm_fs s))"
  using assms by (cases rule: finalizePartial_cases) (auto simp: dest_path_def)

theorem finalize_all_or_nothing_witness:
  "\<exists>r s'. finalizePartial ex_os [''/s'', ''tmp'', ''x''] 0 7000
       (ex_storage 1 [([''/s'', ''tmp'', ''x''], \<lparr>f_data = [1], f_mtime = 5\<rparr>)]) = (Inr (Some r), s') \<and>
     map_of (fs_files (sm_fs s')) (final_path r) = Some \<lparr>f_data = [1], f_mtime = 5\<rparr>"
proof -
  let ?s = "ex_storage 1 [([''/s'', ''tmp'', ''x''], \<lparr>f_data = [1], f_mtime = 5\<rparr>)]"
  obtain r s' where r: "finalizePartial ex_os [''/s'', ''tmp'', ''x''] 0 7000 ?s = (Inr (Some r), s')"
    by (simp add: finalizePartial_def ex_storage_defs create_directories_def Let_def fs_rename_def dest_path_def
        day_dir_def timestampFilename_def)
  have "map_of (fs_files (sm_fs ?s)) [''/s'', ''tmp'', ''x''] = Some \<lparr>f_data = [1], f_mtime = 5\<rparr>"
    by (simp add: ex_storage_defs)
  from finalize_all_or_nothing [OF r this] r show ?thesis by auto
qed

text \<open>
  Two archives of the same second collide: the final name has a resolution of one second and the
  rename replaces an existing file, so that when two partial files are finalized within one second
  only the bytes of the second remain.
\<close>

theorem same_second_archives_collide:
  assumes "map_of (fs_files (sm_fs s)) p = Some f" and "map_of (fs_files (sm_fs s)) q = Some g"
    and "p \<noteq> q" and "q \<noteq> dest_path os now s" and "os_system_time os now' = os_system_time os now"
    and "os_system_time os (os_then os now') = os_system_time os (os_then os now)"
    and "finalizePartial os p start now s = (Inr (Some r1), s1)"
    and "finalizePartial os q start' now' s1 = (Inr (Some r2), s2)"
  shows "final_path r1 = final_path r2 \<and> map_of (fs_files (sm_fs s2)) (final_path r1) = Some g \<and>
         map_of (fs_files (sm_fs s2)) = (map_of (fs_files (sm_fs s)))(p := None, q := None, final_path r1 \<mapsto> g)"
proof -
  have one: "r1 = \<lparr>final_path = dest_path os now s, fin_archive_duration_ms = int (os_done os now) - int start\<rparr>"
    "map_of (fs_files (sm_fs s1)) = (map_of (fs_files (sm_fs s)))(p := None, dest_path os now s \<mapsto> f)"
    using assms(7,1) by (cases rule: finalizePartial_cases; auto)+
  have same: "dest_path os now' s1 = dest_path os now s"
    using assms(5,6) finalizePartial_logs_dir [OF assms(7)]
    by (simp add: dest_path_def day_dir_def timestampFilename_def)
  have "map_of (fs_files (sm_fs s1)) q = Some g" using one(2) assms(2-4) by simp
  with assms(8) have "r2 = \<lparr>final_path = dest_path os now' s1, fin_archive_duration_ms = int (os_done os now') - int start'\<rparr>"
    "map_of (fs_files (sm_fs s2)) = (map_of (fs_files (sm_fs s1)))(q := None, dest_path os now' s1 \<mapsto> g)"
    by (cases rule: finalizePartial_cases; auto)+
  with one same assms(4) show ?thesis by (auto simp: fun_eq_iff)
qed

theorem same_second_archives_collide_witness:
  "\<exists>r1 s1 r2 s2. finalizePartial ex_os [''/s'', ''tmp'', ''x''] 0 7000
       (ex_storage 1 [([''/s'', ''tmp'', ''x''], \<lparr>f_data = [1], f_mtime = 5\<rparr>),
                      ([''/s'', ''tmp'', ''y''], \<lparr>f_data = [2], f_mtime = 6\<rparr>)]) = (Inr (Some r1), s1) \<and>
     finalizePartial ex_os [''/s'', ''tmp'', ''y''] 0 7900 s1 = (Inr (Some r2), s2) \<and>
     map_of (fs_files (sm_fs s2)) (final_path r1) = Some \<lparr>f_data = [2], f_mtime = 6\<rparr>"
proof -
  let ?s = "ex_storage 1 [([''/s'', ''tmp'', ''x''], \<lparr>f_data = [1], f_mtime = 5\<rparr>),
                          ([''/s'', ''tmp'', ''y''], \<lparr>f_data = [2], f_mtime = 6\<rparr>)]"
  have "\<exists>r1 s1. finalizePartial ex_os [''/s'', ''tmp'', ''x''] 0 7000 ?s = (Inr (Some r1), s1) \<and>
      (\<exists>r2 s2. finalizePartial ex_os [''/s'', ''tmp'', ''y''] 0 7900 s1 = (Inr (Some r2), s2))"
    by (simp add: finalizePartial_def ex_storage_defs create_directories_def Let_def fs_rename_def dest_path_def
        day_dir_def timestampFilename_def)
  then obtain r1 s1 r2 s2 where a: "finalizePartial ex_os [''/s'', ''tmp'', ''x''] 0 7000 ?s = (Inr (Some r1), s1)"
    "finalizePartial ex_os [''/s'', ''tmp'', ''y''] 0 7900 s1 = (Inr (Some r2), s2)" by blast
  from same_second_archives_collide [OF _ _ _ _ _ _ a, of "\<lparr>f_data = [1], f_mtime = 5\<rparr>" "\<lparr>f_data = [2], f_mtime = 6\<rparr>"] a
  show ?thesis by (auto simp: ex_storage_defs dest_path_def)
qed

text \<open>The paths of a sequence of calls of \<open>beginPartialFile\<close>.\<close>

fun partial_paths :: "os \<Rightarrow> nat list \<Rightarrow> StorageManager \<Rightarrow> path list" where
  "partial_paths os [] s = []"
| "partial_paths os (now # nows) s =
     (case beginPartialFile os now s of (p, s') \<Rightarrow> p # partial_paths os nows s')"

lemma partial_paths_form:
  "p \<in> set (partial_paths os nows s) \<Longrightarrow>
   \<exists>t n. sm_partial_counter s < n \<and>
     p = sm_tmp_dir s @ [(t @ ''_par'') @ CHR ''t'' # to_string n @ ''.bin.partial'']"
proof (induction nows arbitrary: s)
  case (Cons now nows)
  let ?s = "s\<lparr>sm_partial_counter := sm_partial_counter s + 1\<rparr>"
  from Cons.prems Cons.IH [of ?s] show ?case
    by (auto simp: beginPartialFile_def Let_def) (use Suc_lessD in blast)
qed simp

text \<open>
  Partial files never share a path: whatever the clock shows, the paths handed out by successive
  calls of \<open>beginPartialFile\<close> are pairwise different.
\<close>

theorem partial_paths_distinct:
  "distinct (partial_paths os nows s)"
proof (induction nows arbitrary: s)
  case (Cons now nows)
  let ?s = "s\<lparr>sm_partial_counter := sm_partial_counter s + 1\<rparr>"
  let ?p = "sm_tmp_dir s @ [(timestampFilename os now @ ''_par'') @ CHR ''t'' # to_string (sm_partial_counter s + 1)
        @ ''.bin.partial'']"
  have "?p \<notin> set (partial_paths os nows ?s)"
  proof
    assume "?p \<in> set (partial_paths os nows ?s)"
    from partial_paths_form [OF this] obtain t n where "sm_partial_counter s + 1 < n"
      "(timestampFilename os now @ ''_par'') @ CHR ''t'' # to_string (sm_partial_counter s + 1) @ ''.bin.partial''
       = (t @ ''_par'') @ CHR ''t'' # to_string n @ ''.bin.partial''" by auto
    with digits_before_suffix [OF this(2)] show False by (simp add: is_digit_def)
  qed
  with Cons [of ?s] show ?case by (simp add: beginPartialFile_def Let_def)
qed simp

lemma remove_loop_files:
  "remove_loop os ps fs = (Inr (), fs') \<Longrightarrow>
   fs_files fs' = filter (\<lambda>(p, f). \<not> (p \<in> set ps \<and> extension (last p) = ''.partial'')) (fs_files fs)"
proof (induction os ps fs rule: remove_loop.induct)
  case (1 os fs)
  then show ?case by simp
next
  case (2 os p ps fs)
  then show ?case
    by (auto simp: fs_remove_def AList.delete_eq split: if_splits intro!: filter_cong)
qed

text \<open>
  Start-up removes exactly the leftover partial files: when \<open>cleanupPartials\<close> returns and the
  directory exists, the files that are gone are those directly inside it whose extension is
  \<^verbatim>\<open>.partial\<close>.
\<close>

theorem cleanup_removes_partials:
  assumes "fs_exists (sm_tmp_dir s) (sm_fs s)" and "cleanupPartials os s = (Inr (), s')"
  shows "fs_files (sm_fs s') = filter (\<lambda>(p, f). \<not> (directly_in (sm_tmp_dir s) p \<and> extension (last p) = ''.partial''))
           (fs_files (sm_fs s))"
proof -
  obtain fs where "remove_loop os (filter (directly_in (sm_tmp_dir s)) (map fst (fs_files (sm_fs s)))) (sm_fs s)
      = (Inr (), fs)" "s' = s\<lparr>sm_fs := fs\<rparr>"
    using assms by (auto simp: cleanupPartials_def split: prod.splits)
  from remove_loop_files [OF this(1)] this(2) show ?thesis
    by (auto intro!: filter_cong simp: rev_image_eqI)
qed

theorem cleanup_removes_partials_witness:
  "\<exists>s'. cleanupPartials ex_os (ex_storage 1 [([''/s'', ''tmp'', ''x.partial''], \<lparr>f_data = [1], f_mtime = 5\<rparr>)])
       = (Inr (), s') \<and> fs_files (sm_fs s') = []"
proof -
  let ?s = "ex_storage 1 [([''/s'', ''tmp'', ''x.partial''], \<lparr>f_data = [1], f_mtime = 5\<rparr>)]"
  have d: "directly_in [''/s'', ''tmp''] [''/s'', ''tmp'', ''x.partial'']" "extension ''x.partial'' = ''.partial''"
    by (simp_all add: directly_in_def in_dir_def extension_def)
  obtain s' where c: "cleanupPartials ex_os ?s = (Inr (), s')"
    using d by (simp add: cleanupPartials_def ex_storage_defs)
  have "fs_exists (sm_tmp_dir ?s) (sm_fs ?s)" by (simp add: ex_storage_defs)
  from cleanup_removes_partials [OF this c] c d show ?thesis by (simp add: ex_storage_defs)
qed

end
