(* ===== verification/Database.thy ===== *)
theory Database
  imports StorageManager
begin

text \<open>
  \<^verbatim>\<open>Database\<close>: the SQLite catalog of archived logs and the persistent counters. The tables are lists
  of rows and the SQL statements of the source are functions on them. SQLite itself is the parameter
  \<open>sqlite\<close>: which of its calls succeed, and which of several matching rows a \<^verbatim>\<open>LIMIT 1\<close> without an
  order returns. A thrown exception is the value \<open>Inl (Sqlite_error context)\<close>.
\<close>

section \<open>Model\<close>

record archived_row =
  ar_sha256 :: string
  ar_fc_log_id :: u16
  ar_fc_log_size :: u32
  ar_fc_log_time_utc :: u32
  ar_probe_sha256 :: string
  ar_probe_bytes :: int
  ar_archive_time :: int
  ar_archive_duration_ms :: int
  ar_filename :: string
  ar_erased :: bool

record database =
  archived_logs :: "archived_row list"
  statistics :: "(string \<times> int) list"
  sqlite_calls :: nat

record sqlite =
  sq_ok :: "nat \<Rightarrow> bool"
  sq_choice :: "archived_row list \<Rightarrow> nat"

definition Database_new :: database where
  "Database_new = \<lparr>archived_logs = [], statistics = [], sqlite_calls = 0\<rparr>"

text \<open>The result of the next SQLite call.\<close>

definition sqlite_call :: "sqlite \<Rightarrow> database \<Rightarrow> bool \<times> database" where
  "sqlite_call sq d = (sq_ok sq (sqlite_calls d), d\<lparr>sqlite_calls := sqlite_calls d + 1\<rparr>)"

text \<open>
  Opening the file and the three scripts of \<^verbatim>\<open>initialize\<close>; \<^verbatim>\<open>CREATE TABLE IF NOT EXISTS\<close> leaves the rows of
  an existing table alone. The directory is created by the caller of this definition.
\<close>

primrec sqlite_execs :: "sqlite \<Rightarrow> nat \<Rightarrow> database \<Rightarrow> (exn + unit) \<times> database" where
  "sqlite_execs sq 0 d = (Inr (), d)"
| "sqlite_execs sq (Suc n) d =
     (case sqlite_call sq d of
        (False, d) \<Rightarrow> (Inl (Sqlite_error ''exec''), d)
      | (True, d) \<Rightarrow> sqlite_execs sq n d)"

definition database_open :: "sqlite \<Rightarrow> database \<Rightarrow> (exn + unit) \<times> database" where
  "database_open sq d =
     (case sqlite_call sq d of
        (False, d) \<Rightarrow> (Inl (Sqlite_error ''sqlite3_open''), d)
      | (True, d) \<Rightarrow> sqlite_execs sq 3 d)"

definition matching_rows :: "u16 \<Rightarrow> u32 \<Rightarrow> database \<Rightarrow> archived_row list" where
  "matching_rows i n d = filter (\<lambda>r. ar_fc_log_id r = i \<and> ar_fc_log_size r = n) (archived_logs d)"

definition candidate_of :: "archived_row \<Rightarrow> ArchivedLogCandidate" where
  "candidate_of r = \<lparr>cand_sha256 = ar_sha256 r, cand_probe_sha256 = ar_probe_sha256 r,
     cand_probe_bytes = ar_probe_bytes r, cand_filename = ar_filename r\<rparr>"

definition findCandidate ::
  "sqlite \<Rightarrow> u16 \<Rightarrow> u32 \<Rightarrow> database \<Rightarrow> (exn + ArchivedLogCandidate option) \<times> database" where
  "findCandidate sq fc_log_id fc_log_size d =
     (case sqlite_call sq d of
        (False, d) \<Rightarrow> (Inl (Sqlite_error ''prepare findCandidate''), d)
      | (True, d) \<Rightarrow>
          (case sqlite_call sq d of (row, d) \<Rightarrow>
             let rows = matching_rows fc_log_id fc_log_size d in
             (Inr (if row \<and> rows \<noteq> []
                   then Some (candidate_of (rows ! (sq_choice sq rows mod length rows))) else None), d)))"

definition hasArchived :: "sqlite \<Rightarrow> u16 \<Rightarrow> u32 \<Rightarrow> database \<Rightarrow> (exn + bool) \<times> database" where
  "hasArchived sq fc_log_id fc_log_size d =
     (case findCandidate sq fc_log_id fc_log_size d of
        (Inl e, d) \<Rightarrow> (Inl e, d)
      | (Inr c, d) \<Rightarrow> (Inr (c \<noteq> None), d))"

definition insertArchivedLog :: "sqlite \<Rightarrow> archived_row \<Rightarrow> database \<Rightarrow> (exn + unit) \<times> database" where
  "insertArchivedLog sq r d =
     (case sqlite_call sq d of
        (False, d) \<Rightarrow> (Inl (Sqlite_error ''prepare insert''), d)
      | (True, d) \<Rightarrow>
          (case sqlite_call sq d of
             (False, d) \<Rightarrow> (Inl (Sqlite_error ''insert archived log''), d)
           | (True, d) \<Rightarrow>
               (Inr (), d\<lparr>archived_logs :=
                  filter (\<lambda>x. ar_sha256 x \<noteq> ar_sha256 r) (archived_logs d) @ [r\<lparr>ar_erased := False\<rparr>]\<rparr>)))"

definition markAllErased :: "sqlite \<Rightarrow> database \<Rightarrow> (exn + unit) \<times> database" where
  "markAllErased sq d =
     (case sqlite_call sq d of
        (False, d) \<Rightarrow> (Inl (Sqlite_error ''exec''), d)
      | (True, d) \<Rightarrow> (Inr (), d\<lparr>archived_logs := map (\<lambda>r. r\<lparr>ar_erased := True\<rparr>) (archived_logs d)\<rparr>))"

definition getStat :: "sqlite \<Rightarrow> string \<Rightarrow> database \<Rightarrow> (exn + int) \<times> database" where
  "getStat sq key d =
     (case sqlite_call sq d of
        (False, d) \<Rightarrow> (Inl (Sqlite_error ''prepare getStat''), d)
      | (True, d) \<Rightarrow>
          (case sqlite_call sq d of (row, d) \<Rightarrow>
             (Inr (if row then case map_of (statistics d) key of None \<Rightarrow> 0 | Some v \<Rightarrow> v else 0), d)))"

definition setStat :: "sqlite \<Rightarrow> string \<Rightarrow> int \<Rightarrow> database \<Rightarrow> (exn + unit) \<times> database" where
  "setStat sq key v d =
     (case sqlite_call sq d of
        (False, d) \<Rightarrow> (Inl (Sqlite_error ''prepare setStat''), d)
      | (True, d) \<Rightarrow>
          (case sqlite_call sq d of
             (False, d) \<Rightarrow> (Inl (Sqlite_error ''setStat''), d)
           | (True, d) \<Rightarrow> (Inr (), d\<lparr>statistics := AList.update key v (statistics d)\<rparr>)))"

definition incrementStat :: "sqlite \<Rightarrow> string \<Rightarrow> int \<Rightarrow> database \<Rightarrow> (exn + int) \<times> database" where
  "incrementStat sq key delta d =
     (case getStat sq key d of
        (Inl e, d) \<Rightarrow> (Inl e, d)
      | (Inr current, d) \<Rightarrow>
          let next = to_int64 (current + delta) in
          (case setStat sq key next d of
             (Inl e, d) \<Rightarrow> (Inl e, d)
           | (Inr _, d) \<Rightarrow> (Inr next, d)))"

section \<open>The contract of the catalog\<close>

text \<open>
  What the downloader relies on: a candidate is a row of the catalog for the asked log, reading
  changes nothing, an insertion replaces the row of the same digest and leaves the others, and a
  failed insertion changes nothing.
\<close>

locale log_catalog =
  fixes rows :: "'d \<Rightarrow> archived_row set"
    and find :: "u16 \<Rightarrow> u32 \<Rightarrow> 'd \<Rightarrow> (exn + ArchivedLogCandidate option) \<times> 'd"
    and insert_row :: "archived_row \<Rightarrow> 'd \<Rightarrow> (exn + unit) \<times> 'd"
    and bump :: "string \<Rightarrow> int \<Rightarrow> 'd \<Rightarrow> (exn + int) \<times> 'd"
    and erase_all :: "'d \<Rightarrow> (exn + unit) \<times> 'd"
  assumes find_row: "find i n d = (Inr (Some c), d') \<Longrightarrow>
        \<exists>r\<in>rows d. ar_fc_log_id r = i \<and> ar_fc_log_size r = n \<and> candidate_of r = c"
    and find_rows: "rows (snd (find i n d)) = rows d"
    and insert_rows: "insert_row r d = (Inr (), d') \<Longrightarrow>
        rows d' = insert (r\<lparr>ar_erased := False\<rparr>) {x \<in> rows d. ar_sha256 x \<noteq> ar_sha256 r}"
    and insert_failed: "insert_row r d = (Inl e, d') \<Longrightarrow> rows d' = rows d"
    and bump_rows: "rows (snd (bump key k d)) = rows d"
    and erase_rows: "erase_all d = (Inr (), d') \<Longrightarrow> rows d' = (\<lambda>r. r\<lparr>ar_erased := True\<rparr>) ` rows d"
    and erase_failed: "erase_all d = (Inl e, d') \<Longrightarrow> rows d' = rows d"
begin

definition keyed :: "'d \<Rightarrow> bool" where
  "keyed d \<longleftrightarrow> inj_on ar_sha256 (rows d)"

lemma keyed_insert: "keyed d \<Longrightarrow> insert_row r d = (x, d') \<Longrightarrow> keyed d'"
  using insert_rows [of r d d'] insert_failed [of r d _ d']
  by (cases x) (auto simp: keyed_def inj_on_def)

lemma keyed_erase: "keyed d \<Longrightarrow> erase_all d = (x, d') \<Longrightarrow> keyed d'"
  using erase_rows [of d d'] erase_failed [of d _ d']
  by (cases x) (auto simp: keyed_def inj_on_def)

text \<open>A digest that was catalogued stays catalogued.\<close>

lemma digest_kept_insert: "ar_sha256 ` rows d \<subseteq> ar_sha256 ` rows (snd (insert_row r d))"
proof (cases "insert_row r d")
  case (Pair x d')
  then show ?thesis
    using insert_rows [of r d d'] insert_failed [of r d _ d'] by (cases x) auto
qed

lemma digest_kept_erase: "ar_sha256 ` rows (snd (erase_all d)) = ar_sha256 ` rows d"
proof (cases "erase_all d")
  case (Pair x d')
  then show ?thesis
    using erase_rows [of d d'] erase_failed [of d _ d'] by (cases x) (auto simp: image_image)
qed

end

lemma sqlite_call_eq: "sqlite_call sq d = (b, d') \<Longrightarrow> archived_logs d' = archived_logs d \<and> statistics d' = statistics d"
  by (auto simp: sqlite_call_def)

interpretation cat: log_catalog "\<lambda>d. set (archived_logs d)" "findCandidate sq" "insertArchivedLog sq"
  "incrementStat sq" "markAllErased sq"
proof unfold_locales
  fix i n d c d' assume "findCandidate sq i n d = (Inr (Some c), d')"
  then have "matching_rows i n d \<noteq> []"
    "c = candidate_of (matching_rows i n d ! (sq_choice sq (matching_rows i n d) mod length (matching_rows i n d)))"
    by (auto simp: findCandidate_def sqlite_call_def matching_rows_def Let_def split: if_splits bool.splits)
  then show "\<exists>r\<in>set (archived_logs d). ar_fc_log_id r = i \<and> ar_fc_log_size r = n \<and> candidate_of r = c"
    using nth_mem [of "sq_choice sq (matching_rows i n d) mod length (matching_rows i n d)" "matching_rows i n d"]
    by (auto simp: matching_rows_def)
qed (auto simp: findCandidate_def insertArchivedLog_def incrementStat_def getStat_def setStat_def
    markAllErased_def sqlite_call_def Let_def split: bool.splits if_splits option.splits)

section \<open>Sequences of operations\<close>

datatype db_op =
    Op_insert archived_row | Op_erase | Op_find u16 u32
  | Op_increment string int | Op_set string int | Op_get string

datatype db_result = R_error exn | R_done | R_found "ArchivedLogCandidate option" | R_value int

fun result_of :: "('a \<Rightarrow> db_result) \<Rightarrow> (exn + 'a) \<times> database \<Rightarrow> db_result \<times> database" where
  "result_of f (Inl e, d) = (R_error e, d)"
| "result_of f (Inr x, d) = (f x, d)"

lemma snd_result_of [simp]: "snd (result_of f x) = snd x"
  by (cases "(f, x)" rule: result_of.cases) auto

fun db_exec :: "sqlite \<Rightarrow> db_op \<Rightarrow> database \<Rightarrow> db_result \<times> database" where
  "db_exec sq (Op_insert r) d = result_of (\<lambda>_. R_done) (insertArchivedLog sq r d)"
| "db_exec sq Op_erase d = result_of (\<lambda>_. R_done) (markAllErased sq d)"
| "db_exec sq (Op_find i n) d = result_of R_found (findCandidate sq i n d)"
| "db_exec sq (Op_increment key k) d = result_of R_value (incrementStat sq key k d)"
| "db_exec sq (Op_set key v) d = result_of (\<lambda>_. R_done) (setStat sq key v d)"
| "db_exec sq (Op_get key) d = result_of R_value (getStat sq key d)"

definition db_step :: "sqlite \<Rightarrow> db_op \<Rightarrow> database \<Rightarrow> database" where
  "db_step sq x d = snd (db_exec sq x d)"

text \<open>Whether SQLite answered all the calls an operation made.\<close>

definition answered :: "sqlite \<Rightarrow> db_op \<Rightarrow> database \<Rightarrow> bool" where
  "answered sq x d = list_all (sq_ok sq) [sqlite_calls d..<sqlite_calls (db_step sq x d)]"

text \<open>The operations of a sequence with their results, and whether SQLite answered each.\<close>

fun db_trace :: "sqlite \<Rightarrow> db_op list \<Rightarrow> database \<Rightarrow> (bool \<times> db_op \<times> db_result) list" where
  "db_trace sq [] d = []"
| "db_trace sq (x # xs) d = (answered sq x d, x, fst (db_exec sq x d)) # db_trace sq xs (db_step sq x d)"

definition db_run :: "sqlite \<Rightarrow> db_op list \<Rightarrow> database \<Rightarrow> database" where
  "db_run sq ops d = fold (db_step sq) ops d"

lemmas db_defs = insertArchivedLog_def markAllErased_def findCandidate_def incrementStat_def setStat_def
  getStat_def sqlite_call_def db_step_def Let_def

lemma db_run_simps [simp]: "db_run sq [] d = d" "db_run sq (x # xs) d = db_run sq xs (db_step sq x d)"
  by (simp_all add: db_run_def)

definition db_keys :: "database \<Rightarrow> bool" where
  "db_keys d \<longleftrightarrow> distinct (map ar_sha256 (archived_logs d)) \<and> distinct (map fst (statistics d))"

lemma distinct_keys_update: "distinct (map fst al) \<Longrightarrow> distinct (map fst (AList.update k v al))"
  by (rule distinct_update)

lemma db_keys_step: "db_keys d \<Longrightarrow> db_keys (db_step sq x d)"
  by (cases x) (auto simp: db_keys_def db_defs distinct_keys_update comp_def distinct_map_filter
      split: bool.splits)

lemma db_keys_run: "db_keys d \<Longrightarrow> db_keys (db_run sq ops d)"
  by (induction ops arbitrary: d) (simp_all add: db_keys_step)

text \<open>The specification: a map from digests to rows and a function from counter names to values.\<close>

type_synonym db_spec = "(string \<Rightarrow> archived_row option) \<times> (string \<Rightarrow> int)"

definition db_abs :: "database \<Rightarrow> db_spec" where
  "db_abs d = (map_of (map (\<lambda>r. (ar_sha256 r, r)) (archived_logs d)),
     \<lambda>key. case map_of (statistics d) key of None \<Rightarrow> 0 | Some v \<Rightarrow> v)"

text \<open>
  The allowed results and the new contents of each operation, by whether SQLite answered all its calls.
  A writing operation that was not answered throws and changes nothing. A lookup that was not answered
  throws or finds nothing, and a counter that could not be read counts as 0, also in an increment.
\<close>

definition write_allows :: "bool \<Rightarrow> db_result \<Rightarrow> 'a \<Rightarrow> 'a \<Rightarrow> 'a \<Rightarrow> bool" where
  "write_allows ok r A B A' \<longleftrightarrow> (if ok then r = R_done \<and> A' = B else (\<exists>e. r = R_error e) \<and> A' = A)"

fun spec_allows :: "bool \<Rightarrow> db_op \<Rightarrow> db_result \<Rightarrow> db_spec \<Rightarrow> db_spec \<Rightarrow> bool" where
  "spec_allows ok (Op_insert row) r (m, st) A' =
     write_allows ok r (m, st) (m(ar_sha256 row \<mapsto> row\<lparr>ar_erased := False\<rparr>), st) A'"
| "spec_allows ok Op_erase r (m, st) A' =
     write_allows ok r (m, st) (\<lambda>k. map_option (\<lambda>r. r\<lparr>ar_erased := True\<rparr>) (m k), st) A'"
| "spec_allows ok (Op_set key v) r (m, st) A' = write_allows ok r (m, st) (m, st(key := v)) A'"
| "spec_allows ok (Op_find i n) r A A' =
     (A' = A \<and> (case r of
        R_found (Some c) \<Rightarrow>
          ok \<and> (\<exists>row\<in>ran (fst A). ar_fc_log_id row = i \<and> ar_fc_log_size row = n \<and> c = candidate_of row)
      | R_found None \<Rightarrow> \<not> ok \<or> (\<forall>row\<in>ran (fst A). ar_fc_log_id row \<noteq> i \<or> ar_fc_log_size row \<noteq> n)
      | R_error e \<Rightarrow> \<not> ok
      | _ \<Rightarrow> False))"
| "spec_allows ok (Op_get key) r A A' =
     (A' = A \<and> (case r of R_value v \<Rightarrow> v = (if ok then snd A key else 0) | R_error e \<Rightarrow> \<not> ok | _ \<Rightarrow> False))"
| "spec_allows ok (Op_increment key k) r (m, st) A' =
     (case r of
        R_value v \<Rightarrow> v = to_int64 ((if ok then st key else 0) + k) \<and> A' = (m, st(key := v))
      | R_error e \<Rightarrow> \<not> ok \<and> A' = (m, st)
      | _ \<Rightarrow> False)"

fun spec_run :: "(bool \<times> db_op \<times> db_result) list \<Rightarrow> db_spec \<Rightarrow> db_spec \<Rightarrow> bool" where
  "spec_run [] A A' = (A' = A)"
| "spec_run ((ok, x, r) # tr) A A' = (\<exists>B. spec_allows ok x r A B \<and> spec_run tr B A')"

lemma map_of_replace:
  "ar_sha256 r = k \<Longrightarrow>
   map_of (map (\<lambda>r. (ar_sha256 r, r)) (filter (\<lambda>x. ar_sha256 x \<noteq> k) rs @ [r]))
     = (map_of (map (\<lambda>r. (ar_sha256 r, r)) rs))(k \<mapsto> r)"
  by (induction rs) (auto simp: fun_eq_iff)

lemma map_of_erase:
  "map_of (map (\<lambda>r. (ar_sha256 r, r)) (map (\<lambda>r. r\<lparr>ar_erased := True\<rparr>) rs)) =
   (\<lambda>k. map_option (\<lambda>r. r\<lparr>ar_erased := True\<rparr>) (map_of (map (\<lambda>r. (ar_sha256 r, r)) rs) k))"
  by (induction rs) (auto simp: fun_eq_iff)

lemma ran_rows:
  assumes "distinct (map ar_sha256 rs)"
  shows "ran (map_of (map (\<lambda>r. (ar_sha256 r, r)) rs)) = set rs"
  using assms by (simp add: ran_distinct comp_def image_image)

lemma find_none:
  "findCandidate sq i n d = (Inr None, d') \<Longrightarrow> sq_ok sq (sqlite_calls d + 1) \<Longrightarrow> matching_rows i n d = []"
  by (auto simp: findCandidate_def sqlite_call_def matching_rows_def Let_def split: bool.splits if_splits)

lemma find_calls:
  "findCandidate sq i n d = (Inr c, d') \<Longrightarrow>
   sqlite_calls d' = sqlite_calls d + 2 \<and> sq_ok sq (sqlite_calls d) \<and> (c \<noteq> None \<longrightarrow> sq_ok sq (sqlite_calls d + 1))"
  "findCandidate sq i n d = (Inl e, d') \<Longrightarrow> sqlite_calls d' = sqlite_calls d + 1 \<and> \<not> sq_ok sq (sqlite_calls d)"
  by (auto simp: findCandidate_def sqlite_call_def Let_def split: bool.splits if_splits)

lemma find_refines:
  assumes "db_keys d"
  shows "spec_allows (answered sq (Op_find i n) d) (Op_find i n) (fst (db_exec sq (Op_find i n) d)) (db_abs d)
     (db_abs (db_step sq (Op_find i n) d))"
proof -
  obtain y d' where f: "findCandidate sq i n d = (y, d')" by fastforce
  have rows: "ran (fst (db_abs d)) = set (archived_logs d)"
    using assms by (simp add: db_abs_def ran_rows db_keys_def)
  have same: "db_abs d' = db_abs d"
    using f by (auto simp: findCandidate_def sqlite_call_def db_abs_def Let_def split: bool.splits)
  show ?thesis
  proof (cases y)
    case (Inl e)
    with f same find_calls(2) [of sq i n d e d'] show ?thesis
      by (simp add: answered_def db_step_def)
  next
    case (Inr c)
    note calls = find_calls(1) [OF f [unfolded Inr]]
    show ?thesis
    proof (cases c)
      case None
      with f Inr same calls find_none [of sq i n d d'] rows show ?thesis
        by (auto simp: answered_def db_step_def matching_rows_def filter_empty_conv)
    next
      case (Some x)
      with f Inr same calls rows cat.find_row [of sq i n d x d'] show ?thesis
        by (auto simp: answered_def db_step_def)
    qed
  qed
qed

lemma db_step_refines:
  assumes "db_keys d"
  shows "spec_allows (answered sq x d) x (fst (db_exec sq x d)) (db_abs d) (db_abs (db_step sq x d))"
proof (cases x)
  case (Op_insert r)
  then show ?thesis
    using map_of_replace [of "r\<lparr>ar_erased := False\<rparr>" "ar_sha256 r" "archived_logs d"]
    by (simp add: answered_def write_allows_def db_defs db_abs_def split: bool.splits)
next
  case Op_erase
  then show ?thesis
    using map_of_erase [of "archived_logs d"]
    by (simp add: answered_def write_allows_def db_defs db_abs_def split: bool.splits)
next
  case (Op_find i n)
  with find_refines [OF assms] show ?thesis by simp
next
  case (Op_increment key k)
  then show ?thesis
    by (auto simp: answered_def db_defs db_abs_def update_conv' fun_eq_iff split: bool.splits option.splits)
next
  case (Op_set key v)
  then show ?thesis
    by (auto simp: answered_def write_allows_def db_defs db_abs_def update_conv' fun_eq_iff
        split: bool.splits option.splits)
next
  case (Op_get key)
  then show ?thesis
    by (auto simp: answered_def db_defs db_abs_def split: bool.splits option.splits)
qed

lemma db_run_refines: "db_keys d \<Longrightarrow> spec_run (db_trace sq ops d) (db_abs d) (db_abs (db_run sq ops d))"
proof (induction ops arbitrary: d)
  case (Cons x ops)
  from Cons.IH [OF db_keys_step [OF Cons.prems]] db_step_refines [OF Cons.prems] show ?case
    unfolding db_trace.simps spec_run.simps db_run_simps by blast
qed simp

section \<open>Properties\<close>

text \<open>
  (C10) The catalog refines a map: whatever SQLite calls fail, any sequence of operations on an empty
  database returns results, and leaves tables, that a map from digests to rows and a table of counters
  allow. An insertion that SQLite answers overwrites the row of its digest and resets the erased flag,
  \<open>markAllErased\<close> sets it everywhere, a lookup returns a row of the asked id and size exactly when there
  is one; a write that is not answered throws and changes nothing; an unreadable counter counts as 0.
\<close>

theorem database_refines_map:
  "spec_run (db_trace sq ops Database_new) (\<lambda>_. None, \<lambda>_. 0) (db_abs (db_run sq ops Database_new))"
  using db_run_refines [of Database_new sq ops] by (simp add: db_keys_def db_abs_def Database_new_def)

definition ex_sqlite :: sqlite where
  "ex_sqlite = \<lparr>sq_ok = (\<lambda>_. True), sq_choice = (\<lambda>_. 0)\<rparr>"

text \<open>
  A counter is lost when it cannot be read: if the second call of an increment by 1, the read of the
  row, fails and the others are answered, the counter is 1 afterwards, whatever it was.
\<close>

lemma unread_counter_is_reset:
  assumes "sq_ok sq (sqlite_calls d)" and "\<not> sq_ok sq (sqlite_calls d + 1)"
    and "sq_ok sq (sqlite_calls d + 2)" and "sq_ok sq (sqlite_calls d + 3)"
  shows "fst (incrementStat sq key 1 d) = Inr 1 \<and> snd (db_abs (snd (incrementStat sq key 1 d))) key = 1"
  using assms by (simp add: db_defs db_abs_def update_conv' to_int64_id numeral_3_eq_3)

text \<open>
  Digests stay unique and are never lost: whatever SQLite calls fail, after any sequence of
  operations on an empty database no two rows have the same digest and no counter occurs twice, and
  a digest once catalogued is still catalogued after any further operations.
\<close>

theorem catalog_keys_unique_and_kept:
  "distinct (map ar_sha256 (archived_logs (db_run sq ops Database_new))) \<and>
   distinct (map fst (statistics (db_run sq ops Database_new))) \<and>
   ar_sha256 ` set (archived_logs (db_run sq ops Database_new))
     \<subseteq> ar_sha256 ` set (archived_logs (db_run sq (ops @ ops') Database_new))"
proof -
  have step: "ar_sha256 ` set (archived_logs d) \<subseteq> ar_sha256 ` set (archived_logs (db_step sq x d))" for x d
    by (cases x) (simp_all add: db_step_def cat.digest_kept_insert cat.digest_kept_erase cat.find_rows cat.bump_rows
        setStat_def getStat_def sqlite_call_def split: bool.splits)
  have "ar_sha256 ` set (archived_logs d) \<subseteq> ar_sha256 ` set (archived_logs (db_run sq xs d))" for xs d
  proof (induction xs arbitrary: d)
    case (Cons x xs)
    from order_trans [OF step Cons] show ?case by simp
  qed simp
  then have "ar_sha256 ` set (archived_logs (db_run sq ops Database_new))
     \<subseteq> ar_sha256 ` set (archived_logs (db_run sq ops' (db_run sq ops Database_new)))" .
  moreover have "db_run sq (ops @ ops') Database_new = db_run sq ops' (db_run sq ops Database_new)"
    by (simp add: db_run_def)
  moreover have "db_keys (db_run sq ops Database_new)"
    by (rule db_keys_run) (simp add: db_keys_def Database_new_def)
  ultimately show ?thesis by (simp add: db_keys_def)
qed

text \<open>
  What is inserted is found: after a successful \<open>insertArchivedLog\<close>, a lookup of the log's id and
  size that SQLite answers returns a candidate, and it is the inserted row unless the catalog has
  another row for the same id and size.
\<close>

theorem inserted_log_is_found:
  assumes "insertArchivedLog sq r d = (Inr (), d')" and "sq_ok sq (sqlite_calls d')" and "sq_ok sq (sqlite_calls d' + 1)"
  shows "\<exists>c. fst (findCandidate sq (ar_fc_log_id r) (ar_fc_log_size r) d') = Inr (Some c) \<and>
    (matching_rows (ar_fc_log_id r) (ar_fc_log_size r) d' = [r\<lparr>ar_erased := False\<rparr>] \<longrightarrow> c = candidate_of r)"
proof -
  have "r\<lparr>ar_erased := False\<rparr> \<in> set (matching_rows (ar_fc_log_id r) (ar_fc_log_size r) d')"
    using cat.insert_rows [OF assms(1)] by (simp add: matching_rows_def)
  then have "matching_rows (ar_fc_log_id r) (ar_fc_log_size r) d' \<noteq> []" by auto
  moreover have "matching_rows i n (d'\<lparr>sqlite_calls := k\<rparr>) = matching_rows i n d'" for i n k
    by (simp add: matching_rows_def)
  ultimately show ?thesis
    using assms(2,3) by (auto simp: findCandidate_def sqlite_call_def Let_def candidate_of_def)
qed

definition ex_row :: archived_row where
  "ex_row = \<lparr>ar_sha256 = ''ab'', ar_fc_log_id = 7, ar_fc_log_size = 100, ar_fc_log_time_utc = 0,
     ar_probe_sha256 = ''cd'', ar_probe_bytes = 100, ar_archive_time = 0, ar_archive_duration_ms = 0,
     ar_filename = ''f'', ar_erased = False\<rparr>"

theorem inserted_log_is_found_witness:
  "\<exists>c. fst (findCandidate ex_sqlite 7 100 (snd (insertArchivedLog ex_sqlite ex_row Database_new))) = Inr (Some c)"
  using inserted_log_is_found [of ex_sqlite ex_row Database_new "snd (insertArchivedLog ex_sqlite ex_row Database_new)"]
  by (auto simp: ex_row_def ex_sqlite_def insertArchivedLog_def sqlite_call_def)

end
