(* ===== verification/LogDownloader.thy ===== *)
theory LogDownloader
  imports DownloaderHistory DataFlashValidator FcSampleOffsets Database
begin

text \<open>
  \<^verbatim>\<open>LogDownloader\<close>: enumeration of the logs of the flight controller, duplicate detection, download,
  verification and persistence of one log, the archive cycle, and the erase command. The state is
  the record \<open>archiver\<close> of the downloader proper, the catalog and the storage manager. A function
  returns \<open>None\<close> while it waits for the outside world, and otherwise a value or a thrown exception
  with the state it leaves. The performance summary of \<open>archiveOne\<close> only feeds a log line and is left
  out, as are the other log lines.
\<close>

section \<open>Enumeration\<close>

text \<open>
  \<^verbatim>\<open>std::sort\<close> leaves open which of several entries of one id comes first; the model keeps their
  order.
\<close>

function enum_wait :: "nat \<Rightarrow> nat \<Rightarrow> nat \<Rightarrow> downloader \<Rightarrow> downloader option" where
  "enum_wait deadline seen last_progress w =
     (if clock w < deadline then
        if cancelled w then Some w
        else case wait_tick w of
          None \<Rightarrow> None
        | Some w' \<Rightarrow>
            let cnt = length (pending_entries w') in
            if seen < cnt then enum_wait deadline cnt (clock w') w'
            else if 1000 \<le> clock w' - last_progress then Some w'
            else enum_wait deadline seen last_progress w'
      else Some w)"
  by pat_completeness auto
termination
  by (relation "measure (\<lambda>(d, s, l, w). length (script w))") (auto dest: wait_tick_script)

declare enum_wait.simps [simp del]

function enum_attempts :: "nat \<Rightarrow> nat \<Rightarrow> downloader \<Rightarrow> downloader option" where
  "enum_attempts attempt attempts w =
     (if attempts < attempt then Some w
      else
        let w = requestLogList w in
        (case enum_wait (clock w + 15000) (length (pending_entries w)) (clock w) w of
           None \<Rightarrow> None
         | Some w \<Rightarrow>
             if pending_entries w \<noteq> [] \<or> cancelled w \<or> attempt = attempts then Some w
             else (case interruptibleSleep (enumerate_retry_delay_sec (settings w)) w of
                     None \<Rightarrow> None
                   | Some w \<Rightarrow> if cancelled w then Some w else enum_attempts (attempt + 1) attempts w)))"
  by pat_completeness auto
termination
  by (relation "measure (\<lambda>(attempt, attempts, w). attempts + 1 - attempt)") auto

declare enum_attempts.simps [simp del]

fun unique_ids :: "LogEntry list \<Rightarrow> LogEntry list" where
  "unique_ids (x # y # xs) = (if le_id x = le_id y then unique_ids (x # xs) else x # unique_ids (y # xs))"
| "unique_ids xs = xs"

definition enumerateLogs :: "downloader \<Rightarrow> (LogEntry list \<times> downloader) option" where
  "enumerateLogs w =
     Option.bind
       (enum_attempts 1 (nat (max 1 (enumerate_attempts (settings w)))) (w\<lparr>pending_entries := []\<rparr>))
       (\<lambda>w. Some (unique_ids (sort_key le_id (pending_entries w)), requestLogEnd w))"

section \<open>Effects\<close>

record archiver =
  a_dl :: downloader
  a_db :: database
  a_st :: StorageManager

type_synonym 'a io = "archiver \<Rightarrow> ((exn + 'a) \<times> archiver) option"

definition ret :: "'a \<Rightarrow> 'a io" where
  "ret x a = Some (Inr x, a)"

definition bnd :: "'a io \<Rightarrow> ('a \<Rightarrow> 'b io) \<Rightarrow> 'b io" where
  "bnd m f a =
     (case m a of
        None \<Rightarrow> None
      | Some (Inl e, a') \<Rightarrow> Some (Inl e, a')
      | Some (Inr x, a') \<Rightarrow> f x a')"

text \<open>Calls on one part of the state, and the flags and clock that are read between calls.\<close>

definition dl_call :: "(downloader \<Rightarrow> ('a \<times> downloader) option) \<Rightarrow> 'a io" where
  "dl_call f a = (case f (a_dl a) of None \<Rightarrow> None | Some (x, w) \<Rightarrow> Some (Inr x, a\<lparr>a_dl := w\<rparr>))"

definition dl_do :: "(downloader \<Rightarrow> downloader) \<Rightarrow> unit io" where
  "dl_do f a = Some (Inr (), a\<lparr>a_dl := f (a_dl a)\<rparr>)"

definition dl_get :: "(downloader \<Rightarrow> 'a) \<Rightarrow> 'a io" where
  "dl_get f a = Some (Inr (f (a_dl a)), a)"

definition db_call :: "(database \<Rightarrow> (exn + 'a) \<times> database) \<Rightarrow> 'a io" where
  "db_call f a = (case f (a_db a) of (x, d) \<Rightarrow> Some (x, a\<lparr>a_db := d\<rparr>))"

definition st_call :: "(StorageManager \<Rightarrow> (exn + 'a) \<times> StorageManager) \<Rightarrow> 'a io" where
  "st_call f a = (case f (a_st a) of (x, s) \<Rightarrow> Some (x, a\<lparr>a_st := s\<rparr>))"

definition fs_do :: "(filesystem \<Rightarrow> filesystem) \<Rightarrow> unit io" where
  "fs_do f a = Some (Inr (), a\<lparr>a_st := (a_st a)\<lparr>sm_fs := f (sm_fs (a_st a))\<rparr>\<rparr>)"

definition fs_get :: "(filesystem \<Rightarrow> 'a) \<Rightarrow> 'a io" where
  "fs_get f a = Some (Inr (f (sm_fs (a_st a))), a)"

definition set_failure :: "ArchiveFailureReason \<Rightarrow> unit io" where
  "set_failure r = dl_do (\<lambda>w. w\<lparr>last_failure_reason := r\<rparr>)"

text \<open>A session of \<open>StreamDownloadSession\<close> followed by \<^verbatim>\<open>requestLogEnd\<close>.\<close>

definition session_run :: "Params \<Rightarrow> disk \<Rightarrow> (StreamDownloadResult \<times> bytes) io" where
  "session_run p disk =
     dl_call (\<lambda>w. case run p disk \<lparr>of_data = [], of_bad = False\<rparr> (clearDataChunks w) of
        None \<Rightarrow> None | Some (res, f, w') \<Rightarrow> Some ((res, of_data f), requestLogEnd w'))"

section \<open>One log\<close>

datatype DedupDecision = DownloadFull | SkipDuplicate | DownloadAfterProbeMismatch

definition checkDedup ::
  "sqlite \<Rightarrow> LogEntry \<Rightarrow> (DedupDecision \<times> ArchivedLogCandidate option) io" where
  "checkDedup sq entry =
     bnd (db_call (findCandidate sq (le_id entry) (le_size entry))) (\<lambda>candidate.
       ret (if candidate = None then DownloadFull else DownloadAfterProbeMismatch, candidate))"

definition probe_params :: "DownloadSettings \<Rightarrow> LogEntry \<Rightarrow> Params" where
  "probe_params cfg entry =
     (let probe_n = probe_count (probe_bytes cfg) (le_size entry)
      in \<lparr>p_log_id = le_id entry, p_byte_offset = 0, p_byte_count = probe_n,
          p_probe_bytes = sint probe_n, p_write_file = False\<rparr>)"

definition downloadProbeAndCompare :: "LogEntry \<Rightarrow> ArchivedLogCandidate \<Rightarrow> bool io" where
  "downloadProbeAndCompare entry candidate =
     bnd (dl_get settings) (\<lambda>cfg.
     bnd (session_run (probe_params cfg entry) (\<lambda>_ _. False)) (\<lambda>(result, _).
       if \<not> res_success result
       then bnd (set_failure (res_failure result)) (\<lambda>_. ret False)
       else ret (res_probe_sha256 result = cand_probe_sha256 candidate \<and>
                 p_probe_bytes (probe_params cfg entry) = cand_probe_bytes candidate)))"

text \<open>
  \<open>waitForLogData\<close>: the first queued chunk of the log at the offset, and the queue without it.
\<close>

fun take_chunk :: "u16 \<Rightarrow> u32 \<Rightarrow> LogDataChunk list \<Rightarrow> (bytes \<times> LogDataChunk list) option" where
  "take_chunk log_id ofs [] = None"
| "take_chunk log_id ofs (c # cs) =
     (if lc_id c \<noteq> log_id \<or> lc_offset c \<noteq> ofs
      then map_option (\<lambda>(d, cs'). (d, c # cs')) (take_chunk log_id ofs cs)
      else Some (lc_data c, cs))"

function wait_chunk :: "u16 \<Rightarrow> u32 \<Rightarrow> int \<Rightarrow> downloader \<Rightarrow> (bytes option \<times> downloader) option" where
  "wait_chunk log_id ofs deadline w =
     (if int (clock w) < deadline then
        if cancelled w then Some (None, w)
        else case wait_tick w of
          None \<Rightarrow> None
        | Some w' \<Rightarrow>
            (case take_chunk log_id ofs (data_chunks w') of
               None \<Rightarrow> wait_chunk log_id ofs deadline w'
             | Some (d, cs) \<Rightarrow>
                 if d = [] then wait_chunk log_id ofs deadline (w'\<lparr>data_chunks := cs\<rparr>)
                 else Some (Some d, w'\<lparr>data_chunks := cs\<rparr>))
      else Some (None, w))"
  by pat_completeness auto
termination
  by (relation "measure (\<lambda>(i, ofs, d, w). length (script w))") (auto dest: wait_tick_script)

declare wait_chunk.simps [simp del]

definition waitForLogData :: "u16 \<Rightarrow> u32 \<Rightarrow> int \<Rightarrow> downloader \<Rightarrow> (bytes option \<times> downloader) option" where
  "waitForLogData log_id ofs timeout_ms w = wait_chunk log_id ofs (int (clock w) + timeout_ms) w"

definition log_params :: "DownloadSettings \<Rightarrow> LogEntry \<Rightarrow> Params" where
  "log_params cfg entry =
     \<lparr>p_log_id = le_id entry, p_byte_offset = 0, p_byte_count = le_size entry,
      p_probe_bytes = probe_bytes cfg, p_write_file = True\<rparr>"

text \<open>The output parameters of a successful download: digests, probe size and start time.\<close>

record download =
  dn_sha256 :: string
  dn_probe_sha256 :: string
  dn_probe_bytes :: int
  dn_start :: nat

definition downloadLogData :: "os \<Rightarrow> LogEntry \<Rightarrow> path \<Rightarrow> download option io" where
  "downloadLogData os entry partial_path =
     bnd (dl_get clock) (\<lambda>start.
     bnd (set_failure None_reason) (\<lambda>_.
     bnd (dl_do clearDataChunks) (\<lambda>_.
       if \<not> os_open_ok os partial_path
       then bnd (set_failure StorageError) (\<lambda>_. ret None)
       else
         bnd (dl_get settings) (\<lambda>cfg.
         bnd (session_run (log_params cfg entry) (os_write_ok os)) (\<lambda>(result, data).
         bnd (dl_get clock) (\<lambda>now.
         bnd (fs_do (fs_write partial_path \<lparr>f_data = data, f_mtime = now\<rparr>)) (\<lambda>_.
           if \<not> res_success result
           then bnd (set_failure (res_failure result)) (\<lambda>_. ret None)
           else if verify_after_download cfg \<and> bytesReceived (res_ranges result) \<noteq> le_size entry
           then bnd (set_failure VerificationFailed) (\<lambda>_. ret None)
           else
             bnd (set_failure None_reason) (\<lambda>_.
               ret (Some \<lparr>dn_sha256 = res_sha256 result, dn_probe_sha256 = res_probe_sha256 result,
                          dn_probe_bytes = res_probe_bytes result, dn_start = start\<rparr>)))))))))"

definition read_file :: "path \<Rightarrow> filesystem \<Rightarrow> file_read" where
  "read_file p fs = (case map_of (fs_files fs) p of None \<Rightarrow> Open_failed | Some f \<Rightarrow> Contents (f_data f))"

definition file_bytes :: "path \<Rightarrow> filesystem \<Rightarrow> bytes" where
  "file_bytes p fs = (case map_of (fs_files fs) p of None \<Rightarrow> [] | Some f \<Rightarrow> f_data f)"

definition verifyDataFlashFile :: "path \<Rightarrow> bool io" where
  "verifyDataFlashFile p =
     bnd (dl_get settings) (\<lambda>cfg.
       if \<not> verify_dataflash_parse cfg then ret True
       else
         bnd (fs_get (\<lambda>fs. (validateDataFlashFile (read_file p fs), file_bytes p fs))) (\<lambda>(result, data).
           ret (df_ok result \<and>
                \<not> dataFlashResyncRatioExceeded result (of_nat (length data)) (verify_max_bad_header_ratio cfg))))"

text \<open>
  The sample loop. A read that hits the end of the file sets the fail bit of the stream; after that
  \<^verbatim>\<open>seekg\<close> and \<^verbatim>\<open>read\<close> do nothing.
\<close>

fun reread_loop ::
  "LogEntry \<Rightarrow> int \<Rightarrow> bytes \<Rightarrow> bool \<Rightarrow> u32 list \<Rightarrow> downloader \<Rightarrow> (bool \<times> downloader) option" where
  "reread_loop entry timeout_ms file failed [] w = Some (True, requestLogEnd w)"
| "reread_loop entry timeout_ms file failed (ofs # offsets) w =
     (case requestLogData (le_id entry) ofs kLogChunkSize w of
        (False, w) \<Rightarrow> Some (False, w)
      | (True, w) \<Rightarrow>
          (case waitForLogData (le_id entry) ofs timeout_ms w of
             None \<Rightarrow> None
           | Some (None, w) \<Rightarrow> Some (False, w)
           | Some (Some chunk, w) \<Rightarrow>
               let got = (if failed then [] else take 90 (drop (unat ofs) file)) in
               if chunk = got
               then reread_loop entry timeout_ms file (length got < 90) offsets w
               else Some (False, w)))"

definition reread_params :: "LogEntry \<Rightarrow> Params" where
  "reread_params entry =
     \<lparr>p_log_id = le_id entry, p_byte_offset = 0, p_byte_count = le_size entry, p_probe_bytes = 0,
      p_write_file = False\<rparr>"

definition verifyFcSampleReread :: "LogEntry \<Rightarrow> path \<Rightarrow> string \<Rightarrow> bool io" where
  "verifyFcSampleReread entry p sha256 =
     bnd (dl_get settings) (\<lambda>cfg.
       case parseFcRereadMode (verify_fc_reread cfg) of
         None_mode \<Rightarrow> ret True
       | Full \<Rightarrow>
           bnd (session_run (reread_params entry) (\<lambda>_ _. False)) (\<lambda>(result, _).
             ret (res_success result \<and> res_sha256 result = sha256))
       | Sample \<Rightarrow>
           (let offsets = buildFcSampleOffsets (le_size entry) (verify_fc_reread_sample_count cfg)
                            (le_id entry) (le_size entry) sha256
            in if offsets = [] then ret True
               else bnd (fs_get (\<lambda>fs. map_of (fs_files fs) p)) (\<lambda>f. case f of
                  None \<Rightarrow> ret False
                | Some f \<Rightarrow>
                    bnd (dl_do clearDataChunks) (\<lambda>_.
                      dl_call (reread_loop entry (download_timeout_sec cfg * 1000) (f_data f) False offsets)))))"

section \<open>Archiving\<close>

fun path_string :: "path \<Rightarrow> string" where
  "path_string [] = ''''"
| "path_string [c] = c"
| "path_string (c # cs) = c @ CHR ''/'' # path_string cs"

text \<open>A failed archive attempt removes the partial file, whose removal may fail silently.\<close>

definition remove_partial :: "os \<Rightarrow> path \<Rightarrow> unit io" where
  "remove_partial os p = fs_do (\<lambda>fs. if os_remove_ok os p then fs_remove p fs else fs)"

definition count_stat :: "sqlite \<Rightarrow> string \<Rightarrow> int \<Rightarrow> unit io" where
  "count_stat sq key k = bnd (db_call (incrementStat sq key k)) (\<lambda>_. ret ())"

text \<open>\<open>Some r\<close> when the log is a duplicate or the cycle was cancelled before the download.\<close>

definition dedup :: "sqlite \<Rightarrow> LogEntry \<Rightarrow> ArchiveResult option io" where
  "dedup sq entry =
     bnd (checkDedup sq entry) (\<lambda>(decision, candidate).
     bnd (case candidate of
            Some c \<Rightarrow> if decision = DownloadAfterProbeMismatch then downloadProbeAndCompare entry c else ret False
          | None \<Rightarrow> ret False) (\<lambda>duplicate.
       if duplicate then bnd (count_stat sq ''flights_skipped'' 1) (\<lambda>_. ret (Some SkippedDuplicate))
       else bnd (dl_get cancelled) (\<lambda>c. ret (if c then Some Cancelled else None))))"

definition fail_archive :: "os \<Rightarrow> sqlite \<Rightarrow> path \<Rightarrow> ArchiveFailureReason \<Rightarrow> ArchiveResult io" where
  "fail_archive os sq partial reason =
     bnd (dl_do updateProgressEnd) (\<lambda>_.
     bnd (remove_partial os partial) (\<lambda>_.
     bnd (set_failure reason) (\<lambda>_.
     bnd (count_stat sq ''archive_failures'' 1) (\<lambda>_. ret Failed))))"

text \<open>A download that did not succeed.\<close>

definition fail_download :: "os \<Rightarrow> sqlite \<Rightarrow> path \<Rightarrow> ArchiveResult io" where
  "fail_download os sq partial =
     bnd (dl_do updateProgressEnd) (\<lambda>_.
     bnd (remove_partial os partial) (\<lambda>_.
     bnd (dl_get (\<lambda>w. last_failure_reason w = Cancelled_reason \<or> cancelled w)) (\<lambda>c.
       if c then bnd (count_stat sq ''archive_cancellations'' 1) (\<lambda>_. ret Cancelled)
       else bnd (count_stat sq ''archive_failures'' 1) (\<lambda>_. ret Failed))))"

text \<open>Finalization of a verified partial file and its entry in the catalog.\<close>

definition row_of :: "os \<Rightarrow> nat \<Rightarrow> LogEntry \<Rightarrow> download \<Rightarrow> FinalizeResult \<Rightarrow> archived_row" where
  "row_of os now entry dn fin =
     \<lparr>ar_sha256 = dn_sha256 dn, ar_fc_log_id = le_id entry, ar_fc_log_size = le_size entry,
      ar_fc_log_time_utc = le_time_utc entry, ar_probe_sha256 = dn_probe_sha256 dn,
      ar_probe_bytes = dn_probe_bytes dn, ar_archive_time = os_system_time os now,
      ar_archive_duration_ms = fin_archive_duration_ms fin,
      ar_filename = path_string (final_path fin), ar_erased = False\<rparr>"

definition persist :: "os \<Rightarrow> sqlite \<Rightarrow> LogEntry \<Rightarrow> path \<Rightarrow> download \<Rightarrow> ArchiveResult io" where
  "persist os sq entry partial dn =
     bnd (dl_get clock) (\<lambda>now.
     bnd (st_call (finalizePartial os partial (dn_start dn) now)) (\<lambda>finalized. case finalized of
       None \<Rightarrow>
         bnd (dl_do updateProgressEnd) (\<lambda>_.
         bnd (set_failure StorageError) (\<lambda>_.
         bnd (count_stat sq ''archive_failures'' 1) (\<lambda>_. ret Failed)))
     | Some fin \<Rightarrow>
         bnd (dl_do updateProgressEnd) (\<lambda>_.
         bnd (db_call (insertArchivedLog sq (row_of os (os_done os now) entry dn fin))) (\<lambda>_.
         bnd (count_stat sq ''flights_archived'' 1) (\<lambda>_.
         bnd (count_stat sq ''bytes_downloaded'' (uint (le_size entry))) (\<lambda>_.
         bnd (db_call (setStat sq ''last_archive_time'' (os_system_time os (os_done os now)))) (\<lambda>_.
           ret Downloaded)))))))"

text \<open>From the download into the partial file on.\<close>

definition archive_attempt :: "os \<Rightarrow> sqlite \<Rightarrow> LogEntry \<Rightarrow> path \<Rightarrow> ArchiveResult io" where
  "archive_attempt os sq entry partial =
     bnd (downloadLogData os entry partial) (\<lambda>result. case result of
       None \<Rightarrow> fail_download os sq partial
     | Some dn \<Rightarrow>
         bnd (verifyDataFlashFile partial) (\<lambda>parsed.
           if \<not> parsed then fail_archive os sq partial ParseFailed
           else bnd (verifyFcSampleReread entry partial (dn_sha256 dn)) (\<lambda>reread.
             if \<not> reread then fail_archive os sq partial RereadMismatch
             else persist os sq entry partial dn)))"

definition archiveOne :: "os \<Rightarrow> sqlite \<Rightarrow> LogEntry \<Rightarrow> ArchiveResult io" where
  "archiveOne os sq entry =
     bnd (dedup sq entry) (\<lambda>early. case early of
       Some r \<Rightarrow> ret r
     | None \<Rightarrow>
         bnd (dl_get clock) (\<lambda>now.
         bnd (st_call (\<lambda>s. case beginPartialFile os now s of (p, s) \<Rightarrow> (Inr p, s))) (\<lambda>partial.
         bnd (dl_do (updateProgressBegin (le_id entry) (le_size entry))) (\<lambda>_.
           archive_attempt os sq entry partial))))"

text \<open>The loop of \<open>archiveAll\<close>; the flag is \<^verbatim>\<open>any_failed\<close>.\<close>

fun count_result :: "ArchiveResult \<Rightarrow> ArchiveFailureReason \<Rightarrow> ArchiveCycleResult \<Rightarrow> ArchiveCycleResult" where
  "count_result SkippedDuplicate reason r = r\<lparr>cyc_skipped := cyc_skipped r + 1\<rparr>"
| "count_result Downloaded reason r = r\<lparr>cyc_downloaded := cyc_downloaded r + 1\<rparr>"
| "count_result Cancelled reason r =
     r\<lparr>cyc_cancelled := cyc_cancelled r + 1, cyc_last_failure_reason := Cancelled_reason\<rparr>"
| "count_result Failed reason r = r\<lparr>cyc_failed := cyc_failed r + 1, cyc_last_failure_reason := reason\<rparr>"

fun archive_loop ::
  "os \<Rightarrow> sqlite \<Rightarrow> LogEntry list \<Rightarrow> ArchiveCycleResult \<Rightarrow> bool \<Rightarrow> (ArchiveCycleResult \<times> bool) io" where
  "archive_loop os sq [] r any_failed = ret (r, any_failed)"
| "archive_loop os sq (entry # logs) r any_failed =
     bnd (dl_get cancelled) (\<lambda>c.
       if c then ret (count_result Cancelled None_reason r, True)
       else
         bnd (archiveOne os sq entry) (\<lambda>res.
         bnd (dl_get last_failure_reason) (\<lambda>reason.
           let r = count_result res reason r;
               any_failed = (any_failed \<or> res = Cancelled \<or> res = Failed)
           in if res = Cancelled then ret (r, any_failed)
              else archive_loop os sq logs r any_failed)))"

text \<open>The scope guard runs when the loop ends and when it throws.\<close>

definition guard_exit :: "archiver \<Rightarrow> archiver" where
  "guard_exit a = a\<lparr>a_dl := requestLogEnd (clearDataChunks (a_dl a))\<rparr>"

definition archiveAll :: "os \<Rightarrow> sqlite \<Rightarrow> LogEntry list \<Rightarrow> ArchiveCycleResult io" where
  "archiveAll os sq logs a =
     (case archive_loop os sq logs ArchiveCycleResult_new False a of
        None \<Rightarrow> None
      | Some (Inl e, a') \<Rightarrow> Some (Inl e, guard_exit a')
      | Some (Inr (r, any_failed), a') \<Rightarrow> Some (Inr (r\<lparr>all_archived := \<not> any_failed\<rparr>), guard_exit a'))"

definition activeProgress :: "archiver \<Rightarrow> ActiveArchiveProgress" where
  "activeProgress a = progress (a_dl a)"

definition eraseFlightControllerLogs :: "sqlite \<Rightarrow> bool io" where
  "eraseFlightControllerLogs sq =
     bnd (dl_call (\<lambda>w. Some (sendMessage LOG_ERASE w))) (\<lambda>is_sent.
       if is_sent then bnd (db_call (markAllErased sq)) (\<lambda>_. ret True) else ret False)"

section \<open>Reasoning about effects\<close>

lemma bnd_SomeE:
  assumes "bnd m f a = Some (x, a')"
  obtains (thrown) e where "m a = Some (Inl e, a')" "x = Inl e"
  | (returned) y b where "m a = Some (Inr y, b)" "f y b = Some (x, a')"
  using assms by (auto simp: bnd_def split: option.splits sum.splits)

lemmas io_simps = ret_def dl_do_def dl_get_def fs_do_def fs_get_def set_failure_def

lemma bnd_ret [simp]: "bnd (ret x) f = f x"
  by (simp add: bnd_def ret_def fun_eq_iff)

lemma bnd_get [simp]:
  "bnd (dl_get g) f a = f (g (a_dl a)) a"
  "bnd (dl_do h) k a = k () (a\<lparr>a_dl := h (a_dl a)\<rparr>)"
  "bnd (fs_get u) f a = f (u (sm_fs (a_st a))) a"
  "bnd (fs_do v) k a = k () (a\<lparr>a_st := (a_st a)\<lparr>sm_fs := v (sm_fs (a_st a))\<rparr>\<rparr>)"
  "bnd (set_failure c) k a = k () (a\<lparr>a_dl := (a_dl a)\<lparr>last_failure_reason := c\<rparr>\<rparr>)"
  by (simp_all add: bnd_def io_simps)

end
