(* ===== verification/ArchiveFrame.thy ===== *)
theory ArchiveFrame
  imports LogDownloader
begin

text \<open>
  What an archive cycle preserves. The locale \<open>cycle_frame\<close> collects, for a reflexive and transitive
  relation between states, what each elementary effect of the cycle must satisfy, and concludes that
  the whole cycle satisfies it. It is interpreted by the history of the downloader (no \<open>LOG_ERASE\<close> is
  sent), by the growth of the catalog, and by the directories of the storage manager.
\<close>

definition keeps :: "(archiver \<Rightarrow> archiver \<Rightarrow> bool) \<Rightarrow> 'a io \<Rightarrow> bool" where
  "keeps R m \<longleftrightarrow> (\<forall>a x a'. m a = Some (x, a') \<longrightarrow> R a a')"

lemma keepsD: "keeps R m \<Longrightarrow> m a = Some (x, a') \<Longrightarrow> R a a'"
  by (auto simp: keeps_def)

lemma later_enum_wait: "enum_wait d s l w = Some w' \<Longrightarrow> later w w'"
proof (induction d s l w rule: enum_wait.induct)
  case (1 d s l w)
  note u = "1.prems" [unfolded enum_wait.simps [of d s l w]]
  show ?case
  proof (cases "clock w < d \<and> \<not> cancelled w")
    case False
    with u show ?thesis by (auto split: if_splits)
  next
    case True
    with u obtain w1 where w1: "wait_tick w = Some w1" by (auto split: option.splits)
    have w: "later w w1" using later_wait [OF w1] .
    show ?thesis
      using "1.IH"(1) [OF _ _ w1 refl] "1.IH"(2) [OF _ _ w1 refl] u True w1 w
      by (auto simp: Let_def split: if_splits intro: later_trans)
  qed
qed

lemma later_wait_chunk: "wait_chunk i ofs d w = Some (x, w') \<Longrightarrow> later w w'"
proof (induction i ofs d w rule: wait_chunk.induct)
  case (1 i ofs d w)
  note u = "1.prems" [unfolded wait_chunk.simps [of i ofs d w]]
  show ?case
  proof (cases "int (clock w) < d \<and> \<not> cancelled w")
    case False
    with u show ?thesis by (auto split: if_splits)
  next
    case True
    with u obtain w1 where w1: "wait_tick w = Some w1" by (auto split: option.splits)
    have w: "later w w1" using later_wait [OF w1] .
    show ?thesis
    proof (cases "take_chunk i ofs (data_chunks w1)")
      case None
      with "1.IH"(1) [OF _ _ w1 None] u True w1 w show ?thesis by (auto intro: later_trans)
    next
      case (Some y)
      obtain d' cs where y: "y = (d', cs)" by fastforce
      have w2: "later w (w1\<lparr>data_chunks := cs\<rparr>)" using later_trans [OF w] by simp
      with "1.IH"(2) [OF _ _ w1 Some y [symmetric]] u True w1 Some y show ?thesis
        by (auto split: if_splits intro: later_trans)
    qed
  qed
qed

lemma later_reread_loop: "reread_loop e t d failed offs w = Some (x, w') \<Longrightarrow> later w w'"
proof (induction e t d failed offs w rule: reread_loop.induct)
  case (2 e t d failed ofs offs w)
  obtain ok w1 where r: "requestLogData (le_id e) ofs kLogChunkSize w = (ok, w1)" by fastforce
  have w1: "later w w1" using later_requests(1) [of w "le_id e" ofs kLogChunkSize] r by simp
  show ?case
  proof (cases ok)
    case False
    with "2.prems" r w1 show ?thesis by auto
  next
    case True
    with "2.prems" r obtain y where y: "waitForLogData (le_id e) ofs t w1 = Some y"
      by (auto split: option.splits)
    obtain c w2 where c: "y = (c, w2)" by fastforce
    have w2: "later w w2"
      using later_wait_chunk [of _ _ _ w1 c w2] y c w1 later_trans by (auto simp: waitForLogData_def)
    show ?thesis
    proof (cases c)
      case None
      with "2.prems" r True y c w2 show ?thesis by auto
    next
      case (Some chunk)
      with "2.IH" [OF r [symmetric] _ y c [symmetric] Some refl] "2.prems" r True y c w2 show ?thesis
        by (auto simp: Let_def split: if_splits intro: later_trans)
    qed
  qed
qed auto

section \<open>The frame of a cycle\<close>

locale cycle_frame =
  fixes R :: "archiver \<Rightarrow> archiver \<Rightarrow> bool" and os :: os and sq :: sqlite
  assumes R_refl: "R a a" and R_trans: "R a b \<Longrightarrow> R b c \<Longrightarrow> R a c"
    and R_dl: "later (a_dl a) w \<Longrightarrow> R a (a\<lparr>a_dl := w\<rparr>)"
    and R_find: "R a (a\<lparr>a_db := snd (findCandidate sq i n (a_db a))\<rparr>)"
    and R_increment: "R a (a\<lparr>a_db := snd (incrementStat sq key k (a_db a))\<rparr>)"
    and R_set: "R a (a\<lparr>a_db := snd (setStat sq key v (a_db a))\<rparr>)"
    and R_insert: "R a (a\<lparr>a_db := snd (insertArchivedLog sq r (a_db a))\<rparr>)"
    and R_begin: "R a (a\<lparr>a_st := snd (beginPartialFile os now (a_st a))\<rparr>)"
    and R_finalize: "R a (a\<lparr>a_st := snd (finalizePartial os p start now (a_st a))\<rparr>)"
    and R_write: "R a (a\<lparr>a_st := (a_st a)\<lparr>sm_fs := fs_write p f (sm_fs (a_st a))\<rparr>\<rparr>)"
    and R_remove: "R a (a\<lparr>a_st := (a_st a)\<lparr>sm_fs := fs_remove p (sm_fs (a_st a))\<rparr>\<rparr>)"
begin

lemma keeps_bnd: "keeps R m \<Longrightarrow> (\<And>x. keeps R (f x)) \<Longrightarrow> keeps R (bnd m f)"
  unfolding keeps_def by (blast elim: bnd_SomeE intro: R_trans)

lemma keeps_basic:
  "keeps R (ret x)" "keeps R (dl_get g)" "keeps R (fs_get u)"
  by (simp_all add: keeps_def io_simps R_refl)

lemma keeps_dl_do: "(\<And>w. later w (h w)) \<Longrightarrow> keeps R (dl_do h)"
  by (auto simp: keeps_def io_simps intro: R_dl)

lemma keeps_dl_call: "(\<And>w x w'. f w = Some (x, w') \<Longrightarrow> later w w') \<Longrightarrow> keeps R (dl_call f)"
  by (auto simp: keeps_def dl_call_def split: option.splits intro: R_dl)

lemma keeps_set_failure: "keeps R (set_failure c)"
  unfolding set_failure_def by (rule keeps_dl_do) simp

lemma keeps_db_call: "(\<And>a. R a (a\<lparr>a_db := snd (f (a_db a))\<rparr>)) \<Longrightarrow> keeps R (db_call f)"
  unfolding keeps_def db_call_def case_prod_unfold by auto

lemma keeps_st_call: "(\<And>a. R a (a\<lparr>a_st := snd (f (a_st a))\<rparr>)) \<Longrightarrow> keeps R (st_call f)"
  unfolding keeps_def st_call_def case_prod_unfold by auto

lemma keeps_fs_write: "keeps R (fs_do (fs_write p f))"
  by (auto simp: keeps_def io_simps intro: R_write)

lemma keeps_remove_partial: "keeps R (remove_partial os p)"
  by (auto simp: keeps_def remove_partial_def io_simps R_refl intro: R_remove)

lemma keeps_count_stat: "keeps R (count_stat sq key k)"
  unfolding count_stat_def by (intro keeps_bnd keeps_db_call R_increment keeps_basic)

lemma keeps_session_run: "keeps R (session_run p disk)"
  unfolding session_run_def
  by (rule keeps_dl_call) (auto split: option.splits intro: later_trans [OF later_updates(5)]
      later_trans [OF later_trans [OF later_updates(5) later_run] later_requests(2)])

lemmas keeps_steps = keeps_bnd keeps_basic keeps_set_failure keeps_fs_write keeps_remove_partial
  keeps_count_stat keeps_session_run keeps_db_call keeps_st_call keeps_dl_do later_updates
  R_find R_insert R_set R_finalize

lemma keeps_dedup: "keeps R (dedup sq entry)"
  unfolding dedup_def checkDedup_def downloadProbeAndCompare_def
  by (auto intro!: keeps_steps split: option.splits)

lemma keeps_downloadLogData: "keeps R (downloadLogData os entry p)"
  unfolding downloadLogData_def by (auto intro!: keeps_steps)

lemma keeps_verifyDataFlashFile: "keeps R (verifyDataFlashFile p)"
  unfolding verifyDataFlashFile_def by (auto intro!: keeps_steps)

lemma keeps_verifyFcSampleReread: "keeps R (verifyFcSampleReread entry p sha)"
  unfolding verifyFcSampleReread_def Let_def
  by (intro keeps_bnd keeps_basic) (auto intro!: keeps_steps keeps_dl_call later_reread_loop
      split: FcRereadMode.splits option.splits)

lemma keeps_persist: "keeps R (persist os sq entry p dn)"
  unfolding persist_def by (intro keeps_bnd keeps_basic) (auto intro!: keeps_steps split: option.splits)

lemma keeps_begin: "keeps R (st_call (\<lambda>s. case beginPartialFile os now s of (p, s) \<Rightarrow> (Inr p, s)))"
  by (rule keeps_st_call) (use R_begin in \<open>auto simp: case_prod_unfold\<close>)

lemma keeps_archive_attempt: "keeps R (archive_attempt os sq entry p)"
  unfolding archive_attempt_def fail_download_def fail_archive_def
  by (auto intro!: keeps_steps keeps_downloadLogData keeps_verifyDataFlashFile
      keeps_verifyFcSampleReread keeps_persist split: option.splits)

lemma keeps_archiveOne: "keeps R (archiveOne os sq entry)"
  unfolding archiveOne_def
  by (intro keeps_bnd keeps_basic keeps_dedup)
    (auto intro!: keeps_steps keeps_begin keeps_archive_attempt split: option.splits)

lemma keeps_archive_loop: "keeps R (archive_loop os sq logs r failed)"
proof (induction logs arbitrary: r failed)
  case (Cons entry logs)
  then show ?case
    unfolding archive_loop.simps Let_def
    by (intro keeps_bnd keeps_basic) (auto intro!: keeps_bnd keeps_basic keeps_archiveOne)
qed (simp add: keeps_basic)

lemma keeps_archiveAll: "keeps R (archiveAll os sq logs)"
proof -
  have g: "R b (guard_exit b)" for b
    unfolding guard_exit_def by (intro R_dl later_trans [OF later_updates(5) later_requests(2)])
  show ?thesis
    unfolding keeps_def archiveAll_def
    by (auto split: option.splits sum.splits prod.splits intro: R_trans [OF keepsD [OF keeps_archive_loop] g])
qed

end

section \<open>The frames of the model\<close>

definition dl_history :: "archiver \<Rightarrow> archiver \<Rightarrow> bool" where
  "dl_history a a' \<longleftrightarrow> later (a_dl a) (a_dl a')"

definition digests :: "archiver \<Rightarrow> string set" where
  "digests a = ar_sha256 ` set (archived_logs (a_db a))"

definition catalog_grows :: "archiver \<Rightarrow> archiver \<Rightarrow> bool" where
  "catalog_grows a a' \<longleftrightarrow> digests a \<subseteq> digests a'"

definition same_dirs :: "archiver \<Rightarrow> archiver \<Rightarrow> bool" where
  "same_dirs a a' \<longleftrightarrow> sm_logs_dir (a_st a') = sm_logs_dir (a_st a) \<and> sm_tmp_dir (a_st a') = sm_tmp_dir (a_st a) \<and>
     sm_settings (a_st a') = sm_settings (a_st a)"

lemma setStat_rows [simp]: "archived_logs (snd (setStat sq key v d)) = archived_logs d"
  by (auto simp: setStat_def sqlite_call_def split: bool.splits)

lemma finalizePartial_dirs:
  "sm_logs_dir (snd (finalizePartial os p start now s)) = sm_logs_dir s"
  "sm_tmp_dir (snd (finalizePartial os p start now s)) = sm_tmp_dir s"
  "sm_settings (snd (finalizePartial os p start now s)) = sm_settings s"
  by (auto simp: finalizePartial_def create_directories_def Let_def)

interpretation hist: cycle_frame dl_history os sq
  by unfold_locales (auto simp: dl_history_def intro: later_trans)

interpretation grows: cycle_frame catalog_grows os sq
  using cat.digest_kept_insert
  by unfold_locales (auto simp: catalog_grows_def digests_def cat.find_rows cat.bump_rows)

interpretation dirs: cycle_frame same_dirs os sq
  by unfold_locales (auto simp: same_dirs_def finalizePartial_dirs beginPartialFile_def Let_def)

end
