(* ===== verification/DownloadCorrectness.thy ===== *)
theory DownloadCorrectness
  imports StreamDownloadSession
begin

text \<open>
  What a download session computes. A run of \<open>StreamDownloadSession.run\<close> is the replay of the
  sequence of chunks it accepted (\<open>session_rep\<close>, a simulation relation kept by every step): ranges,
  coverage, file and hash are folds over that sequence. From this follow the contents of the file,
  the meaning of the digests and the termination of the loops.
\<close>

section \<open>Accepted pieces\<close>

definition accepted :: "Params \<Rightarrow> LogDataChunk \<Rightarrow> bool" where
  "accepted p c \<longleftrightarrow> \<not> skipped_chunk p c \<and> clipped_len p c \<noteq> 0"

definition piece :: "Params \<Rightarrow> LogDataChunk \<Rightarrow> bytes" where
  "piece p c = take (unat (clipped_len p c)) (lc_data c)"

definition pieces :: "Params \<Rightarrow> LogDataChunk list \<Rightarrow> bytes" where
  "pieces p cs = concat (map (piece p) (filter (accepted p) cs))"

text \<open>A chunk as \<open>onMessage\<close> builds it, and a window that ends 255 bytes below the 32-bit limit.\<close>

definition wf_chunk :: "LogDataChunk \<Rightarrow> bool" where
  "wf_chunk c \<longleftrightarrow> length (lc_data c) = unat (lc_count c) \<and> unat (lc_count c) < 256"

definition wf_params :: "Params \<Rightarrow> bool" where
  "wf_params p \<longleftrightarrow> p_byte_offset p = 0 \<and> unat (p_byte_count p) \<le> 4294967040 \<and> 0 \<le> p_probe_bytes p"

lemma pieces_simps [simp]:
  "pieces p [] = []"
  "pieces p (cs @ [c]) = pieces p cs @ (if accepted p c then piece p c else [])"
  by (simp_all add: pieces_def)

lemma clipped_len_nat:
  assumes "wf_params p" and "wf_chunk c" and "\<not> skipped_chunk p c"
  shows "unat (clipped_len p c) = min (unat (lc_count c)) (unat (p_byte_count p) - unat (lc_offset c))"
    and "unat (lc_offset c) < unat (p_byte_count p)"
    and "unat (lc_offset c) + unat (clipped_len p c) \<le> unat (p_byte_count p)"
proof -
  show lt: "unat (lc_offset c) < unat (p_byte_count p)"
    using assms by (simp add: wf_params_def skipped_chunk_def u32_order not_le)
  have sum: "unat (lc_offset c + lc_count c) = unat (lc_offset c) + unat (lc_count c)"
    using assms lt by (intro unat_u32_add) (auto simp: wf_params_def wf_chunk_def)
  have dif: "unat (p_byte_count p - lc_offset c) = unat (p_byte_count p) - unat (lc_offset c)"
    using lt by (intro unat_u32_sub) (simp add: u32_le_iff)
  show "unat (clipped_len p c) = min (unat (lc_count c)) (unat (p_byte_count p) - unat (lc_offset c))"
    using assms lt by (auto simp: clipped_len_def wf_params_def u32_less_iff sum dif)
  then show "unat (lc_offset c) + unat (clipped_len p c) \<le> unat (p_byte_count p)"
    using lt by simp
qed

lemma length_piece:
  assumes "wf_params p" and "wf_chunk c" and "\<not> skipped_chunk p c"
  shows "length (piece p c) = unat (clipped_len p c)"
  using clipped_len_nat(1) [OF assms] assms(2) by (simp add: piece_def wf_chunk_def)

section \<open>The session replays the accepted chunks\<close>

definition replay_ranges :: "Params \<Rightarrow> LogDataChunk list \<Rightarrow> ranges" where
  "replay_ranges p cs =
     ranges_add_all (map (\<lambda>c. (lc_offset c, clipped_len p c)) (filter (accepted p) cs))"

definition replay_coverage :: "Params \<Rightarrow> bool \<Rightarrow> LogDataChunk list \<Rightarrow> coverage" where
  "replay_coverage p det cs =
     record_all (coverage_new (p_byte_count p)) det
       (map (\<lambda>c. (lc_offset c, lc_data c, clipped_len p c)) (filter (accepted p) cs))"

definition replay_file :: "Params \<Rightarrow> disk \<Rightarrow> ofile \<Rightarrow> LogDataChunk list \<Rightarrow> ofile" where
  "replay_file p disk f cs =
     (if p_write_file p
      then fold (\<lambda>c. ofile_write disk (unat (lc_offset c)) (piece p c)) (filter (accepted p) cs) f
      else f)"

abbreviation probe_n :: "Params \<Rightarrow> u32" where
  "probe_n p \<equiv> probe_count (p_probe_bytes p) (p_byte_count p)"

definition probe_rep :: "Params \<Rightarrow> bytes \<Rightarrow> session \<Rightarrow> bool" where
  "probe_rep p m s \<longleftrightarrow>
     (if s_probe_finalized s
      then unat (probe_n p) \<le> length m \<and> s_probe_sha256 s = fips_sha256_hex (take (unat (probe_n p)) m)
      else unat (s_hashed_bytes s) = length m \<and> (m = [] \<or> length m < unat (probe_n p)))"

definition session_rep ::
  "Params \<Rightarrow> bool \<Rightarrow> disk \<Rightarrow> ofile \<Rightarrow> LogDataChunk list \<Rightarrow> session \<Rightarrow> bool" where
  "session_rep p det disk f cs s \<longleftrightarrow>
     s_ranges s = replay_ranges p cs \<and> s_coverage s = replay_coverage p det cs \<and>
     s_file s = replay_file p disk f cs \<and> sha_absorbed (s_hasher s) (pieces p cs) \<and>
     probe_rep p (pieces p cs) s"

lemma session_rep_new: "session_rep p det disk f [] (session_new (p_byte_count p) f)"
  by (simp add: session_rep_def session_new_def replay_ranges_def replay_coverage_def
      replay_file_def probe_rep_def ranges_add_all_def sha.new_absorbed)

lemma replay_snoc:
  "replay_ranges p (cs @ [c]) = (if accepted p c
     then ranges_add (replay_ranges p cs) (lc_offset c) (clipped_len p c) else replay_ranges p cs)"
  "replay_file p disk f (cs @ [c]) = (if accepted p c \<and> p_write_file p
     then ofile_write disk (unat (lc_offset c)) (piece p c) (replay_file p disk f cs)
     else replay_file p disk f cs)"
  by (simp_all add: replay_ranges_def replay_file_def ranges_add_all_def)

lemma record_all_append: "record_all t det (xs @ ys) = record_all (record_all t det xs) det ys"
  by (induction t det xs rule: record_all.induct) simp_all

lemma replay_coverage_snoc:
  "replay_coverage p det (cs @ [c]) = (if accepted p c
     then snd (coverage_record (replay_coverage p det cs) (lc_offset c) (Some (lc_data c)) (clipped_len p c) det)
     else replay_coverage p det cs)"
  by (simp add: replay_coverage_def record_all_append)

lemma hash_update_absorbed: "sha_absorbed h m \<Longrightarrow> sha_absorbed (hash_update h xs) (m @ xs)"
  using sha.upd_absorbed [of h m xs] by (auto simp: hash_update_def)

lemma hash_hex_absorbed: "sha_absorbed h m \<Longrightarrow> hash_hex h = fips_sha256_hex m"
  using sha.fin_digest [of h m] by (auto simp: hash_hex_def)

lemma empty_hash_fips: "empty_hash = fips_sha256_hex []"
  using finalizeHex_fips [of Sha256_new "[]"]
  by (auto simp: empty_hash_def hashHex_def sha_update_def sha_absorbed_def update_loop_def Sha256_new_def)


lemma sint_nonneg: "0 \<le> sint (a :: u32) \<Longrightarrow> sint a = uint a"
proof -
  assume nn: "0 \<le> sint a"
  have "sint a < 4294967296"
    using sint_lt [of a] by simp
  with nn show ?thesis
    using uint_word_of_int [of "sint a", where 'a = 32] by simp
qed

lemma probe_n_le: "wf_params p \<Longrightarrow> unat (probe_n p) \<le> unat (p_byte_count p)"
proof -
  assume p: "wf_params p"
  show ?thesis
  proof (cases "p_probe_bytes p \<le> sint (p_byte_count p)")
    case True
    with p have nn: "0 \<le> p_probe_bytes p" "0 \<le> sint (p_byte_count p)"
      by (auto simp: wf_params_def)
    have "sint (p_byte_count p) = uint (p_byte_count p)"
      using nn(2) by (rule sint_nonneg)
    then have "p_probe_bytes p \<le> int (unat (p_byte_count p))"
      using True by simp
    moreover have "unat (probe_n p) = nat (p_probe_bytes p)"
    proof -
      have "p_probe_bytes p < 4294967296"
        using \<open>p_probe_bytes p \<le> int (unat (p_byte_count p))\<close> unat_u32_bound [of "p_byte_count p"]
        by linarith
      then show ?thesis
        using True nn by (simp add: probe_count_def min_def unat_eq_nat_uint uint_word_of_int)
    qed
    ultimately show ?thesis by (simp only: nat_le_iff)
  next
    case False
    then show ?thesis by (simp add: probe_count_def min_def)
  qed
qed

lemma hash_piece_frame [simp]:
  "s_ranges (hash_piece n d k s) = s_ranges s"
  "s_coverage (hash_piece n d k s) = s_coverage s"
  "s_file (hash_piece n d k s) = s_file s"
  "s_metrics (hash_piece n d k s) = s_metrics s"
  by (simp_all add: hash_piece_def Let_def)

lemma hash_piece_commute:
  "hash_piece n d k (s\<lparr>s_metrics := m\<rparr>) = (hash_piece n d k s)\<lparr>s_metrics := m\<rparr>"
  "hash_piece n d k (s\<lparr>s_file := x\<rparr>) = (hash_piece n d k s)\<lparr>s_file := x\<rparr>"
  "hash_piece n d k (s\<lparr>s_coverage := y\<rparr>) = (hash_piece n d k s)\<lparr>s_coverage := y\<rparr>"
  by (simp_all add: hash_piece_def Let_def)

lemma hash_piece_rep:
  assumes p: "wf_params p" and h: "sha_absorbed (s_hasher s) m" and pr: "probe_rep p m s"
    and k: "unat k \<le> length d" "unat k < 256"
  shows "sha_absorbed (s_hasher (hash_piece (probe_n p) d k s)) (m @ take (unat k) d) \<and>
         probe_rep p (m @ take (unat k) d) (hash_piece (probe_n p) d k s)"
proof (cases "s_probe_finalized s")
  case True
  with pr hash_update_absorbed [OF h, of "take (unat k) d"] show ?thesis
    by (simp add: hash_piece_def probe_rep_def)
next
  case False
  have len: "unat (s_hashed_bytes s) = length m" "length m \<le> unat (probe_n p)"
    using pr False by (auto simp: probe_rep_def)
  have "length m + unat k < 4294967296"
    using len probe_n_le [OF p] p k by (simp add: wf_params_def)
  then have sum: "unat (s_hashed_bytes s + k) = length m + unat k"
    using len by (simp add: unat_u32_add)
  have take_n: "unat (probe_n p - s_hashed_bytes s) = unat (probe_n p) - length m"
    using len by (simp add: unat_u32_sub u32_le_iff)
  show ?thesis
  proof (cases "unat (probe_n p) \<le> length m + unat k")
    case True
    let ?t = "unat (probe_n p) - length m"
    define h' where "h' = (if 0 < probe_n p - s_hashed_bytes s
              then hash_update (s_hasher s) (take ?t d) else s_hasher s)"
    have t: "?t \<le> unat k" using True len by simp
    have h1: "sha_absorbed h' (m @ take ?t d)"
      using hash_update_absorbed [OF h, of "take ?t d"] h take_n
      by (auto simp: h'_def word_gt_0 dest: arg_cong [where f = unat])
    have dif: "unat (k - (probe_n p - s_hashed_bytes s)) = unat k - ?t"
      using t take_n by (simp add: unat_u32_sub u32_le_iff)
    have split: "take ?t d @ take (unat k - ?t) (drop ?t d) = take (unat k) d"
      using t by (simp add: take_add [symmetric])
    have h2: "sha_absorbed (if probe_n p - s_hashed_bytes s < k
        then hash_update h' (take (unat k - ?t) (drop ?t d)) else h') (m @ take (unat k) d)"
      using hash_update_absorbed [OF h1, of "take (unat k - ?t) (drop ?t d)"] h1 split t take_n
      by (auto simp: u32_less_iff)
    have pre: "take (unat (probe_n p)) (m @ take (unat k) d) = m @ take ?t d"
      using len t by (simp add: min_def)
    have "hash_piece (probe_n p) d k s =
        s\<lparr>s_hasher := (if probe_n p - s_hashed_bytes s < k
             then hash_update h' (take (unat k - ?t) (drop ?t d)) else h'),
          s_probe_sha256 := hash_hex h', s_probe_finalized := True,
          s_hashed_bytes := s_hashed_bytes s + k\<rparr>"
      using False True sum unfolding h'_def
      by (simp only: hash_piece_def Let_def u32_le_iff take_n dif clone_id simp_thms if_True)
    then show ?thesis
      using True h2 pre hash_hex_absorbed [OF h1] k by (simp add: probe_rep_def)
  next
    case False': False
    with False sum hash_update_absorbed [OF h, of "take (unat k) d"] k show ?thesis
      by (simp add: hash_piece_def probe_rep_def u32_le_iff)
  qed
qed


lemma session_rep_frame [simp]:
  "session_rep p det disk f cs (s\<lparr>s_metrics := m\<rparr>) = session_rep p det disk f cs s"
  "session_rep p det disk f cs (s\<lparr>s_saw_short_eof := e\<rparr>) = session_rep p det disk f cs s"
  by (simp_all add: session_rep_def probe_rep_def)

lemma process_chunk_rep:
  assumes p: "wf_params p" and c: "wf_chunk c" and rep: "session_rep p det disk f cs s"
    and run: "process_chunk p det disk c s = (True, s')"
  shows "session_rep p det disk f (cs @ [c]) s'"
proof (cases "accepted p c")
  case False
  with run rep show ?thesis
    by (auto simp: process_chunk_def accepted_def Let_def session_rep_def replay_snoc
        replay_coverage_snoc probe_rep_def)
next
  case True
  define cov where
    "cov = coverage_record (s_coverage s) (lc_offset c) (Some (lc_data c)) (clipped_len p c) det"
  define s1 where "s1 = (if p_write_file p
      then s\<lparr>s_file := ofile_write disk (unat (lc_offset c)) (piece p c) (s_file s)\<rparr> else s)\<lparr>s_coverage := snd cov\<rparr>"
  define s2 where "s2 = hash_piece (probe_n p) (lc_data c) (clipped_len p c) s1"
  have skip: "\<not> skipped_chunk p c" "clipped_len p c \<noteq> 0"
    using True by (auto simp: accepted_def)
  have len: "unat (clipped_len p c) \<le> length (lc_data c)" "unat (clipped_len p c) < 256"
    using clipped_len_nat(1) [OF p c skip(1)] c by (auto simp: wf_chunk_def)
  have fields: "s_ranges s' = ranges_add (s_ranges s) (lc_offset c) (clipped_len p c)"
    "s_coverage s' = snd cov" "s_file s' = s_file s1" "s_hasher s' = s_hasher s2"
    "s_probe_finalized s' = s_probe_finalized s2" "s_probe_sha256 s' = s_probe_sha256 s2"
    "s_hashed_bytes s' = s_hashed_bytes s2"
    using run skip unfolding s2_def s1_def
    by (cases cov; auto simp: process_chunk_def Let_def cov_def piece_def hash_piece_commute
        split: if_splits)+
  have "sha_absorbed (s_hasher s1) (pieces p cs)" "probe_rep p (pieces p cs) s1"
    using rep by (simp_all add: session_rep_def probe_rep_def s1_def)
  note hp = hash_piece_rep [OF p this len, folded s2_def piece_def]
  have "probe_rep p m s' = probe_rep p m s2" for m
    by (simp add: probe_rep_def fields)
  with hp have "sha_absorbed (s_hasher s') (pieces p (cs @ [c]))" "probe_rep p (pieces p (cs @ [c])) s'"
    using True by (simp_all add: fields)
  then show ?thesis
    using rep True
    by (simp add: session_rep_def fields replay_snoc replay_coverage_snoc cov_def s1_def)
qed

lemma process_loop_rep:
  "wf_params p \<Longrightarrow> \<forall>c\<in>set xs. wf_chunk c \<Longrightarrow> session_rep p det disk f cs s \<Longrightarrow>
   process_loop p det disk xs s = (True, s') \<Longrightarrow> session_rep p det disk f (cs @ xs) s'"
proof (induction xs arbitrary: cs s)
  case (Cons c xs)
  from Cons.prems(4) obtain s1 where s1: "process_chunk p det disk c s = (True, s1)"
    "process_loop p det disk xs s1 = (True, s')"
    by (auto split: prod.splits bool.splits)
  have "session_rep p det disk f (cs @ [c]) s1"
    using Cons.prems s1(1) by (intro process_chunk_rep) auto
  from Cons.IH [OF Cons.prems(1) _ this s1(2)] Cons.prems(2) show ?case by simp
qed simp

section \<open>The loops keep the simulation\<close>

text \<open>
  What a session has replayed, followed by what is queued and still to come of its log, is a
  subsequence of the stream \<open>T\<close> of chunks of the log that it started with.
\<close>

definition replaying ::
  "Params \<Rightarrow> bool \<Rightarrow> disk \<Rightarrow> ofile \<Rightarrow> LogDataChunk list \<Rightarrow> session \<Rightarrow> LogDataChunk list \<Rightarrow> bool" where
  "replaying p det disk f T s rest \<longleftrightarrow>
     (\<exists>cs. session_rep p det disk f cs s \<and> subseq (cs @ rest) T)"

lemma replaying_metrics [simp]:
  "replaying p det disk f T (s\<lparr>s_metrics := m\<rparr>) rest = replaying p det disk f T s rest"
  by (simp add: replaying_def)

lemma subseq_set: "subseq xs ys \<Longrightarrow> set xs \<subseteq> set ys"
  by (auto dest: list_emb_set)

lemma replaying_mono:
  assumes "replaying p det disk f T s rest" and "subseq rest' rest"
  shows "replaying p det disk f T s rest'"
proof -
  obtain cs where cs: "session_rep p det disk f cs s" "subseq (cs @ rest) T"
    using assms(1) by (auto simp: replaying_def)
  have "subseq (cs @ rest') (cs @ rest)"
    by (intro list_emb_append_mono assms(2) subseq_order.order_refl)
  with cs show ?thesis
    unfolding replaying_def using subseq_order.order_trans by blast
qed

lemma stream_env: "same_env w w' \<Longrightarrow> subseq (src.stream i w') (src.stream i w)"
  unfolding src.stream_def same_env_def coming_msgs_def
  by (intro subseq_filter list_emb_append_mono) auto

lemma processQueuedChunks_replaying:
  assumes p: "wf_params p" and T: "\<forall>c\<in>set T. wf_chunk c"
    and rep: "replaying p (detect_overlap_conflict (settings w)) disk f T s (src.stream (p_log_id p) w)"
    and run: "processQueuedChunks p disk s w = (True, s', w')"
  shows "replaying p (detect_overlap_conflict (settings w)) disk f T s' (src.stream (p_log_id p) w')"
proof -
  let ?det = "detect_overlap_conflict (settings w)"
  obtain xs w1 where d: "drainLogDataChunks (p_log_id p) w = (xs, w1)" by fastforce
  obtain s1 where s1: "process_loop p ?det disk xs s1 = (True, s')" "w' = w1"
    and m: "\<exists>m. s1 = s\<lparr>s_metrics := m\<rparr>"
    using run by (cases s) (auto simp: processQueuedChunks_def d Let_def split: prod.splits if_splits)
  from rep obtain cs where cs: "session_rep p ?det disk f cs s"
    "subseq (cs @ xs @ src.stream (p_log_id p) w1) T"
    using src.stream_drain [OF d] by (auto simp: replaying_def)
  then have "set xs \<subseteq> set T"
    using subseq_set [OF cs(2)] by simp
  then have "session_rep p ?det disk f (cs @ xs) s'"
    using cs(1) m s1(1) T by (intro process_loop_rep [OF p]) auto
  with cs(2) s1(2) show ?thesis
    unfolding replaying_def by (intro exI [of _ "cs @ xs"]) simp
qed

lemma note_progress_session:
  "note_progress r w = (r', w') \<Longrightarrow> rs_session r' = rs_session r"
  by (auto simp: note_progress_def Let_def split: if_splits)

lemma fill_gaps_session:
  "fill_gaps p rc r w = Some (r', w') \<Longrightarrow> \<exists>m. rs_session r' = (rs_session r)\<lparr>s_metrics := m\<rparr>"
  by (cases "rs_session r") (auto simp: fill_gaps_def Let_def bind_eq_Some_conv split: if_splits)

lemma fill_gaps_timing:
  "fill_gaps p rc r w = Some (r', w') \<Longrightarrow>
   rs_last_data_time r' = rs_last_data_time r \<and> rs_last_progress_bytes r' = rs_last_progress_bytes r"
  by (auto simp: fill_gaps_def Let_def bind_eq_Some_conv split: if_splits)

lemma note_progress_timing:
  assumes "note_progress r w = (r', w')"
  shows "(rs_last_progress_bytes r' = rs_last_progress_bytes r \<and> rs_last_data_time r' = rs_last_data_time r)
       \<or> (rs_last_progress_bytes r < rs_last_progress_bytes r' \<and> rs_last_data_time r' = clock w \<and>
          rs_last_progress_bytes r' = bytesReceived (s_ranges (rs_session r)))"
proof (cases "rs_last_progress_bytes r < bytesReceived (s_ranges (rs_session r))")
  case True
  with assms have "r' = r\<lparr>rs_last_data_time := clock w,
      rs_last_progress_bytes := bytesReceived (s_ranges (rs_session r)), rs_no_progress_attempts := 0\<rparr>"
    by (simp add: note_progress_def Let_def)
  with True show ?thesis by simp
next
  case False
  with assms have "r' = r" by (simp add: note_progress_def Let_def)
  then show ?thesis by simp
qed

definition session_complete :: "Params \<Rightarrow> session \<Rightarrow> bool" where
  "session_complete p s \<longleftrightarrow>
     ranges_complete (s_ranges s) (p_byte_count p) \<and> allSlotsReceived (s_coverage s)"

text \<open>The outcomes of a polling iteration.\<close>

lemma stream_iter_cases:
  assumes "stream_iter p disk r w = Some x"
  obtains (overlap) s' w1 r' w' where "x = Inl (Overlap, r', w')"
      "processQueuedChunks p disk (rs_session r) w = (False, s', w1)"
  | (complete) s' w1 r' w' where "x = Inl (Session_done, r', w')" "rs_session r' = s'"
      "processQueuedChunks p disk (rs_session r) w = (True, s', w1)"
      "ranges_complete (s_ranges s') (p_byte_count p)" "allSlotsReceived (s_coverage s')"
      "same_env w1 w'"
  | (stopped) s' w1 r' w' m where "x = Inl (Stopped, r', w')" "rs_session r' = s'\<lparr>s_metrics := m\<rparr>"
      "processQueuedChunks p disk (rs_session r) w = (True, s', w1)" "same_env w1 w'"
      "download_timeout_sec (settings w') * 1000 \<le> int (clock w') - int (rs_last_data_time r')"
      "rs_last_data_time r' = rs_last_data_time r \<or> rs_last_data_time r' = clock w"
  | (going) s' w1 r' w' m where "x = Inr (r', w')" "rs_session r' = s'\<lparr>s_metrics := m\<rparr>"
      "processQueuedChunks p disk (rs_session r) w = (True, s', w1)" "same_env w1 w'"
      "rs_last_data_time r' = rs_last_data_time r \<or> rs_last_data_time r' = clock w"
      "\<not> session_complete p s'"
proof -
  obtain ok s w1 where q: "processQueuedChunks p disk (rs_session r) w = (ok, s, w1)"
    by (cases "processQueuedChunks p disk (rs_session r) w") auto
  obtain r2 w2 where n: "note_progress (r\<lparr>rs_session := s\<rparr>) w1 = (r2, w2)"
    by fastforce
  have r2: "rs_session r2 = s" using note_progress_session [OF n] by simp
  have e2: "same_env w1 w2" using n by (rule note_progress_env)
  show thesis
  proof (cases "ok \<and> \<not> (ranges_complete (s_ranges s) (p_byte_count p) \<and> allSlotsReceived (s_coverage s))")
    case False
    with assms q n r2 e2 show thesis
      by (auto simp: stream_iter_def Let_def split: if_splits intro: overlap complete)
  next
    case True
    with assms obtain r3 w3 where f:
      "fill_gaps p (ranges_complete (s_ranges s) (p_byte_count p)) r2 w2 = Some (r3, w3)"
      by (auto simp: stream_iter_def q n Let_def bind_eq_Some_conv split: if_splits)
    have e3: "same_env w1 w3"
      using e2 fill_gaps_env [OF f] by (rule same_env_trans)
    from fill_gaps_session [OF f] r2 obtain m where m: "rs_session r3 = s\<lparr>s_metrics := m\<rparr>" by auto
    from True q have q': "processQueuedChunks p disk (rs_session r) w = (True, s, w1)" by simp
    have x: "x = (if download_timeout_sec (settings w3) * 1000 \<le> int (clock w3) - int (rs_last_data_time r3)
        then Inl (Stopped, r3\<lparr>rs_failure := classifyTimeout w3, rs_session :=
               (rs_session r3)\<lparr>s_metrics := (s_metrics (rs_session r3))\<lparr>retries := retries (s_metrics (rs_session r3)) + 1\<rparr>\<rparr>\<rparr>, w3)
        else Inr (r3, w3))"
      using assms True f by (auto simp: stream_iter_def q n Let_def)
    have tm: "rs_last_data_time r3 = rs_last_data_time r \<or> rs_last_data_time r3 = clock w"
      using note_progress_timing [OF n] fill_gaps_timing [OF f] processQueuedChunks_env [OF q]
      by (auto simp: same_env_def)
    show thesis
    proof (cases "download_timeout_sec (settings w3) * 1000 \<le> int (clock w3) - int (rs_last_data_time r3)")
      case stop: True
      then have x': "x = Inl (Stopped, r3\<lparr>rs_failure := classifyTimeout w3,
          rs_session := s\<lparr>s_metrics := m\<lparr>retries := retries m + 1\<rparr>\<rparr>\<rparr>, w3)"
        using x m by simp
      show thesis by (rule stopped [OF x' _ q' e3]) (use stop tm in simp_all)
    next
      case go: False
      with x m tm True show thesis by (intro going [OF _ _ q' e3]) (auto simp: session_complete_def)
    qed
  qed
qed

definition run_inv ::
  "Params \<Rightarrow> bool \<Rightarrow> disk \<Rightarrow> ofile \<Rightarrow> LogDataChunk list \<Rightarrow> run_state \<Rightarrow> downloader \<Rightarrow> bool" where
  "run_inv p det disk f T r w \<longleftrightarrow>
     detect_overlap_conflict (settings w) = det \<and>
     replaying p det disk f T (rs_session r) (src.stream (p_log_id p) w)"

lemma run_inv_env: "run_inv p det disk f T r w \<Longrightarrow> same_env w w' \<Longrightarrow> run_inv p det disk f T r w'"
  using replaying_mono [OF _ stream_env] by (auto simp: run_inv_def same_env_def)

lemma run_inv_wait: "run_inv p det disk f T r w \<Longrightarrow> wait_tick w = Some w' \<Longrightarrow> run_inv p det disk f T r w'"
  using replaying_mono [OF _ src.stream_wait] wait_tick_SomeD [of w w'] by (auto simp: run_inv_def)

lemma run_inv_session:
  "rs_session r' = (rs_session r)\<lparr>s_metrics := m\<rparr> \<Longrightarrow> run_inv p det disk f T r' w = run_inv p det disk f T r w"
  "rs_session r' = rs_session r \<Longrightarrow> run_inv p det disk f T r' w = run_inv p det disk f T r w"
  by (simp_all add: run_inv_def)

lemma stream_iter_inv:
  assumes p: "wf_params p" and T: "\<forall>c\<in>set T. wf_chunk c" and inv: "run_inv p det disk f T r w"
    and x: "stream_iter p disk r w = Some x"
  shows "case x of
      Inl (e, r', w') \<Rightarrow> e \<noteq> Overlap \<longrightarrow>
        run_inv p det disk f T r' w' \<and> (e = Session_done \<longrightarrow> session_complete p (rs_session r'))
    | Inr (r', w') \<Rightarrow> run_inv p det disk f T r' w'"
proof -
  have step: "run_inv p det disk f T r1 w1"
    if "processQueuedChunks p disk (rs_session r) w = (True, s1, w0)"
      "rs_session r1 = s1\<lparr>s_metrics := m\<rparr> \<or> rs_session r1 = s1" "same_env w0 w1" for s1 w0 r1 w1 m
  proof -
    have d: "detect_overlap_conflict (settings w) = det"
      using inv by (auto simp: run_inv_def)
    then have rep: "replaying p det disk f T s1 (src.stream (p_log_id p) w0)"
      using processQueuedChunks_replaying [OF p T _ that(1)] inv by (simp add: run_inv_def)
    have "same_env w w1"
      using processQueuedChunks_env [OF that(1)] that(3) same_env_trans by blast
    with that(2) d replaying_mono [OF rep stream_env [OF that(3)]] show ?thesis
      by (auto simp: run_inv_def same_env_def)
  qed
  from x show ?thesis
  proof (cases rule: stream_iter_cases)
    case (complete s' w1 r' w')
    then show ?thesis using step [OF complete(3), of r' _ w'] by (simp add: session_complete_def)
  next
    case (stopped s' w1 r' w' m)
    then show ?thesis using step [OF stopped(3), of r' m w'] by simp
  next
    case (going s' w1 r' w' m)
    then show ?thesis using step [OF going(3), of r' m w'] by simp
  qed simp
qed

lemma stream_loop_inv:
  "stream_loop p disk r w = Some (e, r', w') \<Longrightarrow> wf_params p \<Longrightarrow> \<forall>c\<in>set T. wf_chunk c \<Longrightarrow>
   run_inv p det disk f T r w \<Longrightarrow> e \<noteq> Overlap \<Longrightarrow>
   run_inv p det disk f T r' w' \<and> (e = Session_done \<longrightarrow> session_complete p (rs_session r'))"
proof (induction p disk r w rule: stream_loop.induct)
  case (1 p disk r w)
  show ?case
  proof (cases "cancelled w")
    case True
    with 1 show ?thesis by (auto simp: stream_loop.simps [of p disk r w])
  next
    case False
    with "1.prems"(1) obtain x where x: "stream_iter p disk r w = Some x"
      by (subst (asm) stream_loop.simps) (auto split: option.splits)
    note loop = "1.prems"(1) [unfolded stream_loop.simps [of p disk r w] x]
    note inv = stream_iter_inv [OF "1.prems"(2) "1.prems"(3) "1.prems"(4) x]
    show ?thesis
    proof (cases x)
      case (Inl y)
      with loop False inv "1.prems"(5) show ?thesis by simp
    next
      case (Inr y)
      then obtain r1 w1 where y: "x = Inr (r1, w1)" by (cases y) simp
      with loop False obtain w2 where w2: "wait_tick w1 = Some w2"
        "stream_loop p disk r1 w2 = Some (e, r', w')" by (auto split: option.splits)
      have "run_inv p det disk f T r1 w2"
        using inv y run_inv_wait [OF _ w2(1)] by simp
      with "1.IH" [OF False x y refl w2(1) w2(2)] "1.prems" show ?thesis by simp
    qed
  qed
qed

lemma sleep_loop_inv:
  "sleep_loop n w = Some w' \<Longrightarrow> run_inv p det disk f T r w \<Longrightarrow> run_inv p det disk f T r w'"
proof (induction n w rule: sleep_loop.induct)
  case (1 n w)
  note loop = "1.prems"(1) [unfolded sleep_loop.simps [of n w]]
  show ?case
  proof (cases "n = 0 \<or> cancelled w")
    case True
    with loop "1.prems"(2) show ?thesis by simp
  next
    case False
    with loop obtain w1 where "wait_tick w = Some w1" "sleep_loop (n - min 100 n) w1 = Some w'"
      by (auto split: option.splits)
    with False "1.IH" run_inv_wait [OF "1.prems"(2)] show ?thesis by blast
  qed
qed

lemma after_stop_inv:
  assumes "after_stop cfg a b z r w = Some (Inr (a', r', w'))" and inv: "run_inv p det disk f T r w"
  shows "run_inv p det disk f T r' w'"
proof -
  have e: "run_inv p det disk f T r (requestLogEnd (clearDataChunks w))"
    by (rule run_inv_env [OF run_inv_env [OF inv same_env_requests(3)] same_env_requests(2)])
  have "rs_session r' = rs_session r"
    using assms(1) by (auto simp: after_stop_def Let_def bind_eq_Some_conv split: if_splits)
  then have "run_inv p det disk f T r' w' = run_inv p det disk f T r w'"
    by (rule run_inv_session)
  moreover have "run_inv p det disk f T r w'"
    using assms(1) inv sleep_loop_inv [OF _ e] run_inv_wait [OF e]
    by (auto simp: after_stop_def interruptibleSleep_def Let_def bind_eq_Some_conv split: if_splits)
  ultimately show ?thesis by simp
qed


lemma start_attempt_inv:
  assumes "start_attempt p a r w = (r', w')" and "run_inv q det disk f T r w"
  shows "run_inv q det disk f T r' w'"
proof -
  have "\<exists>m. rs_session r' = (rs_session r)\<lparr>s_metrics := m\<rparr>"
    using assms(1) by (cases "rs_session r") (auto simp: start_attempt_def Let_def split: if_splits)
  moreover have "same_env w w'"
    using assms(1) same_env_requests(1)
    by (auto simp: start_attempt_def Let_def split: if_splits)
  ultimately show ?thesis
    using run_inv_env [OF assms(2)] run_inv_session(1) by blast
qed

lemma attempt_body_inv:
  assumes p: "wf_params p" and T: "\<forall>c\<in>set T. wf_chunk c" and inv: "run_inv p det disk f T r w"
    and x: "attempt_body p disk cfg a r w = Some x"
  shows "case x of
      Inl (e, r', w') \<Rightarrow> e = Finished True \<longrightarrow>
        run_inv p det disk f T r' w' \<and> session_complete p (rs_session r')
    | Inr (a', r', w') \<Rightarrow> run_inv p det disk f T r' w'"
proof (cases "cancelled w")
  case True
  with x show ?thesis by (auto simp: attempt_body_def)
next
  case False
  obtain r0 w0 where st: "start_attempt p a r w = (r0, w0)" by fastforce
  note inv0 = start_attempt_inv [OF st inv]
  from x False st obtain e r1 w1 where sl: "stream_loop p disk r0 w0 = Some (e, r1, w1)"
    by (auto simp: attempt_body_def Let_def bind_eq_Some_conv)
  note inv1 = stream_loop_inv [OF sl p T inv0]
  show ?thesis
  proof (cases e)
    case Session_done
    with x False st sl inv1 show ?thesis by (auto simp: attempt_body_def Let_def)
  next
    case Overlap
    with x False st sl show ?thesis by (auto simp: attempt_body_def Let_def)
  next
    case Stopped
    with x False st sl have x': "after_stop cfg a (bytesReceived (s_ranges (rs_session r)))
        (zero_length_data_count w) r1 w1 = Some x" by (simp add: attempt_body_def Let_def)
    show ?thesis
    proof (cases x)
      case (Inl y)
      with x' show ?thesis by (auto simp: after_stop_def Let_def bind_eq_Some_conv split: if_splits)
    next
      case (Inr y)
      with x' Stopped inv1 after_stop_inv [of cfg a _ _ r1 w1 "fst y" "fst (snd y)" "snd (snd y)"]
      show ?thesis by (cases y) auto
    qed
  qed
qed

lemma attempt_loop_inv:
  "attempt_loop p disk cfg a r w = Some (Finished True, r', w') \<Longrightarrow> wf_params p \<Longrightarrow>
   \<forall>c\<in>set T. wf_chunk c \<Longrightarrow> run_inv p det disk f T r w \<Longrightarrow>
   run_inv p det disk f T r' w' \<and> session_complete p (rs_session r')"
proof (induction p disk cfg a r w rule: attempt_loop.induct)
  case (1 p disk cfg a r w)
  note loop = "1.prems"(1) [unfolded attempt_loop.simps [of p disk cfg a r w]]
  then have go: "\<not> retry_count cfg < a" by auto
  with loop obtain x where x: "attempt_body p disk cfg a r w = Some x"
    by (auto split: option.splits)
  note inv = attempt_body_inv [OF "1.prems"(2) "1.prems"(3) "1.prems"(4) x]
  show ?case
  proof (cases x)
    case (Inl y)
    with loop go x inv show ?thesis by auto
  next
    case (Inr y)
    then obtain a1 r1 w1 where y: "x = Inr (a1, r1, w1)" by (cases y) auto
    with loop go x have "attempt_loop p disk cfg a1 r1 w1 = Some (Finished True, r', w')" by simp
    with "1.IH" [OF go x y refl refl] "1.prems"(2,3) inv y show ?thesis by simp
  qed
qed


section \<open>What a successful run has done\<close>

text \<open>The chunks of one log that a script still brings.\<close>

definition log_stream :: "u16 \<Rightarrow> downloader \<Rightarrow> LogDataChunk list" where
  "log_stream i w = filter (\<lambda>c. lc_id c = i) (concat (map chunk_of (coming_msgs w)))"

lemma run_inv_start:
  "run_inv p (detect_overlap_conflict (settings w)) disk f (log_stream (p_log_id p) w)
     (run_new (p_byte_count p) f (clock w)) (clearDataChunks w)"
  using session_rep_new [of p "detect_overlap_conflict (settings w)" disk f]
  by (auto simp: run_inv_def replaying_def run_new_def src.stream_clear log_stream_def
      intro!: exI [of _ "[]"])

lemma finish_run_success:
  assumes "res_success (finish_run p e r)"
  shows "e = Finished True \<and> overlap_conflicts (s_coverage (rs_session r)) = 0"
  using assms
  by (auto simp: finish_run_def partial_result_def Let_def word_gt_0
      split: run_exit.splits bool.splits if_splits)

lemma finish_run_conflicts:
  "e = Finished True \<Longrightarrow> overlap_conflicts (s_coverage (rs_session r)) = 0 \<Longrightarrow>
   met_overlap_conflicts (res_metrics (finish_run p e r)) = 0"
  by (simp add: finish_run_def Let_def)

lemma finish_run_digests:
  assumes "e = Finished True" and "overlap_conflicts (s_coverage s) = 0" and "s = rs_session r"
    and "session_rep p det disk f cs s"
  shows "res_sha256 (finish_run p e r) = fips_sha256_hex (pieces p cs)"
    and "res_probe_sha256 (finish_run p e r) = fips_sha256_hex (take (unat (probe_n p)) (pieces p cs))"
    and "res_ranges (finish_run p e r) = replay_ranges p cs"
proof -
  have h: "sha_absorbed (s_hasher s) (pieces p cs)" "probe_rep p (pieces p cs) s"
    using assms(4) by (simp_all add: session_rep_def)
  show "res_sha256 (finish_run p e r) = fips_sha256_hex (pieces p cs)"
    "res_ranges (finish_run p e r) = replay_ranges p cs"
    using assms hash_hex_absorbed [OF h(1)]
    by (simp_all add: finish_run_def Let_def session_rep_def)
  show "res_probe_sha256 (finish_run p e r) = fips_sha256_hex (take (unat (probe_n p)) (pieces p cs))"
    using assms(1-3) h(2) hash_hex_absorbed [OF h(1)]
    by (auto simp: finish_run_def Let_def probe_rep_def empty_hash_fips)
qed

text \<open>The replay of a successful run.\<close>

definition replay_result ::
  "Params \<Rightarrow> bool \<Rightarrow> disk \<Rightarrow> ofile \<Rightarrow> LogDataChunk list \<Rightarrow> StreamDownloadResult \<Rightarrow> ofile \<Rightarrow> bool" where
  "replay_result p det disk f cs res f' \<longleftrightarrow>
     f' = replay_file p disk f cs \<and>
     res_ranges res = replay_ranges p cs \<and> met_overlap_conflicts (res_metrics res) = 0 \<and>
     ranges_complete (replay_ranges p cs) (p_byte_count p) \<and>
     allSlotsReceived (replay_coverage p det cs) \<and> overlap_conflicts (replay_coverage p det cs) = 0 \<and>
     res_sha256 res = fips_sha256_hex (pieces p cs) \<and>
     res_probe_sha256 res = fips_sha256_hex (take (unat (probe_n p)) (pieces p cs))"

lemma run_replay:
  assumes p: "wf_params p" "p_byte_count p \<noteq> 0"
    and T: "\<forall>c\<in>set (log_stream (p_log_id p) w). wf_chunk c"
    and run: "run p disk f w = Some (res, f', w')" and ok: "res_success res"
  shows "\<exists>cs. subseq cs (log_stream (p_log_id p) w) \<and>
    replay_result p (detect_overlap_conflict (settings w)) disk f cs res f'"
proof -
  let ?det = "detect_overlap_conflict (settings w)" and ?T = "log_stream (p_log_id p) w"
  from run p(2) obtain e r where al:
    "attempt_loop p disk (settings w) 0 (run_new (p_byte_count p) f (clock w)) (clearDataChunks w)
       = Some (e, r, w')" "res = finish_run p e r" "f' = s_file (rs_session r)"
    by (auto simp: run_def bind_eq_Some_conv)
  then have e: "e = Finished True" "overlap_conflicts (s_coverage (rs_session r)) = 0"
    using ok finish_run_success by blast+
  have inv: "run_inv p ?det disk f ?T r w'" "session_complete p (rs_session r)"
    using attempt_loop_inv [OF al(1) [unfolded e(1)] p(1) T run_inv_start] by auto
  then obtain cs where cs: "session_rep p ?det disk f cs (rs_session r)" "subseq (cs @ src.stream (p_log_id p) w') ?T"
    by (auto simp: run_inv_def replaying_def)
  have "subseq cs ?T"
    using subseq_rev_drop_many [OF subseq_order.order_refl] cs(2) by (rule subseq_order.order_trans)
  moreover have "replay_result p ?det disk f cs res f'"
    using finish_run_digests [OF e refl cs(1)] finish_run_conflicts [OF e] cs(1) inv(2) e(2) al
    by (simp add: replay_result_def session_rep_def session_complete_def)
  ultimately show ?thesis by blast
qed


section \<open>The bytes on disk\<close>

text \<open>A chunk that carries the bytes of a log \<open>L\<close> at its offset.\<close>

definition honest_chunk :: "bytes \<Rightarrow> LogDataChunk \<Rightarrow> bool" where
  "honest_chunk L c \<longleftrightarrow> wf_chunk c \<and> unat (lc_offset c) + unat (lc_count c) \<le> length L \<and>
     lc_data c = take (unat (lc_count c)) (drop (unat (lc_offset c)) L)"

lemma piece_nth:
  assumes "wf_params p" and "honest_chunk L c" and "accepted p c" and "i < length (piece p c)"
  shows "piece p c ! i = L ! (unat (lc_offset c) + i)" and "unat (lc_offset c) + i < length L"
proof -
  have c: "wf_chunk c" "\<not> skipped_chunk p c" using assms by (auto simp: honest_chunk_def accepted_def)
  have "i < unat (lc_count c)"
    using assms(4) length_piece [OF assms(1) c] clipped_len_nat(1) [OF assms(1) c] by simp
  then show "piece p c ! i = L ! (unat (lc_offset c) + i)" "unat (lc_offset c) + i < length L"
    using assms(2,4) by (auto simp: piece_def honest_chunk_def)
qed

lemma replay_ranges_covered:
  assumes p: "wf_params p" and wf: "\<forall>c\<in>set cs. wf_chunk c"
  shows "ranges_inv (replay_ranges p cs) \<and>
    covered (replay_ranges p cs) = (\<Union>c\<in>{c\<in>set cs. accepted p c}.
      {unat (lc_offset c)..<unat (lc_offset c) + length (piece p c)}) \<and>
    covered (replay_ranges p cs) \<subseteq> {0..<unat (p_byte_count p)}"
  using wf
proof (induction cs rule: rev_induct)
  case Nil
  then show ?case by (simp add: replay_ranges_def ranges_add_all_def)
next
  case (snoc c cs)
  show ?case
  proof (cases "accepted p c")
    case True
    then have c: "wf_chunk c" "\<not> skipped_chunk p c" using snoc.prems by (auto simp: accepted_def)
    note len = length_piece [OF p c]
    have lt: "unat (lc_offset c) + unat (clipped_len p c) \<le> unat (p_byte_count p)"
      using clipped_len_nat(3) [OF p c] .
    then have nw: "no_wrap (lc_offset c) (clipped_len p c)"
      by (auto simp: no_wrap_def intro: le_less_trans [OF _ unat_u32_bound])
    from snoc True len lt rr.inv_track [OF _ nw] rr.tracked_track [OF _ nw] show ?thesis
      by (auto simp: replay_snoc)
  next
    case False
    with snoc show ?thesis by (auto simp: replay_snoc)
  qed
qed

lemma replay_complete:
  assumes "wf_params p" and "\<forall>c\<in>set cs. wf_chunk c"
    and "ranges_complete (replay_ranges p cs) (p_byte_count p)"
  shows "covered (replay_ranges p cs) = {0..<unat (p_byte_count p)}"
proof -
  have "ranges_inv (replay_ranges p cs)" "covered (replay_ranges p cs) \<subseteq> {0..<unat (p_byte_count p)}"
    using replay_ranges_covered [OF assms(1,2)] by auto
  from iffD1 [OF rr.full_iff [OF this] assms(3)] show ?thesis .
qed

lemma ofile_write_ok:
  "\<not> of_bad f \<Longrightarrow> disk ofs (length d) \<Longrightarrow>
   \<not> of_bad (ofile_write disk ofs d f) \<and> of_data (ofile_write disk ofs d f) = write_at (of_data f) ofs d"
  by (simp add: ofile_write_def)

definition agrees :: "bytes \<Rightarrow> nat set \<Rightarrow> bytes \<Rightarrow> bool" where
  "agrees L S data \<longleftrightarrow> length data \<le> length L \<and> (\<forall>i\<in>S. i < length data \<and> data ! i = L ! i)"

lemma agrees_write:
  assumes "agrees L S data" and "d \<noteq> []" and "ofs + length d \<le> length L"
    and d: "\<And>j. j < length d \<Longrightarrow> d ! j = L ! (ofs + j)"
  shows "agrees L (S \<union> {ofs..<ofs + length d}) (write_at data ofs d)"
proof -
  have "i < length (write_at data ofs d) \<and> write_at data ofs d ! i = L ! i"
    if "i \<in> S \<union> {ofs..<ofs + length d}" for i
  proof (cases "ofs \<le> i \<and> i < ofs + length d")
    case True
    then show ?thesis
      using d [of "i - ofs"] assms(2) by (auto simp: nth_write_at_in length_write_at)
  next
    case False
    with that assms(1) have "i < length data" "data ! i = L ! i" by (auto simp: agrees_def)
    with False assms(2) show ?thesis
      by (auto simp: nth_write_at_out length_write_at not_le less_max_iff_disj)
  qed
  with assms show ?thesis by (simp add: agrees_def length_write_at)
qed

lemma agrees_all: "agrees L {0..<length L} data \<Longrightarrow> data = L"
proof -
  assume a: "agrees L {0..<length L} data"
  then have "length data = length L"
    by (cases L) (auto simp: agrees_def Suc_le_eq dest: bspec [of _ _ "length L - 1"])
  with a show ?thesis by (intro nth_equalityI) (auto simp: agrees_def)
qed

text \<open>
  A stream whose bad bit was set on the way holds a part of the log: no byte beyond its length, and each
  byte that of the log or, in a hole that was never filled, zero.
\<close>

definition partial_copy :: "bytes \<Rightarrow> bytes \<Rightarrow> bool" where
  "partial_copy L data \<longleftrightarrow>
     length data \<le> length L \<and> list_all (\<lambda>i. data ! i = L ! i \<or> data ! i = 0) [0..<length data]"

lemma partial_copy_self: "partial_copy L L"
  by (simp add: partial_copy_def list_all_iff)

lemma nth_write_at_hole:
  assumes "length f \<le> i" and "i < ofs"
  shows "write_at f ofs d ! i = 0"
proof -
  have "i - length f < ofs - length f" using assms by simp
  then show ?thesis using assms by (simp add: write_at_def nth_append)
qed

lemma partial_copy_write:
  assumes "partial_copy L data" and "d \<noteq> []" and "ofs + length d \<le> length L"
    and d: "\<And>j. j < length d \<Longrightarrow> d ! j = L ! (ofs + j)"
  shows "partial_copy L (write_at data ofs d)"
proof -
  have "write_at data ofs d ! i = L ! i \<or> write_at data ofs d ! i = 0"
    if i: "i < length (write_at data ofs d)" for i
  proof -
    have "i < length data \<or> i < ofs + length d"
      using i assms(2) by (simp add: length_write_at less_max_iff_disj)
    then consider "ofs \<le> i" "i < ofs + length d" | "i < length data" "i < ofs \<or> ofs + length d \<le> i"
      | "length data \<le> i" "i < ofs"
      by linarith
    then show ?thesis
    proof cases
      case 1
      then show ?thesis using d [of "i - ofs"] by (simp add: nth_write_at_in)
    next
      case 2
      then show ?thesis
        using assms(1) by (simp add: nth_write_at_out partial_copy_def list_all_iff)
    next
      case 3
      then show ?thesis by (simp add: nth_write_at_hole)
    qed
  qed
  then show ?thesis
    using assms(1-3) by (simp add: partial_copy_def list_all_iff length_write_at)
qed

text \<open>The disk takes every write within the log.\<close>

definition disk_ok :: "disk \<Rightarrow> nat \<Rightarrow> bool" where
  "disk_ok disk n \<longleftrightarrow> (\<forall>ofs k. ofs + k \<le> n \<longrightarrow> disk ofs k)"

definition file_rep :: "bytes \<Rightarrow> disk \<Rightarrow> nat set \<Rightarrow> ofile \<Rightarrow> bool" where
  "file_rep L disk S f \<longleftrightarrow> partial_copy L (of_data f) \<and> (\<not> of_bad f \<longrightarrow> agrees L S (of_data f)) \<and>
     (disk_ok disk (length L) \<longrightarrow> \<not> of_bad f)"

lemma file_rep_write:
  assumes "file_rep L disk S f" and "d \<noteq> []" and "ofs + length d \<le> length L"
    and d: "\<And>j. j < length d \<Longrightarrow> d ! j = L ! (ofs + j)"
  shows "file_rep L disk (S \<union> {ofs..<ofs + length d}) (ofile_write disk ofs d f)"
  using assms agrees_write [OF _ assms(2,3) d, of S "of_data f"] partial_copy_write [OF _ assms(2,3) d, of "of_data f"]
  by (simp add: file_rep_def ofile_write_def disk_ok_def)

lemma replay_file_bytes:
  assumes p: "wf_params p" "p_write_file p" and L: "length L = unat (p_byte_count p)"
    and f: "of_data f = []" "\<not> of_bad f" and cs: "\<forall>c\<in>set cs. honest_chunk L c"
  shows "file_rep L disk (covered (replay_ranges p cs)) (replay_file p disk f cs)"
  using cs
proof (induction cs rule: rev_induct)
  case Nil
  with f p show ?case
    by (simp add: file_rep_def agrees_def partial_copy_def replay_file_def replay_ranges_def ranges_add_all_def)
next
  case (snoc c cs)
  show ?case
  proof (cases "accepted p c")
    case False
    with snoc show ?thesis by (simp add: replay_snoc)
  next
    case True
    let ?f = "replay_file p disk f cs" and ?o = "unat (lc_offset c)" and ?d = "piece p c"
    have c: "wf_chunk c" "\<not> skipped_chunk p c" "honest_chunk L c"
      using snoc.prems True by (auto simp: honest_chunk_def accepted_def)
    have wf: "\<forall>c\<in>set cs. wf_chunk c" "\<forall>c\<in>set (cs @ [c]). wf_chunk c"
      using snoc.prems by (auto simp: honest_chunk_def)
    have ne: "?d \<noteq> []" "?o + length ?d \<le> length L"
      using length_piece [OF p(1) c(1,2)] clipped_len_nat(3) [OF p(1) c(1,2)] True L
      by (auto simp: accepted_def unat_eq_0)
    have IH: "file_rep L disk (covered (replay_ranges p cs)) ?f"
      using snoc by auto
    have "covered (replay_ranges p (cs @ [c])) = covered (replay_ranges p cs) \<union> {?o..<?o + length ?d}"
      using replay_ranges_covered [OF p(1) wf(1)] replay_ranges_covered [OF p(1) wf(2)] True by auto
    with file_rep_write [OF IH ne piece_nth(1) [OF p(1) c(3) True]] True p(2) show ?thesis
      by (simp add: replay_snoc)
  qed
qed

section \<open>The digest of an in-order stream\<close>

definition chunk_span :: "LogDataChunk \<Rightarrow> nat set" where
  "chunk_span c = {unat (lc_offset c)..<unat (lc_offset c) + unat (lc_count c)}"

text \<open>Every chunk starts at or after the end of the chunks before it.\<close>

definition in_order :: "LogDataChunk list \<Rightarrow> bool" where
  "in_order cs \<longleftrightarrow>
     sorted_wrt (\<lambda>c d. unat (lc_offset c) + unat (lc_count c) \<le> unat (lc_offset d)) cs"

lemma in_order_first:
  assumes "in_order (c # cs)" and "lc_count c \<noteq> 0" and "\<Union> (chunk_span ` set (c # cs)) = {a..<n}"
  shows "unat (lc_offset c) = a"
    and "\<Union> (chunk_span ` set cs) = {a + unat (lc_count c)..<n}"
    and "a + unat (lc_count c) \<le> n"
proof -
  have pos: "0 < unat (lc_count c)" using assms(2) by (simp add: unat_gt_0)
  have later: "unat (lc_offset c) + unat (lc_count c) \<le> i" if "i \<in> \<Union> (chunk_span ` set cs)" for i
    using that assms(1) by (force simp: in_order_def chunk_span_def)
  have c: "chunk_span c \<subseteq> {a..<n}" using assms(3) by auto
  with pos have "a \<le> unat (lc_offset c)" "a < n" and le: "unat (lc_offset c) + unat (lc_count c) \<le> n"
    by (auto simp: chunk_span_def)
  moreover from \<open>a < n\<close> have "a \<in> \<Union> (chunk_span ` set (c # cs))" using assms(3) by simp
  ultimately show a: "unat (lc_offset c) = a"
    using later [of a] pos by (auto simp: chunk_span_def)
  with le show "a + unat (lc_count c) \<le> n" by simp
  have "\<Union> (chunk_span ` set cs) = {a..<n} - chunk_span c"
    using assms(3) later by (force simp: chunk_span_def)
  then show "\<Union> (chunk_span ` set cs) = {a + unat (lc_count c)..<n}"
    using a by (auto simp: chunk_span_def)
qed

lemma in_order_data:
  "in_order cs \<Longrightarrow> \<forall>c\<in>set cs. honest_chunk L c \<and> lc_count c \<noteq> 0 \<Longrightarrow>
   \<Union> (chunk_span ` set cs) = {a..<length L} \<Longrightarrow> concat (map lc_data cs) = drop a L"
proof (induction cs arbitrary: a)
  case (Cons c cs)
  note first = in_order_first [OF Cons.prems(1) _ Cons.prems(3)]
  have "concat (map lc_data cs) = drop (a + unat (lc_count c)) L"
    using Cons.prems first(2) by (intro Cons.IH) (auto simp: in_order_def)
  moreover have "lc_data c = take (unat (lc_count c)) (drop a L)"
    using Cons.prems(2) first(1) by (auto simp: honest_chunk_def)
  ultimately show ?case
    using append_take_drop_id [of "unat (lc_count c)" "drop a L"] by (simp add: add.commute)
qed simp

lemma honest_accepted:
  assumes "wf_params p" and "length L = unat (p_byte_count p)" and "honest_chunk L c" and "lc_count c \<noteq> 0"
  shows "accepted p c" and "piece p c = lc_data c" and "length (piece p c) = unat (lc_count c)"
proof -
  have w: "wf_chunk c" and pos: "0 < unat (lc_count c)"
    using assms by (auto simp: honest_chunk_def unat_gt_0)
  then have ns: "\<not> skipped_chunk p c"
    using assms by (auto simp: skipped_chunk_def wf_params_def honest_chunk_def u32_le_iff)
  have n: "unat (clipped_len p c) = unat (lc_count c)"
    using clipped_len_nat(1) [OF assms(1) w ns] assms(2,3) by (auto simp: honest_chunk_def min_def)
  show "accepted p c"
    using ns n pos by (auto simp: accepted_def)
  show "piece p c = lc_data c" "length (piece p c) = unat (lc_count c)"
    using n w by (simp_all add: piece_def wf_chunk_def)
qed

lemma in_order_pieces:
  assumes p: "wf_params p" and L: "length L = unat (p_byte_count p)"
    and cs: "\<forall>c\<in>set cs. honest_chunk L c \<and> lc_count c \<noteq> 0" "in_order cs"
    and full: "ranges_complete (replay_ranges p cs) (p_byte_count p)"
  shows "pieces p cs = L"
proof -
  have acc: "accepted p c" "piece p c = lc_data c" "length (piece p c) = unat (lc_count c)"
    if "c \<in> set cs" for c
    using honest_accepted [OF p L] cs(1) that by auto
  have wf: "\<forall>c\<in>set cs. wf_chunk c" using cs(1) by (auto simp: honest_chunk_def)
  have "\<Union> (chunk_span ` set cs) = covered (replay_ranges p cs)"
    using replay_ranges_covered [OF p wf] acc by (auto simp: chunk_span_def)
  also have "\<dots> = {0..<length L}"
    using replay_complete [OF p wf full] L by simp
  finally have "concat (map lc_data cs) = drop 0 L"
    by (intro in_order_data cs)
  moreover have "filter (accepted p) cs = cs" "map (piece p) cs = map lc_data cs"
    using acc by (auto simp: filter_id_conv)
  ultimately show ?thesis by (simp only: pieces_def drop_0)
qed

section \<open>Properties\<close>

text \<open>What an honest flight controller sends for log \<open>i\<close> with contents \<open>L\<close>.\<close>

fun honest_msg :: "bytes \<Rightarrow> u16 \<Rightarrow> mav_in \<Rightarrow> bool" where
  "honest_msg L i (LOG_DATA did ofs cnt mem) \<longleftrightarrow>
     (did = i \<and> cnt \<noteq> 0 \<longrightarrow> unat ofs + unat cnt \<le> length L \<and>
        take (unat cnt) mem = take (unat cnt) (drop (unat ofs) L))"
| "honest_msg L i _ \<longleftrightarrow> True"

lemma honest_msg_chunk_of:
  assumes "honest_msg L i m" and "c \<in> set (chunk_of m)" and "lc_id c = i"
  shows "honest_chunk L c"
proof (cases m)
  case (LOG_DATA did ofs cnt mem)
  with assms have c: "c = \<lparr>lc_id = i, lc_offset = ofs, lc_count = ucast cnt, lc_data = take (unat cnt) mem\<rparr>"
    "cnt \<noteq> 0" "did = i"
    by (auto split: if_splits)
  with assms(1) LOG_DATA have h: "unat ofs + unat cnt \<le> length L"
    "take (unat cnt) mem = take (unat cnt) (drop (unat ofs) L)" by auto
  have "unat cnt < 256" using unsigned_less [of cnt] by simp
  with h show ?thesis
    by (simp add: c(1) honest_chunk_def wf_chunk_def unat_ucast_8_32)
qed (use assms in auto)

lemma honest_msg_chunks:
  assumes "\<forall>m\<in>set (coming_msgs w). honest_msg L i m"
  shows "\<forall>c\<in>set (log_stream i w). honest_chunk L c"
  using assms honest_msg_chunk_of by (fastforce simp: log_stream_def)

lemma log_stream_nonempty: "c \<in> set (log_stream i w) \<Longrightarrow> lc_count c \<noteq> 0"
proof -
  have "lc_count c \<noteq> 0" if "c \<in> set (chunk_of m)" for m
    using that unat_ucast_8_32 by (cases m) (auto split: if_splits, metis unat_eq_0)
  then show "c \<in> set (log_stream i w) \<Longrightarrow> lc_count c \<noteq> 0" by (auto simp: log_stream_def)
qed

lemma sorted_wrt_subseq: "sorted_wrt R ys \<Longrightarrow> subseq xs ys \<Longrightarrow> sorted_wrt R xs"
proof (induction ys arbitrary: xs)
  case (Cons y ys)
  show ?case
  proof (cases xs)
    case (Cons x xs')
    with Cons.prems(2) consider "subseq xs ys" | "x = y" "subseq xs' ys"
      by (cases "x = y") (auto simp: subseq_Cons2_iff)
    then show ?thesis
      using Cons Cons.IH Cons.prems subseq_set by cases fastforce+
  qed simp
qed (auto dest: list_emb_Nil2)

lemma run_file_is_log:
  assumes p: "p_byte_offset p = 0" "0 \<le> p_probe_bytes p" "p_write_file p"
      "p_byte_count p = of_nat (length L)" "0 < length L" "length L \<le> 4294967040"
    and fc: "\<forall>m\<in>set (coming_msgs w). honest_msg L (p_log_id p) m"
    and f: "of_data f = []" "\<not> of_bad f"
    and run: "run p disk f w = Some (res, f', w')" "res_success res"
  shows "(if of_bad f' then partial_copy L (of_data f') else of_data f' = L) \<and>
    (disk_ok disk (length L) \<longrightarrow> \<not> of_bad f')"
proof -
  have n: "unat (p_byte_count p) = length L"
    using p by (simp add: unat_of_nat)
  have wf: "wf_params p" using p n by (simp add: wf_params_def)
  have nz: "p_byte_count p \<noteq> 0" using n p(5) by auto
  note T = honest_msg_chunks [OF fc]
  then have T': "\<forall>c\<in>set (log_stream (p_log_id p) w). wf_chunk c" by (auto simp: honest_chunk_def)
  from run_replay [OF wf nz T' run] obtain cs where cs: "subseq cs (log_stream (p_log_id p) w)"
    "replay_result p (detect_overlap_conflict (settings w)) disk f cs res f'" by blast
  then have hc: "\<forall>c\<in>set cs. honest_chunk L c" using T subseq_set [OF cs(1)] by blast
  then have "\<forall>c\<in>set cs. wf_chunk c" by (auto simp: honest_chunk_def)
  from replay_complete [OF wf this] have "covered (replay_ranges p cs) = {0..<length L}"
    using cs(2) n by (simp add: replay_result_def)
  then show ?thesis
    using replay_file_bytes [OF wf p(3) _ f hc, of disk] n cs(2)
    by (auto simp: replay_result_def file_rep_def agrees_all)
qed

text \<open>
  (C2) A successful download reproduces the log: if every LOG_DATA message for the log carries the
  bytes of \<open>L\<close> at its offset, in whatever order, with whatever duplicates, losses, retries and other
  traffic, then when \<open>run\<close> reports success the partial file contains exactly \<open>L\<close>, unless a write
  failed. \<open>run\<close> does not look at the stream's state: after a failed write it reports success too, and
  the file holds a part of the log (each byte that of \<open>L\<close> or zero). No write fails on a disk that
  takes every write within the log.
\<close>

theorem download_reproduces_log:
  assumes p: "p_byte_offset p = 0" "0 \<le> p_probe_bytes p" "p_write_file p"
      "p_byte_count p = of_nat (length L)" "0 < length L" "length L \<le> 4294967040"
    and fc: "\<forall>m\<in>set (coming_msgs w). honest_msg L (p_log_id p) m"
    and f: "of_data f = []" "\<not> of_bad f"
    and run: "run p disk f w = Some (res, f', w')" "res_success res"
  shows "(if of_bad f' then partial_copy L (of_data f') else of_data f' = L) \<and>
    (disk_ok disk (length L) \<longrightarrow> \<not> of_bad f')"
  using assms by (rule run_file_is_log)

text \<open>
  (C16) A run is the replay of a subsequence of the received chunks: whatever the flight controller
  sends, when \<open>run\<close> reports success there is a subsequence \<open>cs\<close> of the chunks received for the log
  such that the reported ranges are those of \<open>cs\<close> and cover the log, the reported number of overlap
  conflicts is that of \<open>cs\<close> and zero, the file is the result of writing the accepted pieces of \<open>cs\<close> one
  after the other, and the two digests are the SHA-256 of those pieces in arrival order (all of them,
  and their first \<open>probe_n\<close> bytes).
\<close>

theorem successful_run_replays_chunks:
  assumes "p_byte_offset p = 0" "0 \<le> p_probe_bytes p" "p_byte_count p \<noteq> 0"
      "unat (p_byte_count p) \<le> 4294967040"
    and "\<forall>c\<in>set (log_stream (p_log_id p) w). length (lc_data c) = unat (lc_count c) \<and> unat (lc_count c) < 256"
    and "run p disk f w = Some (res, f', w')" "res_success res"
  shows "\<exists>cs. subseq cs (log_stream (p_log_id p) w) \<and>
    res_ranges res = replay_ranges p cs \<and> covered (res_ranges res) = {0..<unat (p_byte_count p)} \<and>
    met_overlap_conflicts (res_metrics res) = 0 \<and>
    overlap_conflicts (replay_coverage p (detect_overlap_conflict (settings w)) cs) = 0 \<and>
    f' = replay_file p disk f cs \<and>
    res_sha256 res = fips_sha256_hex (pieces p cs) \<and>
    res_probe_sha256 res = fips_sha256_hex (take (unat (probe_n p)) (pieces p cs))"
proof -
  have p: "wf_params p" using assms by (simp add: wf_params_def)
  have T: "\<forall>c\<in>set (log_stream (p_log_id p) w). wf_chunk c" using assms(5) by (simp add: wf_chunk_def)
  from run_replay [OF p assms(3) T assms(6,7)] obtain cs where cs:
    "subseq cs (log_stream (p_log_id p) w)"
    "replay_result p (detect_overlap_conflict (settings w)) disk f cs res f'" by blast
  have "\<forall>c\<in>set cs. wf_chunk c" using T subseq_set [OF cs(1)] by blast
  from replay_complete [OF p this] cs show ?thesis by (auto simp: replay_result_def)
qed

lemma in_order_run_digests:
  assumes p: "p_byte_offset p = 0" "0 \<le> p_probe_bytes p"
      "p_byte_count p = of_nat (length L)" "0 < length L" "length L \<le> 4294967040"
    and fc: "\<forall>m\<in>set (coming_msgs w). honest_msg L (p_log_id p) m"
    and ord: "in_order (log_stream (p_log_id p) w)"
    and run: "run p disk f w = Some (res, f', w')" "res_success res"
  shows "res_sha256 res = fips_sha256_hex L \<and>
         res_probe_sha256 res = fips_sha256_hex (take (unat (probe_n p)) L)"
proof -
  have n: "unat (p_byte_count p) = length L"
    using p by (simp add: unat_of_nat)
  have wf: "wf_params p" using p n by (simp add: wf_params_def)
  have nz: "p_byte_count p \<noteq> 0" using n p(4) by auto
  note T = honest_msg_chunks [OF fc]
  then have T': "\<forall>c\<in>set (log_stream (p_log_id p) w). wf_chunk c" by (auto simp: honest_chunk_def)
  from run_replay [OF wf nz T' run] obtain cs where cs: "subseq cs (log_stream (p_log_id p) w)"
    "replay_result p (detect_overlap_conflict (settings w)) disk f cs res f'" by blast
  have "\<forall>c\<in>set cs. honest_chunk L c \<and> lc_count c \<noteq> 0"
    using T subseq_set [OF cs(1)] log_stream_nonempty by blast
  moreover have "in_order cs"
    using ord cs(1) unfolding in_order_def by (rule sorted_wrt_subseq)
  ultimately have "pieces p cs = L"
    using in_order_pieces [OF wf] n cs(2) by (simp add: replay_result_def)
  with cs(2) show ?thesis by (simp add: replay_result_def)
qed

text \<open>
  The digests are those of the log when the stream is in order: if every chunk received for the
  log is honest and starts at or after the end of the chunks before it, then when \<open>run\<close> reports
  success \<open>sha256\<close> is the SHA-256 of the log and \<open>probe_sha256\<close> that of its first \<open>probe_n\<close> bytes.
\<close>

theorem in_order_digests_are_of_log:
  assumes p: "p_byte_offset p = 0" "0 \<le> p_probe_bytes p"
      "p_byte_count p = of_nat (length L)" "0 < length L" "length L \<le> 4294967040"
    and fc: "\<forall>m\<in>set (coming_msgs w). honest_msg L (p_log_id p) m"
    and ord: "in_order (log_stream (p_log_id p) w)"
    and run: "run p disk f w = Some (res, f', w')" "res_success res"
  shows "res_sha256 res = fips_sha256_hex L \<and>
         res_probe_sha256 res = fips_sha256_hex (take (unat (probe_n p)) L)"
  using assms by (rule in_order_run_digests)

end
