(* ===== verification/DownloadLiveness.thy ===== *)
theory DownloadLiveness
  imports DownloadCorrectness GapFill
begin

text \<open>
  A download session returns. Whatever the flight controller and the link do, if every wait lets the
  clock advance, \<open>run\<close> returns after a number of waits bounded in the settings and the log size.
\<close>

section \<open>Consumption of the script\<close>

definition ticks_ok :: "downloader \<Rightarrow> bool" where
  "ticks_ok w \<longleftrightarrow> (\<forall>t\<in>set (script w). 0 < tk_dt t)"

definition used :: "nat \<Rightarrow> downloader \<Rightarrow> downloader \<Rightarrow> bool" where
  "used k w w' \<longleftrightarrow> suffix (script w') (script w) \<and> length (script w) \<le> length (script w') + k \<and>
     clock w \<le> clock w' \<and> settings w' = settings w"

lemma used_trans: "used j w w1 \<Longrightarrow> used k w1 w2 \<Longrightarrow> used (j + k) w w2"
  by (auto simp: used_def intro: suffix_order.order_trans)

lemma used_mono: "used j w w' \<Longrightarrow> j \<le> k \<Longrightarrow> used k w w'"
  by (auto simp: used_def)

lemma used_env: "same_env w w' \<Longrightarrow> used 0 w w'"
  by (simp add: used_def same_env_def)

lemma used_ticks: "used k w w' \<Longrightarrow> ticks_ok w \<Longrightarrow> ticks_ok w'"
  by (auto simp: used_def ticks_ok_def dest: set_mono_suffix)

lemma wait_tick_used:
  assumes "0 < length (script w)" and "ticks_ok w"
  shows "\<exists>w'. wait_tick w = Some w' \<and> used 1 w w' \<and> clock w < clock w'"
  using assms
  by (cases "script w") (auto simp: wait_tick_def used_def ticks_ok_def suffix_def)

lemma sleep_loop_used:
  "n \<le> length (script w) \<Longrightarrow> ticks_ok w \<Longrightarrow> \<exists>w'. sleep_loop n w = Some w' \<and> used n w w'"
proof (induction n w rule: sleep_loop.induct)
  case (1 n w)
  show ?case
  proof (cases "n = 0 \<or> cancelled w")
    case True
    then show ?thesis by (simp add: sleep_loop.simps [of n w] used_def)
  next
    case False
    then have "0 < length (script w)" using "1.prems"(1) by linarith
    then obtain w1 where w1: "wait_tick w = Some w1" "used 1 w w1"
      using wait_tick_used [of w] "1.prems"(2) by blast
    have "n - min 100 n \<le> length (script w1)" "ticks_ok w1"
      using w1(2) "1.prems" False used_ticks [OF w1(2)] by (auto simp: used_def)
    then obtain w' where w': "sleep_loop (n - min 100 n) w1 = Some w'" "used (n - min 100 n) w1 w'"
      using "1.IH" [OF False w1(1)] by blast
    have "used n w w'"
      using used_trans [OF w1(2) w'(2)] False by (rule_tac used_mono) auto
    with w1(1) w'(1) False show ?thesis by (simp add: sleep_loop.simps [of n w])
  qed
qed

section \<open>The polling loop\<close>

definition timeout_ms :: "downloader \<Rightarrow> nat" where
  "timeout_ms w = nat (download_timeout_sec (settings w) * 1000)"

definition timed :: "Params \<Rightarrow> run_state \<Rightarrow> downloader \<Rightarrow> bool" where
  "timed p r w \<longleftrightarrow> rs_last_data_time r \<le> clock w \<and>
     unat (rs_last_progress_bytes r) \<le> unat (p_byte_count p)"

definition waits_left :: "Params \<Rightarrow> run_state \<Rightarrow> downloader \<Rightarrow> nat" where
  "waits_left p r w =
     (unat (p_byte_count p) - unat (rs_last_progress_bytes r)) * timeout_ms w
     + (timeout_ms w - (clock w - rs_last_data_time r))"

lemma session_ranges:
  assumes "wf_params p" and "\<forall>c\<in>set T. wf_chunk c" and "replaying p det disk f T s rest"
  shows "ranges_inv (s_ranges s)" and "in_window (s_ranges s) (p_byte_count p)"
    and "unat (bytesReceived (s_ranges s)) \<le> unat (p_byte_count p)"
proof -
  from assms(3) obtain cs where cs: "s_ranges s = replay_ranges p cs" "subseq (cs @ rest) T"
    by (auto simp: replaying_def session_rep_def)
  then have "\<forall>c\<in>set cs. wf_chunk c"
    using subseq_set [OF cs(2)] assms(2) by auto
  note cov = replay_ranges_covered [OF assms(1) this, folded cs(1)]
  then show "ranges_inv (s_ranges s)" "in_window (s_ranges s) (p_byte_count p)"
    by (auto simp: in_window_def)
  have "unat (bytesReceived (s_ranges s)) = card (covered (s_ranges s))"
    using cov by (intro rr.amount_card) auto
  also have "\<dots> \<le> card {0..<unat (p_byte_count p)}"
    using cov by (intro card_mono) auto
  finally show "unat (bytesReceived (s_ranges s)) \<le> unat (p_byte_count p)" by simp
qed


lemma waits_left_progress:
  assumes "rs_last_progress_bytes r < rs_last_progress_bytes r'" and "timed p r' w'"
    and "timeout_ms w' = timeout_ms w"
  shows "waits_left p r' w' \<le> waits_left p r w"
proof -
  let ?a = "unat (rs_last_progress_bytes r)" and ?b = "unat (rs_last_progress_bytes r')"
    and ?n = "unat (p_byte_count p)" and ?t = "timeout_ms w"
  have "?a < ?b" "?b \<le> ?n" using assms by (auto simp: u32_less_iff timed_def)
  then have "Suc (?n - ?b) \<le> ?n - ?a" by linarith
  then have "Suc (?n - ?b) * ?t \<le> (?n - ?a) * ?t" by (rule mult_le_mono1)
  then have "(?n - ?b) * ?t + ?t \<le> (?n - ?a) * ?t" by (simp only: mult_Suc add.commute)
  then show ?thesis unfolding waits_left_def assms(3) by linarith
qed

lemma stream_iter_returns:
  assumes p: "wf_params p" and T: "\<forall>c\<in>set T. wf_chunk c" and inv: "run_inv p det disk f T r w"
  shows "\<exists>x. stream_iter p disk r w = Some x"
proof -
  obtain ok s w1 where q: "processQueuedChunks p disk (rs_session r) w = (ok, s, w1)"
    by (cases "processQueuedChunks p disk (rs_session r) w") auto
  obtain r2 w2 where n: "note_progress (r\<lparr>rs_session := s\<rparr>) w1 = (r2, w2)"
    by fastforce
  have r2: "rs_session r2 = s" using note_progress_session [OF n] by simp
  show ?thesis
  proof (cases ok)
    case False
    then show ?thesis by (simp add: stream_iter_def q)
  next
    case True
    have "replaying p det disk f T s (src.stream (p_log_id p) w1)"
      using processQueuedChunks_replaying [OF p T, of w disk f "rs_session r" s w1] inv q True
      by (simp add: run_inv_def)
    note sr = session_ranges [OF p T this]
    have "unat (p_byte_count p) + 90 < 4294967296" using p by (simp add: wf_params_def)
    then obtain w3 where "requestMergedGaps p (s_ranges s) (p_byte_count p) w2 = Some w3"
      using requestMergedGaps_returns [OF sr(1,2)] by blast
    then have "\<exists>y. fill_gaps p (ranges_complete (s_ranges s) (p_byte_count p)) r2 w2 = Some y"
      by (simp add: fill_gaps_def r2 Let_def)
    then obtain r3 w4 where f: "fill_gaps p (ranges_complete (s_ranges s) (p_byte_count p)) r2 w2 = Some (r3, w4)"
      by auto
    show ?thesis
      by (simp add: stream_iter_def q True n f Let_def)
  qed
qed

lemma stream_iter_timing:
  assumes p: "wf_params p" and T: "\<forall>c\<in>set T. wf_chunk c" and inv: "run_inv p det disk f T r w"
    and tm: "timed p r w" and x: "stream_iter p disk r w = Some x"
  shows "case x of
      Inl (e, r', w') \<Rightarrow> timed p r' w'
    | Inr (r', w') \<Rightarrow> timed p r' w' \<and> 0 < waits_left p r' w' \<and> waits_left p r' w' \<le> waits_left p r w \<and>
        clock w' - rs_last_data_time r' < timeout_ms w'"
proof -
  obtain ok s w1 where q: "processQueuedChunks p disk (rs_session r) w = (ok, s, w1)"
    by (cases "processQueuedChunks p disk (rs_session r) w") auto
  obtain r2 w2 where n: "note_progress (r\<lparr>rs_session := s\<rparr>) w1 = (r2, w2)"
    by fastforce
  have e1: "same_env w w1" and e2: "same_env w w2"
    using processQueuedChunks_env [OF q] note_progress_env [OF n] same_env_trans by blast+
  show ?thesis
  proof (cases ok)
    case False
    then show ?thesis using x tm e1 by (auto simp: stream_iter_def q timed_def same_env_def)
  next
    case True
    have "replaying p det disk f T s (src.stream (p_log_id p) w1)"
      using processQueuedChunks_replaying [OF p T, of w disk f "rs_session r" s w1] inv q True
      by (simp add: run_inv_def)
    note le = session_ranges(3) [OF p T this]
    have t2: "timed p r2 w2"
      using note_progress_timing [OF n] tm le e1 e2 by (auto simp: timed_def same_env_def)
    have wl: "waits_left p r2 w2 \<le> waits_left p r w"
      using note_progress_timing [OF n] waits_left_progress [of r r2 p w2 w] t2 e1 e2
      by (auto simp: timed_def same_env_def waits_left_def timeout_ms_def)
    show ?thesis
    proof (cases "ranges_complete (s_ranges s) (p_byte_count p) \<and> allSlotsReceived (s_coverage s)")
      case complete: True
      with x True n t2 show ?thesis by (auto simp: stream_iter_def q Let_def)
    next
      case incomplete: False
      with x True n obtain r3 w3 where
        f: "fill_gaps p (ranges_complete (s_ranges s) (p_byte_count p)) r2 w2 = Some (r3, w3)"
        by (auto simp: stream_iter_def q Let_def bind_eq_Some_conv)
      have eq: "rs_last_data_time r3 = rs_last_data_time r2" "rs_last_progress_bytes r3 = rs_last_progress_bytes r2"
        "clock w3 = clock w2" "settings w3 = settings w2"
        using fill_gaps_timing [OF f] fill_gaps_env [OF f] by (auto simp: same_env_def)
      then have t3: "timed p r3 w3" "waits_left p r3 w3 = waits_left p r2 w2"
        using t2 by (simp_all add: timed_def waits_left_def timeout_ms_def)
      show ?thesis
      proof (cases "download_timeout_sec (settings w3) * 1000 \<le> int (clock w3) - int (rs_last_data_time r3)")
        case stop: True
        with x True n f incomplete t3 show ?thesis
          by (auto simp: stream_iter_def q Let_def timed_def)
      next
        case go: False
        then have "clock w3 - rs_last_data_time r3 < timeout_ms w3"
          using t3(1) by (auto simp: timeout_ms_def timed_def)
        with go x True n f incomplete t3 wl show ?thesis
          by (auto simp: stream_iter_def q Let_def waits_left_def)
      qed
    qed
  qed
qed


lemma waits_left_wait:
  assumes "timed p r w" and "clock w - rs_last_data_time r < timeout_ms w"
    and "clock w < clock w'" and "settings w' = settings w"
  shows "waits_left p r w' < waits_left p r w" and "timed p r w'"
proof -
  have "timeout_ms w' = timeout_ms w" using assms(4) by (simp add: timeout_ms_def)
  moreover have "timeout_ms w - (clock w' - rs_last_data_time r) < timeout_ms w - (clock w - rs_last_data_time r)"
    using assms(1-3) unfolding timed_def by linarith
  ultimately show "waits_left p r w' < waits_left p r w" unfolding waits_left_def by simp
  show "timed p r w'" using assms(1,3) by (simp add: timed_def)
qed

lemma stream_loop_returns:
  "wf_params p \<Longrightarrow> \<forall>c\<in>set T. wf_chunk c \<Longrightarrow> run_inv p det disk f T r w \<Longrightarrow> timed p r w \<Longrightarrow>
   ticks_ok w \<Longrightarrow> waits_left p r w \<le> length (script w) \<Longrightarrow>
   \<exists>e r' w'. stream_loop p disk r w = Some (e, r', w') \<and> used (waits_left p r w) w w' \<and> timed p r' w'"
proof (induction p disk r w rule: stream_loop.induct)
  case (1 p disk r w)
  note prems = "1.prems"
  show ?case
  proof (cases "cancelled w")
    case True
    with prems(4) show ?thesis
      by (auto simp: stream_loop.simps [of p disk r w] used_def)
  next
    case False
    obtain x where x: "stream_iter p disk r w = Some x"
      using stream_iter_returns [OF prems(1-3)] by blast
    note tm = stream_iter_timing [OF prems(1-4) x]
    note env = stream_iter_env [OF x]
    show ?thesis
    proof (cases x)
      case (Inl y)
      then obtain e r1 w1 where "x = Inl (e, r1, w1)" by (cases y) auto
      with False x tm env used_mono [OF used_env] show ?thesis
        by (auto simp: stream_loop.simps [of p disk r w])
    next
      case (Inr y)
      then obtain r1 w1 where y: "x = Inr (r1, w1)" by (cases y) auto
      have u1: "used 0 w w1" using env y used_env by simp
      have t1: "timed p r1 w1" "0 < waits_left p r1 w1" "waits_left p r1 w1 \<le> waits_left p r w"
        "clock w1 - rs_last_data_time r1 < timeout_ms w1"
        using tm y by auto
      have "0 < length (script w1)" "ticks_ok w1"
        using t1 prems(6) u1 used_ticks [OF u1 prems(5)] by (auto simp: used_def)
      then obtain w2 where w2: "wait_tick w1 = Some w2" "used 1 w1 w2" "clock w1 < clock w2"
        using wait_tick_used by blast
      have lt: "waits_left p r1 w2 < waits_left p r1 w1" "timed p r1 w2"
        using waits_left_wait [OF t1(1,4) w2(3)] w2(2) by (auto simp: used_def)
      have inv2: "run_inv p det disk f T r1 w2"
        using stream_iter_inv [OF prems(1-3) x] y run_inv_wait [OF _ w2(1)] by simp
      have len: "waits_left p r1 w2 \<le> length (script w2)"
        using lt(1) t1(3) prems(6) u1 w2(2) by (auto simp: used_def)
      from "1.IH" [OF False x y refl w2(1) prems(1,2) inv2 lt(2) used_ticks [OF w2(2) \<open>ticks_ok w1\<close>] len]
      obtain e r' w' where res: "stream_loop p disk r1 w2 = Some (e, r', w')"
        "used (waits_left p r1 w2) w2 w'" "timed p r' w'" by blast
      have "used (waits_left p r w) w w'"
        using used_trans [OF used_trans [OF u1 w2(2)] res(2)] lt(1) t1(3) by (auto elim: used_mono)
      with False x y w2(1) res show ?thesis
        by (simp add: stream_loop.simps [of p disk r w])
    qed
  qed
qed

section \<open>The attempts\<close>

text \<open>The waits of one attempt, and the attempts and busy waits that are left.\<close>

definition attempt_waits :: "Params \<Rightarrow> DownloadSettings \<Rightarrow> nat" where
  "attempt_waits p cfg =
     (unat (p_byte_count p) + 1) * nat (download_timeout_sec cfg * 1000)
     + nat (fc_busy_retry_delay_sec cfg * 1000) + 1"

definition attempts_left :: "DownloadSettings \<Rightarrow> int \<Rightarrow> run_state \<Rightarrow> nat" where
  "attempts_left cfg attempt r =
     nat (retry_count cfg + 1 - attempt) + nat (fc_busy_retry_attempts cfg - rs_fc_busy_waits r)"

lemma start_attempt_timing:
  assumes "start_attempt p a r w = (r', w')" and "timed p r w"
  shows "timed p r' w' \<and> used 0 w w' \<and>
    waits_left p r' w' \<le> (unat (p_byte_count p) + 1) * timeout_ms w"
proof -
  have e: "same_env w w'" and "timed p r' w'"
    using assms same_env_requests(1)
    by (auto simp: start_attempt_def timed_def Let_def split: if_splits)
  have "(unat (p_byte_count p) - unat (rs_last_progress_bytes r')) * timeout_ms w
      \<le> unat (p_byte_count p) * timeout_ms w"
    by (intro mult_le_mono1) simp
  moreover have "timeout_ms w' = timeout_ms w" using e by (simp add: timeout_ms_def same_env_def)
  moreover have "timeout_ms w - (clock w' - rs_last_data_time r') \<le> timeout_ms w" by simp
  ultimately have "waits_left p r' w' \<le> (unat (p_byte_count p) + 1) * timeout_ms w"
    unfolding waits_left_def add_mult_distrib by (metis add_mono mult_1)
  with \<open>timed p r' w'\<close> e used_env show ?thesis by blast
qed


lemma after_stop_returns:
  assumes "nat (fc_busy_retry_delay_sec cfg * 1000) + 1 \<le> length (script w)" and "ticks_ok w"
    and "timed p r w"
  shows "\<exists>x. after_stop cfg a b z r w = Some x \<and>
    (\<forall>a' r' w'. x = Inr (a', r', w') \<longrightarrow> used (nat (fc_busy_retry_delay_sec cfg * 1000) + 1) w w' \<and> timed p r' w')"
proof -
  let ?w = "requestLogEnd (clearDataChunks w)" and ?n = "nat (fc_busy_retry_delay_sec cfg * 1000)"
  have u: "used 0 w ?w"
    using used_env [OF same_env_trans [OF same_env_requests(3) same_env_requests(2)]] .
  then have t: "ticks_ok ?w" "?n + 1 \<le> length (script ?w)" using assms used_ticks [OF u] by (auto simp: used_def)
  obtain w1 where w1: "sleep_loop ?n ?w = Some w1" "used ?n ?w w1"
    using sleep_loop_used [of ?n ?w] t by auto
  obtain w2 where w2: "wait_tick ?w = Some w2" "used 1 ?w w2"
    using wait_tick_used [OF _ t(1)] t(2) by (metis add_gr_0 less_le_trans zero_less_one)
  have us: "used (?n + 1) w w1" "used (?n + 1) w w2"
    using used_mono [OF used_trans [OF u w1(2)]] used_mono [OF used_trans [OF u w2(2)]] by auto
  have tm: "timed p r' w'" if "used k w w'" "rs_last_data_time r' = rs_last_data_time r"
    "rs_last_progress_bytes r' = rs_last_progress_bytes r" for r' w' k
    using that assms(3) by (auto simp: timed_def used_def)
  have "used (?n + 1) w w" by (simp add: used_def)
  with w1(1) w2(1) us tm show ?thesis
    unfolding after_stop_def Let_def interruptibleSleep_def by auto
qed

lemma attempt_body_returns:
  assumes p: "wf_params p" and T: "\<forall>c\<in>set T. wf_chunk c" and inv: "run_inv p det disk f T r w"
    and tm: "timed p r w" and tk: "ticks_ok w"
    and len: "attempt_waits p (settings w) \<le> length (script w)"
  shows "\<exists>x. attempt_body p disk (settings w) a r w = Some x \<and>
    (\<forall>a' r' w'. x = Inr (a', r', w') \<longrightarrow> used (attempt_waits p (settings w)) w w' \<and> timed p r' w')"
proof (cases "cancelled w")
  case True
  then show ?thesis by (simp add: attempt_body_def)
next
  case False
  let ?n = "nat (fc_busy_retry_delay_sec (settings w) * 1000) + 1"
  let ?k = "(unat (p_byte_count p) + 1) * timeout_ms w"
  have aw: "attempt_waits p (settings w) = ?k + ?n"
    by (simp add: attempt_waits_def timeout_ms_def)
  obtain r0 w0 where st: "start_attempt p a r w = (r0, w0)" by fastforce
  note s0 = start_attempt_timing [OF st tm]
  then have "waits_left p r0 w0 \<le> length (script w0)" "ticks_ok w0"
    using len aw used_ticks [of 0 w w0] tk by (auto simp: used_def)
  then obtain e r1 w1 where sl: "stream_loop p disk r0 w0 = Some (e, r1, w1)"
    "used (waits_left p r0 w0) w0 w1" "timed p r1 w1"
    using stream_loop_returns [OF p T start_attempt_inv [OF st inv]] s0 by blast
  have u1: "used ?k w w1"
    using used_mono [OF used_trans [OF conjunct1 [OF conjunct2 [OF s0]] sl(2)]] s0 by simp
  have "?n \<le> length (script w1)" "ticks_ok w1"
    using len aw u1 used_ticks [OF u1 tk] by (auto simp: used_def)
  then obtain x where x: "after_stop (settings w) a (bytesReceived (s_ranges (rs_session r)))
      (zero_length_data_count w) r1 w1 = Some x"
    "\<And>a' r' w'. x = Inr (a', r', w') \<Longrightarrow> used ?n w1 w' \<and> timed p r' w'"
    using after_stop_returns [OF _ _ sl(3)] by blast
  then have "\<forall>a' r' w'. x = Inr (a', r', w') \<longrightarrow> used (?k + ?n) w w' \<and> timed p r' w'"
    using used_trans [OF u1] by blast
  then show ?thesis
    using False st sl(1) x(1) unfolding aw
    by (cases e) (auto simp: attempt_body_def Let_def simp del: add_Suc_right)
qed

lemma attempt_loop_returns:
  "wf_params p \<Longrightarrow> \<forall>c\<in>set T. wf_chunk c \<Longrightarrow> run_inv p det disk f T r w \<Longrightarrow> timed p r w \<Longrightarrow>
   ticks_ok w \<Longrightarrow> cfg = settings w \<Longrightarrow> attempts_left cfg a r * attempt_waits p cfg \<le> length (script w) \<Longrightarrow>
   \<exists>y. attempt_loop p disk cfg a r w = Some y"
proof (induction p disk cfg a r w rule: attempt_loop.induct)
  case (1 p disk cfg a r w)
  note prems = "1.prems"
  show ?case
  proof (cases "retry_count cfg < a")
    case True
    then show ?thesis by (simp add: attempt_loop.simps [of p disk cfg a r w])
  next
    case False
    then have pos: "0 < attempts_left cfg a r" by (simp add: attempts_left_def)
    then have le: "attempt_waits p cfg \<le> attempts_left cfg a r * attempt_waits p cfg" by simp
    then obtain x where x: "attempt_body p disk cfg a r w = Some x"
      "\<And>a' r' w'. x = Inr (a', r', w') \<Longrightarrow> used (attempt_waits p cfg) w w' \<and> timed p r' w'"
      using attempt_body_returns [OF prems(1-5), of a] order_trans [OF le prems(7)] prems(6) by blast
    show ?thesis
    proof (cases x)
      case (Inl y)
      with False x(1) show ?thesis
        by (cases y) (simp add: attempt_loop.simps [of p disk cfg a r w])
    next
      case (Inr y)
      then obtain a1 r1 w1 where y: "x = Inr (a1, r1, w1)" by (cases y) auto
      note u = x(2) [OF y]
      have "attempts_left cfg a1 r1 \<le> attempts_left cfg a r - 1"
        using attempt_body_progress [OF x(1) [unfolded y]] False by (auto simp: attempts_left_def)
      from mult_le_mono1 [OF this, of "attempt_waits p cfg"] have "attempts_left cfg a1 r1 * attempt_waits p cfg
          \<le> attempts_left cfg a r * attempt_waits p cfg - attempt_waits p cfg"
        by (simp only: diff_mult_distrib mult_1)
      then have len: "attempts_left cfg a1 r1 * attempt_waits p cfg \<le> length (script w1)"
        using prems(7) u by (auto simp: used_def)
      have inv1: "run_inv p det disk f T r1 w1"
        using attempt_body_inv [OF prems(1-3) x(1)] y by simp
      have "timed p r1 w1" "ticks_ok w1" "cfg = settings w1"
        using u used_ticks [OF _ prems(5)] prems(6) by (auto simp: used_def)
      from "1.IH" [OF False x(1) y refl refl prems(1,2) inv1 this len]
      obtain z where "attempt_loop p disk cfg a1 r1 w1 = Some z" ..
      with False x(1) y show ?thesis
        by (cases z) (simp add: attempt_loop.simps [of p disk cfg a r w])
    qed
  qed
qed

section \<open>Properties\<close>

text \<open>
  (C9) A download session always returns: for a log of at most 4294967040 bytes, whatever the flight
  controller sends and whenever it is cancelled, if the clock advances at each wait then \<open>run\<close>
  returns within \<open>(retry_count + 1 + fc_busy_retry_attempts)\<close> times the waits of one attempt, which
  are at most \<open>(size + 1)\<close> download timeouts (in ms), one busy delay (in ms) and one more.
\<close>

theorem run_returns:
  assumes "p_byte_offset p = 0" "0 \<le> p_probe_bytes p" "unat (p_byte_count p) \<le> 4294967040"
    and "\<forall>c\<in>set (log_stream (p_log_id p) w). length (lc_data c) = unat (lc_count c) \<and> unat (lc_count c) < 256"
    and "\<forall>t\<in>set (script w). 0 < tk_dt t"
    and "(nat (retry_count (settings w) + 1) + nat (fc_busy_retry_attempts (settings w)))
          * attempt_waits p (settings w) \<le> length (script w)"
  shows "\<exists>res f' w'. run p disk f w = Some (res, f', w')"
proof (cases "p_byte_count p = 0")
  case True
  then show ?thesis by (simp add: run_def)
next
  case False
  let ?r = "run_new (p_byte_count p) f (clock w)" and ?w = "clearDataChunks w"
  have p: "wf_params p" using assms by (simp add: wf_params_def)
  have T: "\<forall>c\<in>set (log_stream (p_log_id p) w). wf_chunk c" using assms(4) by (simp add: wf_chunk_def)
  have "timed p ?r ?w" "ticks_ok ?w" "attempts_left (settings w) 0 ?r
      = nat (retry_count (settings w) + 1) + nat (fc_busy_retry_attempts (settings w))"
    using assms(5) by (simp_all add: timed_def ticks_ok_def run_new_def attempts_left_def)
  with attempt_loop_returns [OF p T run_inv_start] assms(6)
  obtain y where "attempt_loop p disk (settings w) 0 ?r ?w = Some y"
    by (metis requests_frame(11) requests_frame(12))
  then show ?thesis using False by (cases y) (auto simp: run_def)
qed

theorem run_returns_witness:
  "\<exists>res f' w'. run \<lparr>p_log_id = 7, p_byte_offset = 0, p_byte_count = 1, p_probe_bytes = 51200, p_write_file = True\<rparr>
     (\<lambda>_ _. True) \<lparr>of_data = [], of_bad = False\<rparr>
     (LogDownloader_new DownloadSettings_default
        (replicate 156012 \<lparr>tk_msgs = [], tk_cancel = False, tk_dt = 10, tk_connected = True,
           tk_fresh = True, tk_send_ok = True\<rparr>)) = Some (res, f', w')"
  by (rule run_returns)
    (simp_all add: LogDownloader_new_def DownloadSettings_default_def log_stream_def coming_msgs_def
      attempt_waits_def)

end
