(* ===== verification/DownloadCompletes.thy ===== *)
theory DownloadCompletes
  imports DownloadLiveness
begin

text \<open>
  A download session succeeds when it should: if a flight controller sends every whole chunk of the
  log at least once, in any order and with any duplicates, within the download timeout, then
  \<open>run\<close> reports success. The examples at the end are runs that other statements use.
\<close>

section \<open>No conflict on honest chunks\<close>

definition entries :: "Params \<Rightarrow> LogDataChunk list \<Rightarrow> chunk list" where
  "entries p cs = map (\<lambda>c. (lc_offset c, lc_data c, clipped_len p c)) (filter (accepted p) cs)"

lemma replay_coverage_entries: "replay_coverage p det cs = record_all (coverage_new (p_byte_count p)) det (entries p cs)"
  by (simp add: replay_coverage_def entries_def)

lemma record_ok_append: "record_ok t (xs @ ys) \<longleftrightarrow> record_ok t xs \<and> record_ok (record_all t True xs) ys"
  by (induction xs arbitrary: t) (auto simp: Let_def)

lemma record_ok_no_conflicts:
  "coverage_inv t \<Longrightarrow> overlap_conflicts t = 0 \<Longrightarrow> record_ok t cs \<Longrightarrow> overlap_conflicts (record_all t True cs) = 0"
proof (induction cs arbitrary: t)
  case (Cons c cs)
  then show ?case
    using coverage_record_step [OF Cons.prems(1,2), of c] coverage_record_inv(1) [OF Cons.prems(1)]
    by (auto simp: Let_def)
qed simp

lemma process_chunk_ok:
  assumes "accepted p c \<longrightarrow> fst (coverage_record (s_coverage s) (lc_offset c) (Some (lc_data c)) (clipped_len p c) det)"
  shows "\<exists>s'. process_chunk p det disk c s = (True, s')"
  using assms
  by (auto simp: process_chunk_def accepted_def Let_def split: prod.splits)

lemma process_loop_ok:
  "wf_params p \<Longrightarrow> \<forall>c\<in>set xs. wf_chunk c \<Longrightarrow> session_rep p True disk f cs s \<Longrightarrow>
   record_ok (coverage_new (p_byte_count p)) (entries p (cs @ xs)) \<Longrightarrow>
   \<exists>s'. process_loop p True disk xs s = (True, s')"
proof (induction xs arbitrary: cs s)
  case (Cons c xs)
  have "entries p (cs @ c # xs) = entries p cs @ entries p [c] @ entries p xs"
    by (simp add: entries_def)
  with Cons.prems(4) have "record_ok (replay_coverage p True cs) (entries p [c])"
    by (simp add: record_ok_append replay_coverage_entries)
  then have "accepted p c \<longrightarrow>
      fst (coverage_record (s_coverage s) (lc_offset c) (Some (lc_data c)) (clipped_len p c) True)"
    using Cons.prems(3) by (auto simp: session_rep_def entries_def Let_def)
  then obtain s1 where s1: "process_chunk p True disk c s = (True, s1)"
    using process_chunk_ok by blast
  have "session_rep p True disk f (cs @ [c]) s1"
    using Cons.prems s1 by (intro process_chunk_rep) auto
  with Cons.IH [of "cs @ [c]" s1] Cons.prems s1 show ?case by simp
qed simp

text \<open>Whole chunks of a log: at a 90-byte boundary, full except for the last one.\<close>

definition whole_chunk :: "bytes \<Rightarrow> LogDataChunk \<Rightarrow> bool" where
  "whole_chunk L c \<longleftrightarrow> honest_chunk L c \<and> 90 dvd unat (lc_offset c) \<and> unat (lc_offset c) < length L \<and>
     unat (lc_count c) = min 90 (length L - unat (lc_offset c))"

definition all_sent :: "bytes \<Rightarrow> LogDataChunk list \<Rightarrow> bool" where
  "all_sent L cs \<longleftrightarrow> (\<forall>k. 90 * k < length L \<longrightarrow> (\<exists>c\<in>set cs. unat (lc_offset c) = 90 * k))"

lemma whole_chunk_accepted:
  assumes "wf_params p" and "length L = unat (p_byte_count p)" and "whole_chunk L c"
  shows "accepted p c" and "piece p c = lc_data c" and "unat (clipped_len p c) = unat (lc_count c)"
proof -
  have nz: "lc_count c \<noteq> 0" using assms(3) by (auto simp: whole_chunk_def)
  have h: "honest_chunk L c" using assms(3) by (simp add: whole_chunk_def)
  note a = honest_accepted [OF assms(1,2) h nz]
  show "accepted p c" "piece p c = lc_data c" by (fact a)+
  have "wf_chunk c" "\<not> skipped_chunk p c" using h a(1) by (auto simp: honest_chunk_def accepted_def)
  from length_piece [OF assms(1) this] a(3) show "unat (clipped_len p c) = unat (lc_count c)" by simp
qed

lemma whole_chunks_consistent:
  assumes p: "wf_params p" and L: "length L = unat (p_byte_count p)" and cs: "\<forall>c\<in>set cs. whole_chunk L c"
  shows "record_ok (coverage_new (p_byte_count p)) (entries p cs)"
proof -
  have "consistent_pair n (lc_offset c, lc_data c, clipped_len p c) (lc_offset d, lc_data d, clipped_len p d)"
    if "c \<in> set cs" "d \<in> set cs" for c d n
  proof (cases "unat (chunkSlotIndex (lc_offset c)) = unat (chunkSlotIndex (lc_offset d))")
    case True
    have w: "whole_chunk L c" "whole_chunk L d" using cs that by auto
    then have "unat (lc_offset c) = unat (lc_offset d)"
      using True by (simp add: unat_chunkSlotIndex whole_chunk_def dvd_div_eq_iff)
    then have "lc_data c = lc_data d" "unat (lc_count c) = unat (lc_count d)"
      using w by (auto simp: whole_chunk_def honest_chunk_def)
    moreover from this have "clipped_len p c = clipped_len p d"
      using whole_chunk_accepted(3) [OF p L w(1)] whole_chunk_accepted(3) [OF p L w(2)]
      by (simp add: word_unat_eq_iff)
    ultimately show ?thesis by (simp add: consistent_pair_def)
  next
    case False
    then show ?thesis by (simp add: consistent_pair_def)
  qed
  then show ?thesis
    by (auto simp: record_ok_new entries_def)
qed

lemma all_sent_complete:
  assumes p: "wf_params p" "p_byte_count p \<noteq> 0" and L: "length L = unat (p_byte_count p)"
    and cs: "\<forall>c\<in>set cs. whole_chunk L c" "all_sent L cs" and rep: "session_rep p det disk f cs s"
  shows "session_complete p s"
proof -
  have wf: "\<forall>c\<in>set cs. wf_chunk c" using cs(1) by (auto simp: whole_chunk_def honest_chunk_def)
  note cov = replay_ranges_covered [OF p(1) wf]
  have len: "length (piece p c) = min 90 (length L - unat (lc_offset c))" if "c \<in> set cs" for c
    using whole_chunk_accepted [OF p(1) L] cs(1) that wf by (auto simp: whole_chunk_def wf_chunk_def)
  have "i \<in> covered (replay_ranges p cs)" if "i < unat (p_byte_count p)" for i
  proof -
    have "90 * (i div 90) < length L" using that L by (simp add: order_le_less_trans [OF times_div_less_eq_dividend])
    then obtain c where c: "c \<in> set cs" "unat (lc_offset c) = 90 * (i div 90)"
      using cs(2) by (auto simp: all_sent_def)
    have "i < 90 * (i div 90) + 90" "90 * (i div 90) \<le> i"
      using mod_less_divisor [of 90 i] mult_div_mod_eq [of 90 i] by linarith+
    then have "i \<in> {unat (lc_offset c)..<unat (lc_offset c) + length (piece p c)}"
      using len [OF c(1)] c(2) that L by (auto simp: min_def)
    moreover have "accepted p c"
      using whole_chunk_accepted(1) [OF p(1) L] cs(1) c(1) by blast
    ultimately show ?thesis using cov c(1) by blast
  qed
  then have "covered (replay_ranges p cs) = {0..<unat (p_byte_count p)}"
    using cov by auto
  then have rc: "ranges_complete (s_ranges s) (p_byte_count p)"
    using rr.full_iff [of "replay_ranges p cs" "p_byte_count p"] cov rep by (auto simp: session_rep_def)
  have "\<exists>e\<in>set (entries p cs). unat (fst e) = 90 * k \<and> snd (snd e) \<noteq> 0"
    if "k < (unat (p_byte_count p) + 89) div 90" for k
  proof -
    have "90 * k < length L" using that L by (auto simp: less_eq_div_iff_mult_less_eq Suc_le_eq div_less_iff_less_mult)
    then obtain c where "c \<in> set cs" "unat (lc_offset c) = 90 * k" using cs(2) by (auto simp: all_sent_def)
    then show ?thesis
      using whole_chunk_accepted [OF p(1) L] cs(1) by (force simp: entries_def accepted_def)
  qed
  then have "allSlotsReceived (replay_coverage p det cs)"
    using all_slots_iff [of "p_byte_count p" det "entries p cs"] p
    by (simp add: replay_coverage_entries wf_params_def)
  with rc rep show ?thesis by (simp add: session_complete_def session_rep_def)
qed


section \<open>The polling loop completes\<close>

definition incoming :: "downloader \<Rightarrow> LogDataChunk list" where
  "incoming w = concat (map chunk_of (coming_msgs w))"

text \<open>The chunks replayed, queued and to come are whole chunks of the log and are all of them.\<close>

definition full_supply :: "Params \<Rightarrow> bytes \<Rightarrow> LogDataChunk list \<Rightarrow> downloader \<Rightarrow> bool" where
  "full_supply p L cs w \<longleftrightarrow>
     (\<forall>c\<in>set (cs @ data_chunks w @ incoming w). whole_chunk L c \<and> lc_id c = p_log_id p) \<and>
     all_sent L (cs @ data_chunks w @ incoming w) \<and>
     length (data_chunks w) \<le> queue_cap (settings w) \<and>
     (\<forall>t\<in>set (script w). \<not> tk_cancel t \<and>
        length (concat (map chunk_of (tk_msgs t))) \<le> queue_cap (settings w)) \<and>
     \<not> cancel_requested w \<and> detect_overlap_conflict (settings w)"

lemma full_supply_env:
  assumes "full_supply p L cs w" and "data_chunks w = []" and "same_env w w'"
  shows "full_supply p L cs w' \<and> data_chunks w' = []"
  using assms by (auto simp: full_supply_def same_env_def incoming_def coming_msgs_def dest: list_emb_Nil2)

lemma full_supply_wait:
  assumes "full_supply p L cs w" and "data_chunks w = []" and "script w = t # ts"
  shows "full_supply p L cs (apply_tick t (w\<lparr>script := ts\<rparr>))"
proof -
  let ?w = "apply_tick t (w\<lparr>script := ts\<rparr>)" and ?q = "concat (map chunk_of (tk_msgs t))"
  have "length ?q \<le> queue_cap (settings w)" using assms by (simp add: full_supply_def)
  then have "data_chunks ?w = ?q"
    using fold_onMessage_queue [of "w\<lparr>script := ts, clock := clock w + tk_dt t\<rparr>" "tk_msgs t"] assms(2)
    by (simp add: lastn_all)
  moreover have "incoming w = ?q @ incoming ?w"
    using assms(3) by (simp add: incoming_def coming_msgs_def)
  ultimately show ?thesis using assms by (simp add: full_supply_def)
qed

lemma full_supply_drain:
  assumes sup: "full_supply p L cs w" and p: "wf_params p" "length L = unat (p_byte_count p)"
    and rep: "session_rep p True disk f cs s"
  shows "\<exists>s' w'. processQueuedChunks p disk s w = (True, s', w') \<and> full_supply p L (cs @ data_chunks w) w' \<and>
    data_chunks w' = [] \<and> session_rep p True disk f (cs @ data_chunks w) s'"
proof -
  have wh: "\<forall>c\<in>set (cs @ data_chunks w). whole_chunk L c" and ids: "\<forall>c\<in>set (data_chunks w). lc_id c = p_log_id p"
    using sup by (auto simp: full_supply_def)
  then have dr: "drainLogDataChunks (p_log_id p) w = (data_chunks w, w\<lparr>data_chunks := []\<rparr>)"
    by (simp add: drainLogDataChunks_eq filter_id_conv filter_empty_conv)
  have wf: "\<forall>c\<in>set (data_chunks w). wf_chunk c" using wh by (auto simp: whole_chunk_def honest_chunk_def)
  define s1 where "s1 = (if queue_depth_max (s_metrics s) < length (data_chunks w)
      then s\<lparr>s_metrics := (s_metrics s)\<lparr>queue_depth_max := length (data_chunks w)\<rparr>\<rparr> else s)"
  have rep1: "session_rep p True disk f cs s1" using rep by (simp add: s1_def)
  obtain s' where s': "process_loop p True disk (data_chunks w) s1 = (True, s')"
    using process_loop_ok [OF p(1) wf rep1 whole_chunks_consistent [OF p wh]] by blast
  have "detect_overlap_conflict (settings w)" using sup by (simp add: full_supply_def)
  then have "processQueuedChunks p disk s w = (True, s', w\<lparr>data_chunks := []\<rparr>)"
    using s' by (simp add: processQueuedChunks_def dr Let_def s1_def)
  moreover have "full_supply p L (cs @ data_chunks w) (w\<lparr>data_chunks := []\<rparr>)"
    using sup by (simp add: full_supply_def incoming_def coming_msgs_def)
  ultimately show ?thesis
    using process_loop_rep [OF p(1) wf rep1 s'] by auto
qed

definition time_left :: "run_state \<Rightarrow> downloader \<Rightarrow> bool" where
  "time_left r w \<longleftrightarrow> rs_last_data_time r \<le> clock w \<and>
     int (clock w) - int (rs_last_data_time r) + int (sum_list (map tk_dt (script w)))
       < download_timeout_sec (settings w) * 1000"

lemma full_supply_run_inv:
  assumes "full_supply p L cs w" and "session_rep p True disk f cs (rs_session r)"
  shows "run_inv p True disk f (cs @ src.stream (p_log_id p) w) r w"
    and "\<forall>c\<in>set (cs @ src.stream (p_log_id p) w). wf_chunk c"
proof -
  show "run_inv p True disk f (cs @ src.stream (p_log_id p) w) r w"
    using assms by (auto simp: run_inv_def replaying_def full_supply_def)
  show "\<forall>c\<in>set (cs @ src.stream (p_log_id p) w). wf_chunk c"
    using assms(1) by (auto simp: full_supply_def src.stream_def incoming_def whole_chunk_def honest_chunk_def)
qed

lemma stream_loop_completes:
  "wf_params p \<Longrightarrow> p_byte_count p \<noteq> 0 \<Longrightarrow> length L = unat (p_byte_count p) \<Longrightarrow> full_supply p L cs w \<Longrightarrow>
   session_rep p True disk f cs (rs_session r) \<Longrightarrow> time_left r w \<Longrightarrow>
   \<exists>cs' r' w'. stream_loop p disk r w = Some (Session_done, r', w') \<and>
     session_rep p True disk f cs' (rs_session r') \<and> (\<forall>c\<in>set cs'. whole_chunk L c)"
proof (induction p disk r w arbitrary: cs rule: stream_loop.induct)
  case (1 p disk r w)
  note prems = "1.prems"
  have nc: "\<not> cancelled w" using prems(4) by (simp add: full_supply_def cancelled_def)
  obtain s' w1 where q: "processQueuedChunks p disk (rs_session r) w = (True, s', w1)"
    "full_supply p L (cs @ data_chunks w) w1" "data_chunks w1 = []"
    "session_rep p True disk f (cs @ data_chunks w) s'"
    using full_supply_drain [OF prems(4,1,3,5)] by blast
  have wh: "\<forall>c\<in>set (cs @ data_chunks w). whole_chunk L c" using prems(4) by (auto simp: full_supply_def)
  obtain x where x: "stream_iter p disk r w = Some x"
    using stream_iter_returns [OF prems(1) full_supply_run_inv(2,1) [OF prems(4,5)]] by blast
  have e1: "same_env w w1" using processQueuedChunks_env [OF q(1)] .
  from x show ?case
  proof (cases rule: stream_iter_cases)
    case (overlap s1 w1 r' w')
    then show ?thesis using q(1) by simp
  next
    case (complete s1 w1' r' w')
    then show ?thesis using q nc x wh
      by (auto simp: stream_loop.simps [of p disk r w])
  next
    case (stopped s1 w1' r' w' m)
    then have "same_env w w'" using q(1) e1 same_env_trans [of w w1 w'] by simp
    with stopped(5,6) prems(6) show ?thesis
      by (auto simp: time_left_def same_env_def)
  next
    case (going s1 w1' r' w' m)
    then have s1: "s1 = s'" "w1' = w1" using q(1) by auto
    have sup': "full_supply p L (cs @ data_chunks w) w'" "data_chunks w' = []"
      using full_supply_env [OF q(2,3) going(4) [unfolded s1]] by auto
    have e': "same_env w w'" using e1 going(4) s1 same_env_trans by blast
    have "script w' \<noteq> []"
    proof
      assume "script w' = []"
      then have "all_sent L (cs @ data_chunks w)"
        using sup' by (simp add: full_supply_def incoming_def coming_msgs_def)
      from all_sent_complete [OF prems(1,2,3) wh this q(4)] show False using going(6) s1 by simp
    qed
    then obtain t ts where t: "script w' = t # ts" by (cases "script w'") auto
    define w2 where "w2 = apply_tick t (w'\<lparr>script := ts\<rparr>)"
    have w2: "wait_tick w' = Some w2" by (simp add: wait_tick_def t w2_def)
    have sup2: "full_supply p L (cs @ data_chunks w) w2"
      unfolding w2_def using full_supply_wait [OF sup' t] .
    have "script w = t # ts" using t e' by (simp add: same_env_def)
    then have tl: "time_left r' w2"
      using prems(6) going(5) e' by (auto simp: time_left_def same_env_def w2_def)
    have rep2: "session_rep p True disk f (cs @ data_chunks w) (rs_session r')"
      using q(4) going(2) s1 by simp
    from "1.IH" [OF nc x going(1) refl w2 prems(1,2,3) sup2 rep2 tl] show ?thesis
      using nc x going(1) w2 by (simp add: stream_loop.simps [of p disk r w])
  qed
qed


lemma run_completes:
  assumes p: "p_byte_offset p = 0" "0 \<le> p_probe_bytes p" "p_byte_count p = of_nat (length L)"
      "0 < length L" "length L \<le> 4294967040"
    and w: "0 \<le> retry_count (settings w)" "detect_overlap_conflict (settings w)" "\<not> cancel_requested w"
    and ts: "\<forall>t\<in>set (script w). \<not> tk_cancel t \<and>
               length (concat (map chunk_of (tk_msgs t))) \<le> queue_cap (settings w)"
    and cs: "\<forall>c\<in>set (incoming w). whole_chunk L c \<and> lc_id c = p_log_id p" "all_sent L (incoming w)"
    and tm: "int (sum_list (map tk_dt (script w))) < download_timeout_sec (settings w) * 1000"
  shows "\<exists>res f' w'. run p disk f w = Some (res, f', w') \<and> res_success res"
proof -
  have n: "unat (p_byte_count p) = length L"
    using p by (simp add: unat_of_nat)
  have wf: "wf_params p" using p n by (simp add: wf_params_def)
  have nz: "p_byte_count p \<noteq> 0" using n p(4) by auto
  let ?r = "run_new (p_byte_count p) f (clock w)" and ?w = "clearDataChunks w"
  obtain r0 w0 where st: "start_attempt p 0 ?r ?w = (r0, w0)" by fastforce
  have e0: "same_env ?w w0" and r0: "\<exists>m. rs_session r0 = (session_new (p_byte_count p) f)\<lparr>s_metrics := m\<rparr>"
    "rs_last_data_time r0 = clock w"
    using st same_env_requests(1) by (auto simp: start_attempt_def run_new_def session_new_def Let_def)
  have "full_supply p L [] ?w"
    using w ts cs by (simp add: full_supply_def incoming_def coming_msgs_def)
  then have sup: "full_supply p L [] w0" using full_supply_env e0 by auto
  have rep: "session_rep p True disk f [] (rs_session r0)"
    using session_rep_new [of p True disk f] r0(1) by auto
  have "time_left r0 w0"
    using tm e0 r0(2) by (simp add: time_left_def same_env_def)
  then obtain cs' r' w' where res: "stream_loop p disk r0 w0 = Some (Session_done, r', w')"
    "session_rep p True disk f cs' (rs_session r')" "\<forall>c\<in>set cs'. whole_chunk L c"
    using stream_loop_completes [OF wf nz n [symmetric] sup rep] by blast
  have "attempt_body p disk (settings w) 0 ?r ?w = Some (Inl (Finished True, r', w'))"
    using w(3) st res(1) by (simp add: attempt_body_def cancelled_def Let_def)
  then have "attempt_loop p disk (settings w) 0 ?r ?w = Some (Finished True, r', w')"
    using w(1) by (simp add: attempt_loop.simps [of p disk "settings w" 0])
  moreover have "overlap_conflicts (s_coverage (rs_session r')) = 0"
    using record_ok_no_conflicts [OF coverage_new_inv _ whole_chunks_consistent [OF wf n [symmetric] res(3)]] res(2)
    by (simp add: session_rep_def replay_coverage_entries coverage_new_def Let_def)
  ultimately show ?thesis
    using nz by (simp add: run_def finish_run_def partial_result_def Let_def)
qed

section \<open>Properties\<close>

text \<open>
  (C8) A responsive flight controller is archived: if the LOG_DATA traffic during the session
  consists of whole chunks of the log, every chunk at least once, in any order and with any
  repetitions, no tick overflows the queue, nobody cancels, and everything arrives within the
  download timeout, then \<open>run\<close> returns and reports success.
\<close>

theorem download_completes:
  assumes "p_byte_offset p = 0" "0 \<le> p_probe_bytes p" "p_byte_count p = of_nat (length L)"
      "0 < length L" "length L \<le> 4294967040"
    and "0 \<le> retry_count (settings w)" "detect_overlap_conflict (settings w)" "\<not> cancel_requested w"
    and "\<forall>t\<in>set (script w). \<not> tk_cancel t \<and>
               length (concat (map chunk_of (tk_msgs t))) \<le> queue_cap (settings w)"
    and "\<forall>c\<in>set (incoming w). whole_chunk L c \<and> lc_id c = p_log_id p" "all_sent L (incoming w)"
    and "int (sum_list (map tk_dt (script w))) < download_timeout_sec (settings w) * 1000"
  shows "\<exists>res f' w'. run p disk f w = Some (res, f', w') \<and> res_success res"
  using assms by (rule run_completes)

text \<open>A log of 100 bytes, its two chunks, and the sessions that receive them.\<close>

definition ex_a :: bytes where
  "ex_a = replicate 90 1"

definition ex_b :: bytes where
  "ex_b = replicate 10 2"

definition ex_log :: bytes where
  "ex_log = ex_a @ ex_b"

definition ex_params :: Params where
  "ex_params = \<lparr>p_log_id = 7, p_byte_offset = 0, p_byte_count = 100, p_probe_bytes = 51200, p_write_file = True\<rparr>"

definition ex_file :: ofile where
  "ex_file = \<lparr>of_data = [], of_bad = False\<rparr>"

definition ex_tick :: "mav_in list \<Rightarrow> tick" where
  "ex_tick ms = \<lparr>tk_msgs = ms, tk_cancel = False, tk_dt = 10, tk_connected = True, tk_fresh = True, tk_send_ok = True\<rparr>"

definition ex_world :: "mav_in list \<Rightarrow> downloader" where
  "ex_world ms = LogDownloader_new DownloadSettings_default [ex_tick ms]"

definition ex_first :: mav_in where
  "ex_first = LOG_DATA 7 0 90 ex_a"

definition ex_second :: mav_in where
  "ex_second = LOG_DATA 7 90 10 ex_b"

definition ex_chunk1 :: LogDataChunk where
  "ex_chunk1 = \<lparr>lc_id = 7, lc_offset = 0, lc_count = 90, lc_data = ex_a\<rparr>"

definition ex_chunk2 :: LogDataChunk where
  "ex_chunk2 = \<lparr>lc_id = 7, lc_offset = 90, lc_count = 10, lc_data = ex_b\<rparr>"

lemmas ex_defs = ex_params_def ex_file_def ex_tick_def ex_world_def LogDownloader_new_def
  DownloadSettings_default_def coming_msgs_def incoming_def log_stream_def queue_cap_def

lemma ex_lengths [simp]: "length ex_a = 90" "length ex_b = 10" "length ex_log = 100"
  by (simp_all add: ex_a_def ex_b_def ex_log_def del: replicate.simps)

lemma ex_chunks [simp]: "chunk_of ex_first = [ex_chunk1]" "chunk_of ex_second = [ex_chunk2]"
  by (simp_all add: ex_first_def ex_second_def ex_chunk1_def ex_chunk2_def)

lemma ex_ids [simp]: "lc_id ex_chunk1 = 7" "lc_id ex_chunk2 = 7"
  by (simp_all add: ex_chunk1_def ex_chunk2_def)

lemma ex_whole: "whole_chunk ex_log ex_chunk1" "whole_chunk ex_log ex_chunk2"
  by (simp_all add: whole_chunk_def honest_chunk_def wf_chunk_def ex_chunk1_def ex_chunk2_def ex_log_def)

lemma ex_all_sent: "all_sent ex_log [ex_chunk1, ex_chunk2]" "all_sent ex_log [ex_chunk2, ex_chunk1]"
proof -
  have "k = 0 \<or> k = 1" if "90 * k < 100" for k :: nat using that by linarith
  then show "all_sent ex_log [ex_chunk1, ex_chunk2]" "all_sent ex_log [ex_chunk2, ex_chunk1]"
    by (fastforce simp: all_sent_def ex_chunk1_def ex_chunk2_def)+
qed

lemma ex_run:
  assumes "ms = [ex_first, ex_second] \<or> ms = [ex_second, ex_first]"
  shows "\<exists>res f' w'. run ex_params disk ex_file (ex_world ms) = Some (res, f', w') \<and> res_success res"
  by (rule run_completes [where L = ex_log])
    (use assms ex_whole ex_all_sent in \<open>auto simp: ex_defs\<close>)

lemma ex_honest:
  "ms = [ex_first, ex_second] \<or> ms = [ex_second, ex_first] \<Longrightarrow>
   \<forall>m\<in>set (coming_msgs (ex_world ms)). honest_msg ex_log (p_log_id ex_params) m"
  by (auto simp: ex_defs ex_first_def ex_second_def ex_log_def)

lemma ex_stream:
  "log_stream (p_log_id ex_params) (ex_world [ex_first, ex_second]) = [ex_chunk1, ex_chunk2]"
  "log_stream (p_log_id ex_params) (ex_world [ex_second, ex_first]) = [ex_chunk2, ex_chunk1]"
  by (simp_all add: ex_defs)

lemma ex_wf_params: "wf_params ex_params" "p_byte_count ex_params = of_nat (length ex_log)"
  by (simp_all add: wf_params_def ex_params_def)

theorem download_completes_witness:
  "\<exists>res f' w'. run ex_params (\<lambda>_ _. True) ex_file (ex_world [ex_second, ex_first]) = Some (res, f', w') \<and>
     res_success res"
  by (rule download_completes [where L = ex_log])
    (use ex_whole ex_all_sent in \<open>auto simp: ex_defs\<close>)

theorem download_reproduces_log_witness:
  "\<exists>res f' w'. run ex_params (\<lambda>_ _. True) ex_file (ex_world [ex_second, ex_first]) = Some (res, f', w') \<and>
     of_data f' = ex_log"
proof -
  obtain res f' w' where
    "run ex_params (\<lambda>_ _. True) ex_file (ex_world [ex_second, ex_first]) = Some (res, f', w')" "res_success res"
    using ex_run [of "[ex_second, ex_first]" "\<lambda>_ _. True"] by blast
  with download_reproduces_log [of ex_params ex_log "ex_world [ex_second, ex_first]" ex_file "\<lambda>_ _. True"]
  show ?thesis using ex_honest [of "[ex_second, ex_first]"] by (auto simp: ex_params_def ex_file_def disk_ok_def)
qed

text \<open>
  A failed write is not reported: on a disk that refuses every write the session succeeds, with the
  digest of what it received, and the file stays empty.
\<close>

lemma failed_writes_unreported:
  "\<exists>res f' w'. run ex_params (\<lambda>_ _. False) ex_file (ex_world [ex_first, ex_second]) = Some (res, f', w') \<and>
     res_success res \<and> res_sha256 res = fips_sha256_hex ex_log \<and> of_data f' = []"
proof -
  let ?w = "ex_world [ex_first, ex_second]"
  obtain res f' w' where r: "run ex_params (\<lambda>_ _. False) ex_file ?w = Some (res, f', w')" "res_success res"
    using ex_run [of "[ex_first, ex_second]" "\<lambda>_ _. False"] by blast
  have ord: "in_order (log_stream (p_log_id ex_params) ?w)"
    by (simp add: ex_stream in_order_def ex_chunk1_def ex_chunk2_def)
  have n0: "p_byte_count ex_params \<noteq> 0" by (simp add: ex_params_def)
  have T: "\<forall>c\<in>set (log_stream (p_log_id ex_params) ?w). wf_chunk c"
    using ex_whole by (auto simp: ex_stream whole_chunk_def honest_chunk_def)
  have "of_data (fold (\<lambda>c. ofile_write (\<lambda>_ _. False) (unat (lc_offset c)) (piece ex_params c)) cs g) = of_data g" for cs g
    by (induction cs arbitrary: g) (simp_all add: ofile_write_def)
  with run_replay [OF ex_wf_params(1) n0 T r] have "of_data f' = []"
    by (auto simp: replay_result_def replay_file_def ex_file_def)
  moreover have "res_sha256 res = fips_sha256_hex ex_log"
    using in_order_run_digests [OF _ _ _ _ _ ex_honest ord r] by (auto simp: ex_params_def)
  ultimately show ?thesis using r by blast
qed

theorem successful_run_replays_chunks_witness:
  "\<exists>res f' w' cs. run ex_params (\<lambda>_ _. False) ex_file (ex_world [ex_second, ex_first]) = Some (res, f', w') \<and>
     subseq cs [ex_chunk2, ex_chunk1] \<and> res_sha256 res = fips_sha256_hex (pieces ex_params cs) \<and>
     f' = replay_file ex_params (\<lambda>_ _. False) ex_file cs"
proof -
  obtain res f' w' where
    r: "run ex_params (\<lambda>_ _. False) ex_file (ex_world [ex_second, ex_first]) = Some (res, f', w')" "res_success res"
    using ex_run [of "[ex_second, ex_first]" "\<lambda>_ _. False"] by blast
  have "\<forall>c\<in>set (log_stream (p_log_id ex_params) (ex_world [ex_second, ex_first])).
      length (lc_data c) = unat (lc_count c) \<and> unat (lc_count c) < 256"
    by (simp add: ex_stream ex_chunk1_def ex_chunk2_def)
  from successful_run_replays_chunks [OF _ _ _ _ this r] r(1) show ?thesis
    by (auto simp: ex_stream) (auto simp: ex_params_def)
qed

theorem in_order_digests_are_of_log_witness:
  "\<exists>res f' w'. run ex_params (\<lambda>_ _. True) ex_file (ex_world [ex_first, ex_second]) = Some (res, f', w') \<and>
     res_sha256 res = fips_sha256_hex ex_log"
proof -
  obtain res f' w' where
    r: "run ex_params (\<lambda>_ _. True) ex_file (ex_world [ex_first, ex_second]) = Some (res, f', w')" "res_success res"
    using ex_run [of "[ex_first, ex_second]" "\<lambda>_ _. True"] by blast
  have "in_order (log_stream (p_log_id ex_params) (ex_world [ex_first, ex_second]))"
    by (simp add: ex_stream in_order_def ex_chunk1_def ex_chunk2_def)
  from in_order_digests_are_of_log [OF _ _ _ _ _ ex_honest this r] r(1) show ?thesis
    by (auto simp: ex_params_def)
qed

text \<open>Only the whole sequence of the two chunks covers the log.\<close>

lemma ex_pieces_all:
  assumes "subseq cs [ex_chunk2, ex_chunk1]" and "ranges_complete (replay_ranges ex_params cs) (p_byte_count ex_params)"
  shows "cs = [ex_chunk2, ex_chunk1]"
proof -
  have wf: "\<forall>c\<in>set cs. wf_chunk c"
    using subseq_set [OF assms(1)] ex_whole by (auto simp: whole_chunk_def honest_chunk_def)
  have "covered (replay_ranges ex_params cs) = {0..<100}"
    using replay_complete [OF ex_wf_params(1) wf assms(2)] by (simp add: ex_params_def)
  then have eq: "{0..<100} = (\<Union>c\<in>{c\<in>set cs. accepted ex_params c}.
      {unat (lc_offset c)..<unat (lc_offset c) + length (piece ex_params c)})"
    using replay_ranges_covered [OF ex_wf_params(1) wf] by simp
  have "\<exists>c\<in>set cs. unat (lc_offset c) \<le> x \<and> x < unat (lc_offset c) + length (piece ex_params c)"
    if "x < 100" for x
    using eqset_imp_iff [OF eq, of x] that by auto
  from this [of 0] this [of 95] have "ex_chunk1 \<in> set cs" "ex_chunk2 \<in> set cs"
    using subseq_set [OF assms(1)]
    by (auto simp: ex_chunk1_def ex_chunk2_def piece_def split: if_splits)
  with assms(1) show ?thesis
    by (cases cs; cases "tl cs") (auto simp: ex_chunk1_def ex_chunk2_def split: if_splits)
qed

text \<open>
  The digest follows the order of arrival: when the second chunk of a log arrives before the
  first, \<open>run\<close> succeeds and the file is the log, but \<open>sha256\<close> is the digest of the two chunks in
  the order in which they came.
\<close>

theorem reordered_log_digest:
  "\<exists>res f' w'. run ex_params (\<lambda>_ _. True) ex_file (ex_world [ex_second, ex_first]) = Some (res, f', w') \<and>
     res_success res \<and> of_data f' = ex_a @ ex_b \<and> res_sha256 res = fips_sha256_hex (ex_b @ ex_a)"
proof -
  let ?w = "ex_world [ex_second, ex_first]"
  obtain res f' w' where r: "run ex_params (\<lambda>_ _. True) ex_file ?w = Some (res, f', w')" "res_success res"
    using ex_run [of "[ex_second, ex_first]" "\<lambda>_ _. True"] by blast
  have n0: "p_byte_count ex_params \<noteq> 0" by (simp add: ex_params_def)
  have hc: "\<forall>c\<in>set [ex_chunk2, ex_chunk1]. honest_chunk ex_log c" "wf_chunk ex_chunk1" "wf_chunk ex_chunk2"
    using ex_whole by (auto simp: whole_chunk_def honest_chunk_def)
  then have T: "\<forall>c\<in>set (log_stream (p_log_id ex_params) ?w). wf_chunk c"
    by (simp add: ex_stream)
  from run_replay [OF ex_wf_params(1) n0 T r] obtain cs where "subseq cs [ex_chunk2, ex_chunk1]"
    and rep: "replay_result ex_params (detect_overlap_conflict (settings ?w)) (\<lambda>_ _. True) ex_file cs res f'"
    by (auto simp: ex_stream)
  then have cs: "cs = [ex_chunk2, ex_chunk1]" by (intro ex_pieces_all) (simp_all add: replay_result_def)
  have "accepted ex_params c \<and> piece ex_params c = lc_data c" if "c \<in> set cs" for c
    using honest_accepted [OF ex_wf_params(1), of ex_log c] that hc(1) ex_wf_params(2)
    by (auto simp: cs ex_chunk1_def ex_chunk2_def unat_of_nat)
  then have "pieces ex_params cs = ex_b @ ex_a"
    by (simp add: pieces_def cs ex_chunk1_def ex_chunk2_def)
  moreover have "of_data f' = ex_log"
    using replay_file_bytes [OF ex_wf_params(1) _ _ _ _ hc(1), of ex_file "\<lambda>_ _. True"] rep
      replay_complete [OF ex_wf_params(1), of cs] hc(2,3)
    by (simp add: cs replay_result_def file_rep_def disk_ok_def agrees_all ex_params_def ex_file_def)
  ultimately show ?thesis using r rep by (auto simp: replay_result_def ex_log_def)
qed

end
