(* ===== verification/ArchiveCorrectness.thy ===== *)
theory ArchiveCorrectness
  imports ArchiveFrame DownloadCompletes
begin

text \<open>
  What the results of \<open>archiveOne\<close> and \<open>archiveAll\<close> mean: a log reported as downloaded is on disk and
  in the catalog, a log reported as a duplicate matches a row of the catalog, a failed attempt leaves
  catalog and archives alone, and a cycle that reports all logs archived has archived or recognised
  each of them.
\<close>

section \<open>The parts of an archive attempt\<close>

lemma st_call_eq: "st_call f a = Some (fst (f (a_st a)), a\<lparr>a_st := snd (f (a_st a))\<rparr>)"
  by (simp add: st_call_def case_prod_unfold)

lemma db_call_eq: "db_call f a = Some (fst (f (a_db a)), a\<lparr>a_db := snd (f (a_db a))\<rparr>)"
  by (simp add: db_call_def case_prod_unfold)

lemma incrementStat_rows [simp]: "archived_logs (snd (incrementStat sq key k d)) = archived_logs d"
  by (auto simp: incrementStat_def getStat_def setStat_def sqlite_call_def Let_def split: bool.splits sum.splits)

lemma findCandidate_rows [simp]: "archived_logs (snd (findCandidate sq i n d)) = archived_logs d"
  by (auto simp: findCandidate_def sqlite_call_def Let_def split: bool.splits)

lemma count_stat_effect:
  assumes "count_stat sq key k a = Some (x, a')"
  shows "a_dl a' = a_dl a \<and> a_st a' = a_st a \<and> archived_logs (a_db a') = archived_logs (a_db a)"
  using assms by (auto simp: count_stat_def bnd_def db_call_eq ret_def split: sum.splits)

lemma session_run_effect:
  assumes "session_run p disk a = Some (x, a')"
  obtains res f w' where "run p disk \<lparr>of_data = [], of_bad = False\<rparr> (clearDataChunks (a_dl a)) = Some (res, f, w')"
    "x = Inr (res, of_data f)" "a' = a\<lparr>a_dl := requestLogEnd w'\<rparr>"
  using assms by (auto simp: session_run_def dl_call_def split: option.splits)

text \<open>The duplicate check does not touch the storage or the rows of the catalog.\<close>

lemma dedup_effect:
  assumes "dedup sq e a = Some (x, a')"
  shows "a_st a' = a_st a" "archived_logs (a_db a') = archived_logs (a_db a)"
proof -
  have "a_st a' = a_st a \<and> archived_logs (a_db a') = archived_logs (a_db a)"
    using assms unfolding dedup_def checkDedup_def downloadProbeAndCompare_def
    by (auto elim!: bnd_SomeE session_run_effect simp: db_call_eq ret_def set_failure_def dl_do_def
        dest!: count_stat_effect split: option.splits if_splits)
  then show "a_st a' = a_st a" "archived_logs (a_db a') = archived_logs (a_db a)" by auto
qed

lemma dedup_later: "dedup sq e a = Some (x, a') \<Longrightarrow> later (a_dl a) (a_dl a')"
  using keepsD [OF hist.keeps_dedup] by (simp add: dl_history_def)

text \<open>A successful download: the session succeeded and its bytes are the partial file.\<close>

lemma downloadLogData_effect:
  assumes "downloadLogData os e p a = Some (x, a')"
  shows "archived_logs (a_db a') = archived_logs (a_db a)"
    and "q \<noteq> p \<Longrightarrow> map_of (fs_files (sm_fs (a_st a'))) q = map_of (fs_files (sm_fs (a_st a))) q"
    and "x = Inr (Some dn) \<Longrightarrow> \<exists>res f w w1. later (a_dl a) w \<and>
      run (log_params (settings (a_dl a)) e) (os_write_ok os) \<lparr>of_data = [], of_bad = False\<rparr> w = Some (res, f, w1) \<and>
      res_success res \<and> dn_sha256 dn = res_sha256 res \<and>
      (\<exists>t. map_of (fs_files (sm_fs (a_st a'))) p = Some \<lparr>f_data = of_data f, f_mtime = t\<rparr>)"
proof -
  let ?w = "clearDataChunks (clearDataChunks (a_dl a\<lparr>last_failure_reason := None_reason\<rparr>))"
  have "later (a_dl a) ?w"
    by (rule later_trans [OF later_updates(3)], rule later_trans [OF later_updates(5) later_updates(5)])
  then show "archived_logs (a_db a') = archived_logs (a_db a)"
    "q \<noteq> p \<Longrightarrow> map_of (fs_files (sm_fs (a_st a'))) q = map_of (fs_files (sm_fs (a_st a))) q"
    "x = Inr (Some dn) \<Longrightarrow> \<exists>res f w w1. later (a_dl a) w \<and>
      run (log_params (settings (a_dl a)) e) (os_write_ok os) \<lparr>of_data = [], of_bad = False\<rparr> w = Some (res, f, w1) \<and>
      res_success res \<and> dn_sha256 dn = res_sha256 res \<and>
      (\<exists>t. map_of (fs_files (sm_fs (a_st a'))) p = Some \<lparr>f_data = of_data f, f_mtime = t\<rparr>)"
    using assms unfolding downloadLogData_def
    by (auto simp: ret_def split: if_splits elim!: bnd_SomeE [of "session_run _ _"] session_run_effect) blast+
qed

lemma verifyDataFlashFile_effect: "verifyDataFlashFile p a = Some (x, a') \<Longrightarrow> a' = a"
  by (auto simp: verifyDataFlashFile_def ret_def split: if_splits)

lemma verifyFcSampleReread_effect:
  assumes "verifyFcSampleReread e p sha a = Some (x, a')"
  shows "a_st a' = a_st a" "a_db a' = a_db a"
proof -
  have "a_st a' = a_st a \<and> a_db a' = a_db a"
    using assms unfolding verifyFcSampleReread_def
    by (auto simp: ret_def dl_call_def Let_def split: FcRereadMode.splits if_splits option.splits
        elim!: bnd_SomeE session_run_effect)
  then show "a_st a' = a_st a" "a_db a' = a_db a" by auto
qed

text \<open>The end of a failed attempt removes at most the partial file.\<close>

lemma fail_archive_effect:
  assumes "fail_archive os sq p reason a = Some (x, a')"
  shows "archived_logs (a_db a') = archived_logs (a_db a)"
    and "q \<noteq> p \<Longrightarrow> map_of (fs_files (sm_fs (a_st a'))) q = map_of (fs_files (sm_fs (a_st a))) q"
    and "x \<noteq> Inr Downloaded" "x \<noteq> Inr SkippedDuplicate"
  using assms unfolding fail_archive_def remove_partial_def
  by (auto simp: ret_def elim!: bnd_SomeE dest!: count_stat_effect)

lemma fail_download_effect:
  assumes "fail_download os sq p a = Some (x, a')"
  shows "archived_logs (a_db a') = archived_logs (a_db a)"
    and "q \<noteq> p \<Longrightarrow> map_of (fs_files (sm_fs (a_st a'))) q = map_of (fs_files (sm_fs (a_st a))) q"
    and "x \<noteq> Inr Downloaded" "x \<noteq> Inr SkippedDuplicate"
  using assms unfolding fail_download_def remove_partial_def
  by (auto simp: ret_def split: if_splits elim!: bnd_SomeE dest!: count_stat_effect)

lemma insertArchivedLog_ok:
  "fst (insertArchivedLog sq r d) = Inr u \<Longrightarrow> r\<lparr>ar_erased := False\<rparr> \<in> set (archived_logs (snd (insertArchivedLog sq r d)))"
  by (auto simp: insertArchivedLog_def sqlite_call_def split: bool.splits)

lemma persist_effect:
  assumes "persist os sq e p dn a = Some (Inr r, a')" and "map_of (fs_files (sm_fs (a_st a))) p = Some f"
  obtains (stored) q row where "r = Downloaded" "q = dest_path os (clock (a_dl a)) (a_st a)"
      "map_of (fs_files (sm_fs (a_st a'))) = (map_of (fs_files (sm_fs (a_st a))))(p := None, q \<mapsto> f)"
      "row \<in> set (archived_logs (a_db a'))" "ar_fc_log_id row = le_id e" "ar_fc_log_size row = le_size e"
      "ar_sha256 row = dn_sha256 dn" "ar_filename row = path_string q" "\<not> ar_erased row"
  | (failed) "r = Failed" "archived_logs (a_db a') = archived_logs (a_db a)"
      "fs_files (sm_fs (a_st a')) = fs_files (sm_fs (a_st a))"
proof -
  let ?now = "clock (a_dl a)"
  obtain y s1 where fin: "finalizePartial os p (dn_start dn) ?now (a_st a) = (y, s1)" by fastforce
  from fin assms(2) show thesis
  proof (cases rule: finalizePartial_cases)
    case moved
    let ?fin = "\<lparr>final_path = dest_path os ?now (a_st a), fin_archive_duration_ms = int (os_done os ?now) - int (dn_start dn)\<rparr>"
    from moved assms(1) fin have "r = Downloaded \<and> a_st a' = s1 \<and>
        row_of os (os_done os ?now) e dn ?fin \<in> set (archived_logs (a_db a'))"
      unfolding persist_def using insertArchivedLog_ok [of sq "row_of os (os_done os ?now) e dn ?fin"]
      by (auto simp: st_call_eq db_call_eq ret_def row_of_def elim!: bnd_SomeE dest!: count_stat_effect)
    then show ?thesis
      using moved by (intro stored [of "dest_path os ?now (a_st a)" "row_of os (os_done os ?now) e dn ?fin"])
        (simp_all add: row_of_def)
  next
    case kept
    with assms(1) fin show ?thesis
      unfolding persist_def
      by (intro failed) (auto simp: st_call_eq ret_def elim!: bnd_SomeE dest!: count_stat_effect)
  qed
qed

lemma beginPartialFile_effect:
  assumes "beginPartialFile os now s = (p, s')"
  shows "directly_in (sm_tmp_dir s) p" "sm_fs s' = sm_fs s" "sm_logs_dir s' = sm_logs_dir s"
  using assms by (auto simp: beginPartialFile_def directly_in_def in_dir_def Let_def)

lemma attempt_cases:
  assumes "archive_attempt os sq e p a1 = Some (Inr r, a')"
  obtains (failed) "r = Failed \<or> r = Cancelled" "archived_logs (a_db a') = archived_logs (a_db a1)"
      "\<And>q. q \<noteq> p \<Longrightarrow> map_of (fs_files (sm_fs (a_st a'))) q = map_of (fs_files (sm_fs (a_st a1))) q"
  | (downloaded) a2 a3 dn where "downloadLogData os e p a1 = Some (Inr (Some dn), a2)"
      "verifyFcSampleReread e p (dn_sha256 dn) a2 = Some (Inr True, a3)"
      "persist os sq e p dn a3 = Some (Inr r, a')"
proof -
  note rest = assms [unfolded archive_attempt_def]
  from rest obtain y a2 where dl: "downloadLogData os e p a1 = Some (Inr y, a2)"
    by (auto elim!: bnd_SomeE)
  note eff = downloadLogData_effect(1,2) [OF dl]
  have failed': thesis if "fail_download os sq p b = Some (Inr r, a') \<or> fail_archive os sq p c b = Some (Inr r, a')"
    "a_st b = a_st a2" "a_db b = a_db a2" for b c
    using that fail_download_effect [of os sq p b "Inr r" a'] fail_archive_effect [of os sq p c b "Inr r" a'] eff
    by (intro failed) (cases r; auto)+
  show thesis
  proof (cases y)
    case None
    with rest dl failed' [of a2] show ?thesis by (simp add: bnd_def)
  next
    case (Some dn)
    with rest dl obtain ok where pv: "verifyDataFlashFile p a2 = Some (Inr ok, a2)"
      using verifyDataFlashFile_effect
      by (fastforce simp: bnd_def [of "downloadLogData _ _ _"] elim!: bnd_SomeE)
    show ?thesis
    proof (cases ok)
      case False
      with rest dl Some pv failed' [of a2 ParseFailed] show ?thesis by (simp add: bnd_def)
    next
      case True
      with rest dl Some pv obtain ok2 a3 where rr: "verifyFcSampleReread e p (dn_sha256 dn) a2 = Some (Inr ok2, a3)"
        by (auto simp: bnd_def [of "downloadLogData _ _ _"] bnd_def [of "verifyDataFlashFile _"] elim!: bnd_SomeE)
      with rest dl Some pv True failed' [of a3 RereadMismatch] verifyFcSampleReread_effect [OF rr] downloaded [of dn a2 a3]
      show ?thesis by (cases ok2) (simp_all add: bnd_def)
    qed
  qed
qed

lemma archiveOne_cases:
  assumes "archiveOne os sq e a = Some (Inr r, a')"
  obtains (early) "dedup sq e a = Some (Inr (Some r), a')"
  | (attempt) p a1 where "directly_in (sm_tmp_dir (a_st a)) p"
      "later (a_dl a) (a_dl a1)" "archived_logs (a_db a1) = archived_logs (a_db a)"
      "sm_fs (a_st a1) = sm_fs (a_st a)" "sm_logs_dir (a_st a1) = sm_logs_dir (a_st a)"
      "archive_attempt os sq e p a1 = Some (Inr r, a')"
proof -
  from assms obtain early b where d: "dedup sq e a = Some (Inr early, b)"
    unfolding archiveOne_def by (auto elim!: bnd_SomeE)
  note de = dedup_effect [OF d] dedup_later [OF d]
  show thesis
  proof (cases early)
    case (Some r')
    with assms d show ?thesis unfolding archiveOne_def by (intro early) (auto simp: bnd_def ret_def)
  next
    case None
    obtain p s1 where bp: "beginPartialFile os (clock (a_dl b)) (a_st b) = (p, s1)" by fastforce
    define a1 where "a1 = b\<lparr>a_st := s1, a_dl := updateProgressBegin (le_id e) (le_size e) (a_dl b)\<rparr>"
    have "archive_attempt os sq e p a1 = Some (Inr r, a')"
      using assms d None bp unfolding archiveOne_def
      by (auto simp: bnd_def [of "dedup sq e"] bnd_def [of "st_call _"] st_call_eq a1_def)
    then show ?thesis
      using de beginPartialFile_effect [OF bp] later_trans [OF de(3) later_updates(8)]
      by (intro attempt [of p a1]) (simp_all add: a1_def)
  qed
qed

section \<open>Results of one log\<close>

lemma dest_path_in_logs: "in_dir (sm_logs_dir s) (dest_path os now s)"
  by (simp add: in_dir_def dest_path_def)

lemma downloaded_is_stored:
  assumes a: "archiveOne os sq e a = Some (Inr Downloaded, a')"
    and fc: "\<forall>m\<in>set (coming_msgs (a_dl a)). honest_msg L (le_id e) m"
    and L: "le_size e = of_nat (length L)" "0 < length L" "length L \<le> 4294967040"
    and cfg: "0 \<le> probe_bytes (settings (a_dl a))"
  shows "\<exists>q f row. in_dir (sm_logs_dir (a_st a)) q \<and> map_of (fs_files (sm_fs (a_st a'))) q = Some f \<and>
    partial_copy L (f_data f) \<and> (disk_ok (os_write_ok os) (length L) \<longrightarrow> f_data f = L) \<and>
    row \<in> set (archived_logs (a_db a')) \<and> ar_fc_log_id row = le_id e \<and> ar_fc_log_size row = le_size e \<and>
    ar_filename row = path_string q \<and> \<not> ar_erased row"
  using a
proof (cases rule: archiveOne_cases)
  case early
  then have False
    unfolding dedup_def checkDedup_def downloadProbeAndCompare_def
    by (auto simp: ret_def elim!: bnd_SomeE split: option.splits if_splits)
  then show ?thesis ..
next
  case (attempt p a1)
  note at = attempt
  from attempt(6) show ?thesis
  proof (cases rule: attempt_cases)
    case failed
    then show ?thesis by simp
  next
    case (downloaded a2 a3 dn)
    from downloadLogData_effect(3) [OF downloaded(1) refl] obtain res f w w1 t where
      w: "later (a_dl a1) w" and
      r: "run (log_params (settings (a_dl a1)) e) (os_write_ok os) \<lparr>of_data = [], of_bad = False\<rparr> w = Some (res, f, w1)"
        "res_success res"
      and f: "map_of (fs_files (sm_fs (a_st a2))) p = Some \<lparr>f_data = of_data f, f_mtime = t\<rparr>"
      by blast
    have "set (coming_msgs w) \<subseteq> set (coming_msgs (a_dl a))"
      using later_coming [OF later_trans [OF at(2) w]] .
    then have h: "\<forall>m\<in>set (coming_msgs w). honest_msg L (p_log_id (log_params (settings (a_dl a1)) e)) m"
      using fc by (auto simp: log_params_def)
    have "(if of_bad f then partial_copy L (of_data f) else of_data f = L) \<and>
        (disk_ok (os_write_ok os) (length L) \<longrightarrow> \<not> of_bad f)"
      by (rule run_file_is_log [OF _ _ _ _ L(2,3) h _ _ r])
        (use L cfg later_settings [OF at(2)] in \<open>simp_all add: log_params_def\<close>)
    then have L': "partial_copy L (of_data f)" "disk_ok (os_write_ok os) (length L) \<longrightarrow> of_data f = L"
      by (auto simp: partial_copy_self split: if_splits)
    have f3: "map_of (fs_files (sm_fs (a_st a3))) p = Some \<lparr>f_data = of_data f, f_mtime = t\<rparr>"
      using f verifyFcSampleReread_effect [OF downloaded(2)] by simp
    have dir: "sm_logs_dir (a_st a3) = sm_logs_dir (a_st a)"
      using at(5) keepsD [OF dirs.keeps_downloadLogData downloaded(1)] verifyFcSampleReread_effect [OF downloaded(2)]
      by (simp add: same_dirs_def)
    from downloaded(3) f3 show ?thesis
    proof (cases rule: persist_effect)
      case (stored q row)
      then show ?thesis
        using dir L' dest_path_in_logs [of "a_st a3" os "clock (a_dl a3)"]
        by (intro exI [of _ q] exI [of _ "\<lparr>f_data = of_data f, f_mtime = t\<rparr>"] exI [of _ row]) auto
    qed simp
  qed
qed

text \<open>The catalog has a row of the id and the size of a log.\<close>

definition catalogued :: "LogEntry \<Rightarrow> archiver \<Rightarrow> bool" where
  "catalogued e a = list_ex (\<lambda>row. ar_fc_log_id row = le_id e \<and> ar_fc_log_size row = le_size e) (archived_logs (a_db a))"

lemma downloaded_is_catalogued:
  assumes "archiveOne os sq e a = Some (Inr Downloaded, a')"
  shows "catalogued e a'"
  using assms
proof (cases rule: archiveOne_cases)
  case early
  then have False
    unfolding dedup_def checkDedup_def downloadProbeAndCompare_def
    by (auto simp: ret_def elim!: bnd_SomeE split: option.splits if_splits)
  then show ?thesis ..
next
  case (attempt p a1)
  from attempt(6) show ?thesis
  proof (cases rule: attempt_cases)
    case (downloaded a2 a3 dn)
    from downloadLogData_effect(3) [OF downloaded(1) refl] obtain f where
      "map_of (fs_files (sm_fs (a_st a3))) p = Some f"
      using verifyFcSampleReread_effect [OF downloaded(2)] by auto
    from downloaded(3) this show ?thesis
      by (cases rule: persist_effect) (auto simp: catalogued_def list_ex_iff)
  qed simp
qed

lemma failed_leaves_archives:
  assumes "archiveOne os sq e a = Some (Inr r, a')" and "r = Failed \<or> r = Cancelled"
  shows "archived_logs (a_db a') = archived_logs (a_db a)"
    and "\<not> directly_in (sm_tmp_dir (a_st a)) q \<Longrightarrow>
      map_of (fs_files (sm_fs (a_st a'))) q = map_of (fs_files (sm_fs (a_st a))) q"
proof -
  have "archived_logs (a_db a') = archived_logs (a_db a) \<and>
    (\<not> directly_in (sm_tmp_dir (a_st a)) q \<longrightarrow>
      map_of (fs_files (sm_fs (a_st a'))) q = map_of (fs_files (sm_fs (a_st a))) q)"
    using assms(1)
  proof (cases rule: archiveOne_cases)
    case early
    from dedup_effect [OF early] show ?thesis by simp
  next
    case (attempt p a1)
    note at = attempt
    from attempt(6) show ?thesis
    proof (cases rule: attempt_cases)
      case failed
      with at show ?thesis by metis
    next
      case (downloaded a2 a3 dn)
      note d = downloadLogData_effect [OF downloaded(1)]
      from d(3) [OF refl] obtain f where f: "map_of (fs_files (sm_fs (a_st a3))) p = Some f"
        using verifyFcSampleReread_effect [OF downloaded(2)] by auto
      from downloaded(3) f show ?thesis
      proof (cases rule: persist_effect)
        case stored
        with assms(2) show ?thesis by simp
      next
        case failed
        with d(1) d(2) [of q] at verifyFcSampleReread_effect [OF downloaded(2)] show ?thesis
          by (cases "q = p") auto
      qed
    qed
  qed
  then show "archived_logs (a_db a') = archived_logs (a_db a)"
    "\<not> directly_in (sm_tmp_dir (a_st a)) q \<Longrightarrow>
      map_of (fs_files (sm_fs (a_st a'))) q = map_of (fs_files (sm_fs (a_st a))) q" by auto
qed

text \<open>A duplicate is recognised by a row of the catalog and a successful probe session.\<close>

lemma skipped_is_known:
  assumes "archiveOne os sq e a = Some (Inr SkippedDuplicate, a')"
  shows "a_st a' = a_st a" "archived_logs (a_db a') = archived_logs (a_db a)"
    "\<exists>row res f w1. row \<in> set (archived_logs (a_db a)) \<and> ar_fc_log_id row = le_id e \<and> ar_fc_log_size row = le_size e \<and>
      run (probe_params (settings (a_dl a)) e) (\<lambda>_ _. False) \<lparr>of_data = [], of_bad = False\<rparr>
        (clearDataChunks (a_dl a)) = Some (res, f, w1) \<and> res_success res \<and>
      res_probe_sha256 res = ar_probe_sha256 row \<and> p_probe_bytes (probe_params (settings (a_dl a)) e) = ar_probe_bytes row"
proof -
  from assms have d: "dedup sq e a = Some (Inr (Some SkippedDuplicate), a')"
  proof (cases rule: archiveOne_cases)
    case (attempt p a1)
    from attempt(6) have False
    proof (cases rule: attempt_cases)
      case (downloaded a2 a3 dn)
      from downloadLogData_effect(3) [OF downloaded(1) refl] obtain f where
        "map_of (fs_files (sm_fs (a_st a3))) p = Some f"
        using verifyFcSampleReread_effect [OF downloaded(2)] by auto
      from downloaded(3) this show ?thesis by (cases rule: persist_effect) auto
    qed auto
    then show ?thesis ..
  qed
  then show "a_st a' = a_st a" "archived_logs (a_db a') = archived_logs (a_db a)"
    using dedup_effect by blast+
  from d obtain c b where c: "findCandidate sq (le_id e) (le_size e) (a_db a) = (Inr (Some c), a_db b)"
    and b: "b = a\<lparr>a_db := snd (findCandidate sq (le_id e) (le_size e) (a_db a))\<rparr>"
    and p: "\<exists>b'. downloadProbeAndCompare e c b = Some (Inr True, b')"
    unfolding dedup_def checkDedup_def
    by (auto simp: db_call_eq ret_def elim!: bnd_SomeE split: option.splits if_splits)
      (metis prod.collapse)
  from cat.find_row [OF c] obtain row where row: "row \<in> set (archived_logs (a_db a))" "ar_fc_log_id row = le_id e"
    "ar_fc_log_size row = le_size e" "candidate_of row = c" by blast
  from p obtain res f w1 where
    "run (probe_params (settings (a_dl a)) e) (\<lambda>_ _. False) \<lparr>of_data = [], of_bad = False\<rparr>
        (clearDataChunks (a_dl a)) = Some (res, f, w1)" "res_success res"
    "res_probe_sha256 res = cand_probe_sha256 c" "p_probe_bytes (probe_params (settings (a_dl a)) e) = cand_probe_bytes c"
    unfolding downloadProbeAndCompare_def b
    by (auto simp: ret_def elim!: bnd_SomeE [of "session_run _ _"] session_run_effect split: if_splits)
  with row show "\<exists>row res f w1. row \<in> set (archived_logs (a_db a)) \<and> ar_fc_log_id row = le_id e \<and> ar_fc_log_size row = le_size e \<and>
      run (probe_params (settings (a_dl a)) e) (\<lambda>_ _. False) \<lparr>of_data = [], of_bad = False\<rparr>
        (clearDataChunks (a_dl a)) = Some (res, f, w1) \<and> res_success res \<and>
      res_probe_sha256 res = ar_probe_sha256 row \<and> p_probe_bytes (probe_params (settings (a_dl a)) e) = ar_probe_bytes row"
    by (intro exI [of _ row] exI [of _ res] exI [of _ f] exI [of _ w1]) (auto simp: candidate_of_def)
qed

section \<open>The sample re-read\<close>

text \<open>The chunks that are queued or to come.\<close>

definition all_chunks :: "downloader \<Rightarrow> LogDataChunk set" where
  "all_chunks w = set (data_chunks w) \<union> set (concat (map chunk_of (coming_msgs w)))"

lemma all_chunks_wait: "wait_tick w = Some w' \<Longrightarrow> all_chunks w' \<subseteq> all_chunks w"
  using src.wait_step [of w w'] by (auto simp: all_chunks_def dest!: subseq_set)

lemma take_chunk_Some:
  assumes "take_chunk i ofs cs = Some (d, cs')"
  shows "(\<exists>c\<in>set cs. lc_id c = i \<and> lc_offset c = ofs \<and> lc_data c = d) \<and> set cs' \<subseteq> set cs"
  using assms
proof (induction cs arbitrary: cs')
  case (Cons c cs)
  then show ?case by (auto split: if_splits)
qed simp

lemma wait_chunk_found:
  "wait_chunk i ofs dl w = Some (x, w') \<Longrightarrow> all_chunks w' \<subseteq> all_chunks w \<and>
     (\<forall>d. x = Some d \<longrightarrow> d \<noteq> [] \<and> (\<exists>c\<in>all_chunks w. lc_id c = i \<and> lc_offset c = ofs \<and> lc_data c = d))"
proof (induction i ofs dl w rule: wait_chunk.induct)
  case (1 i ofs dl w)
  note u = "1.prems" [unfolded wait_chunk.simps [of i ofs dl w]]
  show ?case
  proof (cases "int (clock w) < dl \<and> \<not> cancelled w")
    case False
    with u show ?thesis by (auto split: if_splits)
  next
    case True
    with u obtain w1 where w1: "wait_tick w = Some w1" by (auto split: option.splits)
    note sub = all_chunks_wait [OF w1]
    show ?thesis
    proof (cases "take_chunk i ofs (data_chunks w1)")
      case None
      with u True w1 have "wait_chunk i ofs dl w1 = Some (x, w')" by simp
      from "1.IH"(1) [OF _ _ w1 None this] True sub show ?thesis by blast
    next
      case (Some y)
      obtain d cs where y: "y = (d, cs)" by fastforce
      note tk = take_chunk_Some [OF Some [unfolded y]]
      have cs: "all_chunks (w1\<lparr>data_chunks := cs\<rparr>) \<subseteq> all_chunks w1"
        using tk by (auto simp: all_chunks_def coming_msgs_def)
      show ?thesis
      proof (cases "d = []")
        case empty: True
        with u True w1 Some y have "wait_chunk i ofs dl (w1\<lparr>data_chunks := cs\<rparr>) = Some (x, w')" by simp
        from "1.IH"(2) [OF _ _ w1 Some y [symmetric] empty this] True order_trans [OF cs sub] show ?thesis by blast
      next
        case False
        with u True w1 Some y have "x = Some d" "w' = w1\<lparr>data_chunks := cs\<rparr>" by auto
        moreover have "\<exists>c\<in>all_chunks w1. lc_id c = i \<and> lc_offset c = ofs \<and> lc_data c = d"
          using tk by (auto simp: all_chunks_def)
        ultimately show ?thesis using False sub cs by blast
      qed
    qed
  qed
qed

lemma all_chunks_requests [simp]:
  "all_chunks (snd (requestLogData i ofs n w)) = all_chunks w"
  by (simp add: all_chunks_def coming_msgs_def)

lemma reread_loop_confirms:
  "reread_loop e t d failed offs w = Some (True, w') \<Longrightarrow> ofs \<in> set offs \<Longrightarrow>
   \<exists>c\<in>all_chunks w. lc_id c = le_id e \<and> lc_offset c = ofs \<and> lc_data c = take 90 (drop (unat ofs) d)"
proof (induction e t d failed offs w arbitrary: w' rule: reread_loop.induct)
  case (2 e t d failed ofs' offs w)
  obtain ok w1 where r: "requestLogData (le_id e) ofs' kLogChunkSize w = (ok, w1)" by fastforce
  have w1: "all_chunks w1 = all_chunks w" using all_chunks_requests [of "le_id e" ofs' kLogChunkSize w] r by simp
  from "2.prems"(1) r obtain chunk w2 where c: "ok = True" "waitForLogData (le_id e) ofs' t w1 = Some (Some chunk, w2)"
    by (auto split: bool.splits option.splits)
  let ?got = "if failed then [] else take 90 (drop (unat ofs') d)"
  from "2.prems"(1) r c have got: "chunk = ?got" "reread_loop e t d (length ?got < 90) offs w2 = Some (True, w')"
    by (auto simp: Let_def split: if_splits)
  note found = wait_chunk_found [OF c(2) [unfolded waitForLogData_def]]
  show ?case
  proof (cases "ofs = ofs'")
    case True
    with found got(1) w1 show ?thesis by (auto split: if_splits)
  next
    case False
    with "2.prems"(2) have "ofs \<in> set offs" by simp
    from "2.IH" [OF r [symmetric] c(1,2) refl refl refl got(1) got(2) this] found w1 show ?thesis by blast
  qed
qed simp

section \<open>The cycle\<close>

lemma archive_loop_step:
  assumes "archive_loop os sq (e # logs) r f a = Some (Inr x, a')"
  obtains (cancelled) "x = (count_result Cancelled None_reason r, True)"
  | (stopped) b where "archiveOne os sq e a = Some (Inr Cancelled, b)"
      "x = (count_result Cancelled (last_failure_reason (a_dl b)) r, True)"
  | (continued) res b where "archiveOne os sq e a = Some (Inr res, b)" "res \<noteq> Cancelled"
      "archive_loop os sq logs (count_result res (last_failure_reason (a_dl b)) r) (f \<or> res = Failed) b = Some (Inr x, a')"
  using assms by (auto simp: ret_def dl_get_def Let_def elim!: bnd_SomeE split: if_splits)

lemma archive_loop_failed: "archive_loop os sq logs r True a = Some (Inr (r', f'), a') \<Longrightarrow> f'"
proof (induction logs arbitrary: r a)
  case (Cons e logs)
  from Cons.prems show ?case
    by (cases rule: archive_loop_step) (auto dest: Cons.IH)
qed (simp add: ret_def)

text \<open>
  The logs of a list archived one after the other, each from the state the one before it left, up to the
  state \<open>final\<close>: every call of \<open>archiveOne\<close> returns \<open>Downloaded\<close> or \<open>SkippedDuplicate\<close>, leaves the log
  catalogued, and no digest catalogued then is missing from the final catalog.
\<close>

fun archived_in_turn :: "os \<Rightarrow> sqlite \<Rightarrow> archiver \<Rightarrow> LogEntry list \<Rightarrow> archiver \<Rightarrow> bool" where
  "archived_in_turn os sq final [] a = (a = final)"
| "archived_in_turn os sq final (e # es) a =
     (case archiveOne os sq e a of
        Some (Inr res, b) \<Rightarrow>
          (res = Downloaded \<or> res = SkippedDuplicate) \<and> catalogued e b \<and> digests b \<subseteq> digests final \<and>
          archived_in_turn os sq final es b
      | _ \<Rightarrow> False)"

lemma archive_loop_archived:
  "archive_loop os sq logs r f a = Some (Inr (r', False), a') \<Longrightarrow>
   cyc_downloaded r' + cyc_skipped r' = cyc_downloaded r + cyc_skipped r + int (length logs) \<and>
   cyc_failed r' = cyc_failed r \<and> cyc_cancelled r' = cyc_cancelled r \<and> archived_in_turn os sq a' logs a"
proof (induction logs arbitrary: r f a)
  case Nil
  then show ?case by (simp add: ret_def)
next
  case (Cons e logs)
  from Cons.prems show ?case
  proof (cases rule: archive_loop_step)
    case (continued res b)
    have res: "res = Downloaded \<or> res = SkippedDuplicate"
      using continued archive_loop_failed by (cases res) fastforce+
    have "catalogued e b"
      using res continued(1) downloaded_is_catalogued [of os sq e a b] skipped_is_known(2,3) [of os sq e a b]
      by (auto simp: catalogued_def list_ex_iff)
    moreover have "digests b \<subseteq> digests a'"
      using keepsD [OF grows.keeps_archive_loop continued(3)] by (simp add: catalog_grows_def)
    ultimately show ?thesis using Cons.IH [OF continued(3)] continued(1) res by auto
  qed auto
qed

lemma archiveAll_archived:
  assumes "archiveAll os sq logs a = Some (Inr r, a')" and "all_archived r"
  shows "cyc_failed r = 0 \<and> cyc_cancelled r = 0 \<and> cyc_downloaded r + cyc_skipped r = int (length logs) \<and>
    (\<exists>b. archived_in_turn os sq b logs a \<and> a' = guard_exit b)"
proof -
  from assms obtain r0 b where b: "archive_loop os sq logs ArchiveCycleResult_new False a = Some (Inr (r0, False), b)"
    "r = r0\<lparr>all_archived := True\<rparr>" "a' = guard_exit b"
    by (auto simp: archiveAll_def split: option.splits sum.splits)
  with archive_loop_archived [OF b(1)] show ?thesis by (simp add: ArchiveCycleResult_new_def) blast
qed

lemma archive_loop_counts:
  "archive_loop os sq logs r f a = Some (Inr (r', f'), a') \<Longrightarrow>
   cyc_failed r \<le> cyc_failed r' \<and> cyc_cancelled r \<le> cyc_cancelled r' \<and>
   (f' \<longleftrightarrow> f \<or> cyc_failed r < cyc_failed r' \<or> cyc_cancelled r < cyc_cancelled r') \<and>
   cyc_downloaded r' + cyc_skipped r' + cyc_failed r' + cyc_cancelled r'
     \<le> cyc_downloaded r + cyc_skipped r + cyc_failed r + cyc_cancelled r + int (length logs)"
proof (induction logs arbitrary: r f a)
  case (Cons e logs)
  from Cons.prems show ?case
  proof (cases rule: archive_loop_step)
    case (continued res b)
    from Cons.IH [OF continued(3)] continued(2) show ?thesis by (cases res) auto
  qed auto
qed (simp add: ret_def)

section \<open>A log that is archived\<close>

text \<open>Storage and catalog calls that all succeed complete an archive attempt.\<close>

lemma persist_succeeds:
  assumes "map_of (fs_files (sm_fs (a_st a))) p = Some f" and "\<And>k. sq_ok sq k"
    and "\<And>q. os_mkdir_ok os q" "\<And>q. os_fsync_ok os q" "\<And>q r. os_rename_ok os q r"
  shows "\<exists>a'. persist os sq e p dn a = Some (Inr Downloaded, a')"
proof -
  obtain y s1 where fin: "finalizePartial os p (dn_start dn) (clock (a_dl a)) (a_st a) = (y, s1)" by fastforce
  from fin assms(1) obtain r where "y = Inr (Some r)"
  proof (cases rule: finalizePartial_cases)
    case kept
    have "fst (finalizePartial os p (dn_start dn) (clock (a_dl a)) (a_st a)) \<noteq> Inr None"
      "fst (finalizePartial os p (dn_start dn) (clock (a_dl a)) (a_st a)) \<noteq> Inl Filesystem_error"
      using fs_exists_file [OF assms(1)] assms(1,3-5)
        fs_exists_file [of "fs_rename p q (sm_fs (a_st a)\<lparr>fs_dirs := ds\<rparr>)" q f for q ds]
      by (auto simp: finalizePartial_def create_directories_def Let_def fs_rename_files)
    with kept(1) fin show ?thesis by auto
  qed blast
  with fin assms(2) show ?thesis
    by (simp add: persist_def bnd_def st_call_eq db_call_eq count_stat_def ret_def io_simps insertArchivedLog_def
        incrementStat_def getStat_def setStat_def sqlite_call_def Let_def)
qed

lemma downloadLogData_succeeds:
  assumes "os_open_ok os p" and "\<not> verify_after_download (settings (a_dl a))"
    and run: "\<And>w. settings w = settings (a_dl a) \<Longrightarrow> script w = script (a_dl a) \<Longrightarrow>
      cancel_requested w = cancel_requested (a_dl a) \<Longrightarrow>
      \<exists>res f w'. run (log_params (settings (a_dl a)) e) (os_write_ok os) \<lparr>of_data = [], of_bad = False\<rparr> w
        = Some (res, f, w') \<and> res_success res"
  shows "\<exists>dn a2 f. downloadLogData os e p a = Some (Inr (Some dn), a2) \<and>
    map_of (fs_files (sm_fs (a_st a2))) p = Some f \<and> settings (a_dl a2) = settings (a_dl a)"
proof -
  let ?w = "clearDataChunks (clearDataChunks (a_dl a\<lparr>last_failure_reason := None_reason\<rparr>))"
  have "settings ?w = settings (a_dl a)" "script ?w = script (a_dl a)" "cancel_requested ?w = cancel_requested (a_dl a)"
    by simp_all
  from run [OF this] obtain res f w' where r: "run (log_params (settings (a_dl a)) e) (os_write_ok os)
      \<lparr>of_data = [], of_bad = False\<rparr> ?w = Some (res, f, w')" "res_success res" by blast
  have "settings w' = settings (a_dl a)" using later_settings [OF later_run [OF r(1)]] by simp
  with r assms(1,2) show ?thesis
    by (simp add: downloadLogData_def session_run_def bnd_def [of "dl_call _"] dl_call_def ret_def)
qed

definition ex_cfg :: DownloadSettings where
  "ex_cfg = DownloadSettings_default\<lparr>verify_after_download := False, verify_dataflash_parse := False,
     verify_fc_reread := ''none''\<rparr>"

definition ex_archiver :: archiver where
  "ex_archiver = \<lparr>a_dl = LogDownloader_new ex_cfg [ex_tick [ex_second, ex_first]], a_db = Database_new,
     a_st = ex_storage 1 []\<rparr>"

definition ex_log_entry :: LogEntry where
  "ex_log_entry = \<lparr>le_id = 7, le_num_logs = 1, le_last_log_num = 7, le_time_utc = 0, le_size = 100\<rparr>"

lemma ex_log_params: "log_params ex_cfg ex_log_entry = ex_params"
  by (simp add: log_params_def ex_cfg_def ex_log_entry_def ex_params_def DownloadSettings_default_def)

lemma ex_session:
  assumes "settings w = ex_cfg" "script w = [ex_tick [ex_second, ex_first]]" "\<not> cancel_requested w"
  shows "\<exists>res f' w'. run ex_params disk f w = Some (res, f', w') \<and> res_success res"
  by (rule run_completes [where L = ex_log])
    (use assms ex_whole ex_all_sent in \<open>auto simp: ex_defs ex_cfg_def\<close>)

lemma ex_archived: "\<exists>a'. archiveOne ex_os ex_sqlite ex_log_entry ex_archiver = Some (Inr Downloaded, a')"
proof -
  obtain d where d: "dedup ex_sqlite ex_log_entry ex_archiver = Some (Inr None, ex_archiver\<lparr>a_db := d\<rparr>)"
    by (auto simp: dedup_def checkDedup_def bnd_def db_call_def findCandidate_def sqlite_call_def ret_def
        ex_archiver_def Database_new_def ex_sqlite_def matching_rows_def dl_get_def LogDownloader_new_def
        cancelled_def)
  obtain p s1 where bp: "beginPartialFile ex_os 1 (ex_storage 1 []) = (p, s1)" by fastforce
  define a1 where "a1 = ex_archiver\<lparr>a_db := d, a_st := s1,
    a_dl := updateProgressBegin 7 100 (LogDownloader_new ex_cfg [ex_tick [ex_second, ex_first]])\<rparr>"
  have a1: "settings (a_dl a1) = ex_cfg" "script (a_dl a1) = [ex_tick [ex_second, ex_first]]" "\<not> cancel_requested (a_dl a1)"
    by (simp_all add: a1_def updateProgressBegin_def LogDownloader_new_def)
  have "\<exists>dn a2 f. downloadLogData ex_os ex_log_entry p a1 = Some (Inr (Some dn), a2) \<and>
    map_of (fs_files (sm_fs (a_st a2))) p = Some f \<and> settings (a_dl a2) = settings (a_dl a1)"
    by (rule downloadLogData_succeeds) (use a1 ex_session in \<open>auto simp: ex_os_def ex_cfg_def ex_log_params [unfolded ex_cfg_def]\<close>)
  then obtain dn a2 f where dl: "downloadLogData ex_os ex_log_entry p a1 = Some (Inr (Some dn), a2)"
    "map_of (fs_files (sm_fs (a_st a2))) p = Some f" "settings (a_dl a2) = ex_cfg" using a1(1) by auto
  obtain a' where "persist ex_os ex_sqlite ex_log_entry p dn a2 = Some (Inr Downloaded, a')"
    using persist_succeeds [OF dl(2), of ex_sqlite ex_os] by (auto simp: ex_os_def ex_sqlite_def)
  moreover have "verifyDataFlashFile p a2 = Some (Inr True, a2)"
    "verifyFcSampleReread ex_log_entry p (dn_sha256 dn) a2 = Some (Inr True, a2)"
    using dl(3) by (simp_all add: verifyDataFlashFile_def verifyFcSampleReread_def ret_def ex_cfg_def parseFcRereadMode_def)
  ultimately have "archive_attempt ex_os ex_sqlite ex_log_entry p a1 = Some (Inr Downloaded, a')"
    using dl(1) by (simp add: archive_attempt_def bnd_def)
  with d bp show ?thesis
    by (auto simp: archiveOne_def bnd_def [of "dedup _ _"] bnd_def [of "st_call _"] st_call_eq a1_def
        ex_archiver_def LogDownloader_new_def ex_log_entry_def)
qed

section \<open>Properties\<close>

text \<open>
  (C3) A downloaded log is on disk and in the catalog: if every LOG_DATA message for the log carries
  the bytes of \<open>L\<close> at its offset, then when \<open>archiveOne\<close> returns \<open>Downloaded\<close> there is a row of the
  catalog with the id and the size of the log, not marked erased, that names a file below the log
  directory. The file contains exactly \<open>L\<close> when the disk takes every write within the log; a failed
  write is not noticed by the download, and the file is then a part of \<open>L\<close> (each byte that of \<open>L\<close> or
  zero).
\<close>

theorem archived_log_is_stored:
  assumes "archiveOne os sq e a = Some (Inr Downloaded, a')"
    and "\<forall>m\<in>set (coming_msgs (a_dl a)). honest_msg L (le_id e) m"
    and "le_size e = of_nat (length L)" "0 < length L" "length L \<le> 4294967040"
    and "0 \<le> probe_bytes (settings (a_dl a))"
  shows "\<exists>q f row. in_dir (sm_logs_dir (a_st a)) q \<and> map_of (fs_files (sm_fs (a_st a'))) q = Some f \<and>
    partial_copy L (f_data f) \<and> (disk_ok (os_write_ok os) (length L) \<longrightarrow> f_data f = L) \<and>
    row \<in> set (archived_logs (a_db a')) \<and> ar_fc_log_id row = le_id e \<and> ar_fc_log_size row = le_size e \<and>
    ar_filename row = path_string q \<and> \<not> ar_erased row"
  using assms by (rule downloaded_is_stored)

theorem archived_log_is_stored_witness:
  "\<exists>a' q f. archiveOne ex_os ex_sqlite ex_log_entry ex_archiver = Some (Inr Downloaded, a') \<and>
     map_of (fs_files (sm_fs (a_st a'))) q = Some f \<and> f_data f = ex_log"
proof -
  obtain a' where a: "archiveOne ex_os ex_sqlite ex_log_entry ex_archiver = Some (Inr Downloaded, a')"
    using ex_archived by blast
  have "\<forall>m\<in>set (coming_msgs (a_dl ex_archiver)). honest_msg ex_log (le_id ex_log_entry) m"
    by (auto simp: ex_archiver_def ex_defs ex_first_def ex_second_def ex_log_def ex_log_entry_def)
  with archived_log_is_stored [OF a, of ex_log] a show ?thesis
    by (auto simp: ex_log_entry_def ex_archiver_def LogDownloader_new_def ex_cfg_def DownloadSettings_default_def
        ex_os_def disk_ok_def)
qed

text \<open>
  (C18) An attempt that fails or is cancelled leaves the catalog and the archives as they were: the
  rows are unchanged, and so is every file that is not directly inside the directory of partial files.
\<close>

theorem failed_attempt_changes_nothing:
  assumes "archiveOne os sq e a = Some (Inr r, a')" and "r = Failed \<or> r = Cancelled"
  shows "archived_logs (a_db a') = archived_logs (a_db a) \<and>
    (\<forall>q. directly_in (sm_tmp_dir (a_st a)) q \<or>
       map_of (fs_files (sm_fs (a_st a'))) q = map_of (fs_files (sm_fs (a_st a))) q)"
  using failed_leaves_archives [OF assms] by blast

theorem failed_attempt_changes_nothing_witness:
  "\<exists>a'. archiveOne ex_os ex_sqlite ex_log_entry (ex_archiver\<lparr>a_dl := requestCancel (a_dl ex_archiver)\<rparr>)
      = Some (Inr Cancelled, a') \<and> archived_logs (a_db a') = []"
proof -
  let ?a = "ex_archiver\<lparr>a_dl := requestCancel (a_dl ex_archiver)\<rparr>"
  obtain a' where a: "archiveOne ex_os ex_sqlite ex_log_entry ?a = Some (Inr Cancelled, a')"
    by (simp add: archiveOne_def dedup_def checkDedup_def bnd_def db_call_def findCandidate_def sqlite_call_def
        ret_def ex_archiver_def Database_new_def ex_sqlite_def matching_rows_def dl_get_def cancelled_def requestCancel_def)
  with failed_attempt_changes_nothing [OF a] show ?thesis
    by (simp add: ex_archiver_def Database_new_def)
qed

lemma probe_count_small:
  assumes "0 < min pb (sint n)" and "min pb (sint n) < 2 ^ 31"
  shows "sint (probe_count pb n) = min pb (sint n)" "unat (probe_count pb n) = nat (min pb (sint n))"
proof -
  show "sint (probe_count pb n) = min pb (sint n)"
    using assms by (simp add: probe_count_def sint_sbintrunc' signed_take_bit_int_eq_self)
  have "uint (of_int (min pb (sint n)) :: u32) = min pb (sint n)"
    using assms by (simp add: uint_word_of_int)
  then show "unat (probe_count pb n) = nat (min pb (sint n))"
    by (simp only: probe_count_def flip: nat_uint_eq)
qed

text \<open>
  (C19) A skipped log is a known log: when \<open>archiveOne\<close> returns \<open>SkippedDuplicate\<close>, storage and rows are
  unchanged and the catalog has a row with the id and the size of the log whose probe size is that of
  this log and whose probe digest is the SHA-256 of the first probe bytes received, in arrival order,
  in a complete probe session.
\<close>

theorem skipped_log_matches_catalog:
  assumes "archiveOne os sq e a = Some (Inr SkippedDuplicate, a')"
    and "\<forall>c\<in>set (log_stream (le_id e) (a_dl a)). length (lc_data c) = unat (lc_count c) \<and> unat (lc_count c) < 256"
    and "0 < probe_bytes (settings (a_dl a))" "probe_bytes (settings (a_dl a)) < 2 ^ 31" "0 < sint (le_size e)"
  shows "a_st a' = a_st a \<and> archived_logs (a_db a') = archived_logs (a_db a) \<and>
    (\<exists>row cs. row \<in> set (archived_logs (a_db a)) \<and> ar_fc_log_id row = le_id e \<and> ar_fc_log_size row = le_size e \<and>
       ar_probe_bytes row = min (probe_bytes (settings (a_dl a))) (sint (le_size e)) \<and>
       subseq cs (log_stream (le_id e) (a_dl a)) \<and>
       ar_probe_sha256 row = fips_sha256_hex (take (nat (ar_probe_bytes row)) (pieces (probe_params (settings (a_dl a)) e) cs)))"
proof -
  let ?cfg = "settings (a_dl a)" let ?p = "probe_params ?cfg e" and ?m = "min (probe_bytes ?cfg) (sint (le_size e))"
  note k = skipped_is_known [OF assms(1)]
  from k(3) obtain row res f w1 where row: "row \<in> set (archived_logs (a_db a))" "ar_fc_log_id row = le_id e"
    "ar_fc_log_size row = le_size e" "res_probe_sha256 res = ar_probe_sha256 row" "p_probe_bytes ?p = ar_probe_bytes row"
    and r: "run ?p (\<lambda>_ _. False) \<lparr>of_data = [], of_bad = False\<rparr> (clearDataChunks (a_dl a)) = Some (res, f, w1)" "res_success res"
    by blast
  have m: "0 < ?m" "?m < 2 ^ 31" using assms(3-5) by auto
  note pc = probe_count_small [OF m]
  have p: "p_byte_offset ?p = 0" "p_byte_count ?p = probe_count (probe_bytes ?cfg) (le_size e)" "p_log_id ?p = le_id e"
    "p_probe_bytes ?p = ?m" by (simp_all add: probe_params_def Let_def pc)
  have st: "log_stream i (clearDataChunks w) = log_stream i w" for i w by (simp add: log_stream_def coming_msgs_def)
  have wf: "wf_params ?p" "p_byte_count ?p \<noteq> 0" using p pc m by (auto simp: wf_params_def)
  have "\<forall>c\<in>set (log_stream (p_log_id ?p) (clearDataChunks (a_dl a))). wf_chunk c"
    using assms(2) by (simp add: p(3) st wf_chunk_def)
  from run_replay [OF wf this r] obtain cs where cs: "subseq cs (log_stream (le_id e) (a_dl a))"
    "res_probe_sha256 res = fips_sha256_hex (take (unat (probe_n ?p)) (pieces ?p cs))"
    by (auto simp: replay_result_def p(3) st)
  have "probe_n ?p = probe_count (probe_bytes ?cfg) (le_size e)"
    unfolding p(2,4) by (subst probe_count_def) (simp only: pc(1) min.idem, simp only: probe_count_def)
  then have "unat (probe_n ?p) = nat ?m" by (simp only: pc(2))
  with k(1,2) row cs p(4) show ?thesis by (intro conjI exI [of _ row] exI [of _ cs]) auto
qed

text \<open>
  (C4) A cycle that reports all logs archived has dealt with every log: when \<open>archiveAll\<close> returns with
  \<^verbatim>\<open>all_archived\<close>, no log failed or was cancelled, the numbers of downloaded and skipped logs add up
  to the number of logs, and the run is the calls of \<open>archiveOne\<close> on the logs in order, each from the
  state the one before left, and the exit of the scope guard: every call returned \<open>Downloaded\<close> or
  \<open>SkippedDuplicate\<close>, left a row of the log's id and size in the catalog, and all digests catalogued
  at that time are in the catalog at the end.
\<close>

theorem all_archived_means_every_log:
  assumes "archiveAll os sq logs a = Some (Inr r, a')" and "all_archived r"
  shows "cyc_failed r = 0 \<and> cyc_cancelled r = 0 \<and> cyc_downloaded r + cyc_skipped r = int (length logs) \<and>
    (\<exists>b. archived_in_turn os sq b logs a \<and> a' = guard_exit b)"
  using assms by (rule archiveAll_archived)

theorem all_archived_means_every_log_witness:
  "\<exists>r a'. archiveAll ex_os ex_sqlite [ex_log_entry] ex_archiver = Some (Inr r, a') \<and> cyc_downloaded r + cyc_skipped r = 1"
proof -
  obtain b where b: "archiveOne ex_os ex_sqlite ex_log_entry ex_archiver = Some (Inr Downloaded, b)"
    using ex_archived by blast
  have "\<not> cancelled (a_dl ex_archiver)" by (simp add: ex_archiver_def cancelled_def LogDownloader_new_def)
  with b obtain r a' where r: "archiveAll ex_os ex_sqlite [ex_log_entry] ex_archiver = Some (Inr r, a')" "all_archived r"
    by (simp add: archiveAll_def bnd_def [of "archiveOne _ _ _"] ret_def ArchiveCycleResult_new_def)
  from all_archived_means_every_log [OF r] r(1) show ?thesis by auto
qed

text \<open>
  The counters of a cycle are consistent: when \<open>archiveAll\<close> returns, \<^verbatim>\<open>all_archived\<close> holds exactly
  when no log failed and none was cancelled, and at most one result is counted per log.
\<close>

theorem cycle_counts_consistent:
  assumes "archiveAll os sq logs a = Some (Inr r, a')"
  shows "(all_archived r \<longleftrightarrow> cyc_failed r = 0 \<and> cyc_cancelled r = 0) \<and>
    cyc_downloaded r + cyc_skipped r + cyc_failed r + cyc_cancelled r \<le> int (length logs)"
proof -
  from assms obtain r0 f b where "archive_loop os sq logs ArchiveCycleResult_new False a = Some (Inr (r0, f), b)"
    "r = r0\<lparr>all_archived := \<not> f\<rparr>"
    by (auto simp: archiveAll_def split: option.splits sum.splits)
  with archive_loop_counts [OF this(1)] show ?thesis by (auto simp: ArchiveCycleResult_new_def)
qed

theorem cycle_counts_consistent_witness:
  "\<exists>r a'. archiveAll ex_os ex_sqlite [ex_log_entry] (ex_archiver\<lparr>a_dl := requestCancel (a_dl ex_archiver)\<rparr>)
      = Some (Inr r, a') \<and> (all_archived r \<longleftrightarrow> cyc_failed r = 0 \<and> cyc_cancelled r = 0)"
proof -
  let ?a = "ex_archiver\<lparr>a_dl := requestCancel (a_dl ex_archiver)\<rparr>"
  obtain r a' where r: "archiveAll ex_os ex_sqlite [ex_log_entry] ?a = Some (Inr r, a')"
    by (simp add: archiveAll_def ret_def requestCancel_def cancelled_def)
  from cycle_counts_consistent [OF r] r show ?thesis by blast
qed

text \<open>
  (C17) Archiving never erases: whatever happens during \<open>archiveAll\<close>, also when it throws, the messages
  it sends to the flight controller do not include LOG_ERASE, and no digest leaves the catalog.
\<close>

theorem archiving_never_erases:
  assumes "archiveAll os sq logs a = Some (x, a')"
  shows "\<exists>qs. sent (a_dl a') = sent (a_dl a) @ qs \<and> LOG_ERASE \<notin> set qs \<and> digests a \<subseteq> digests a'"
  using keepsD [OF hist.keeps_archiveAll assms] keepsD [OF grows.keeps_archiveAll assms]
  by (auto simp: dl_history_def later_def catalog_grows_def)

theorem archiving_never_erases_witness:
  "\<exists>x a'. archiveAll ex_os ex_sqlite [] ex_archiver = Some (x, a') \<and> LOG_ERASE \<notin> set (sent (a_dl a'))"
proof -
  obtain x a' where r: "archiveAll ex_os ex_sqlite [] ex_archiver = Some (x, a')"
    by (simp add: archiveAll_def ret_def)
  from archiving_never_erases [OF r] r show ?thesis by (auto simp: ex_archiver_def LogDownloader_new_def)
qed

text \<open>
  The sample re-read compares the file with the flight controller: when \<open>verifyFcSampleReread\<close>
  returns true in sample mode, for every sampled offset the flight controller sent a chunk of the log
  at this offset whose data are the 90 bytes of the file there.
\<close>

theorem reread_confirms_samples:
  assumes "verifyFcSampleReread e p sha a = Some (Inr True, a')"
    and "parseFcRereadMode (verify_fc_reread (settings (a_dl a))) = Sample"
    and "map_of (fs_files (sm_fs (a_st a))) p = Some f"
    and "ofs \<in> set (buildFcSampleOffsets (le_size e) (verify_fc_reread_sample_count (settings (a_dl a)))
           (le_id e) (le_size e) sha)"
  shows "\<exists>c\<in>set (concat (map chunk_of (coming_msgs (a_dl a)))).
    lc_id c = le_id e \<and> lc_offset c = ofs \<and> lc_data c = take 90 (drop (unat ofs) (f_data f))"
proof -
  let ?w = "clearDataChunks (a_dl a)"
  have "all_chunks ?w = set (concat (map chunk_of (coming_msgs (a_dl a))))"
    by (simp add: all_chunks_def coming_msgs_def)
  moreover from assms obtain t offs w' where "reread_loop e t (f_data f) False offs ?w = Some (True, w')" "ofs \<in> set offs"
    by (auto simp: verifyFcSampleReread_def Let_def ret_def dl_call_def split: if_splits option.splits)
  ultimately show ?thesis using reread_loop_confirms by metis
qed

definition ex_reread :: archiver where
  "ex_reread = \<lparr>a_dl = LogDownloader_new (DownloadSettings_default\<lparr>verify_fc_reread_sample_count := 1\<rparr>) [ex_tick [ex_first]],
     a_db = Database_new,
     a_st = ex_storage 1 [([''/s'', ''tmp'', ''x''], \<lparr>f_data = ex_log, f_mtime = 0\<rparr>)]\<rparr>"

lemma ex_sample_offsets: "buildFcSampleOffsets 100 1 7 100 sha = [0]"
proof -
  have "anchors 100 = [0]"
    by (simp add: anchors_def addAnchor_def kLogChunkSize_def alignDownToChunk_def insort_insert_key_def)
  then show ?thesis
    by (simp add: buildFcSampleOffsets_def kLogChunkSize_def sample_loop.simps)
qed

lemma ex_reread_ok: "\<exists>a'. verifyFcSampleReread ex_log_entry [''/s'', ''tmp'', ''x''] sha ex_reread = Some (Inr True, a')"
proof -
  have "take 90 ex_log = ex_a" by (simp add: ex_log_def)
  moreover have "ex_a \<noteq> []" using ex_lengths(1) by force
  ultimately show ?thesis
    by (simp add: verifyFcSampleReread_def ex_reread_def parseFcRereadMode_def DownloadSettings_default_def
        LogDownloader_new_def ex_log_entry_def ex_sample_offsets dl_call_def requestLogData_def sendMessage_def
        waitForLogData_def wait_chunk.simps wait_tick_def clearDataChunks_def cancelled_def ex_tick_def
        apply_tick_def ex_first_def trimDataChunkQueue_def queue_cap_def ex_storage_def StorageManager_new_def Let_def)
qed

theorem reread_confirms_samples_witness:
  "\<exists>c\<in>set (concat (map chunk_of (coming_msgs (a_dl ex_reread)))). lc_offset c = 0 \<and> lc_data c = take 90 ex_log"
proof -
  obtain a' where v: "verifyFcSampleReread ex_log_entry [''/s'', ''tmp'', ''x''] ''ab'' ex_reread = Some (Inr True, a')"
    using ex_reread_ok by blast
  from reread_confirms_samples [OF v, of "\<lparr>f_data = ex_log, f_mtime = 0\<rparr>" 0] show ?thesis
    by (auto simp: ex_reread_def parseFcRereadMode_def DownloadSettings_default_def LogDownloader_new_def
        ex_storage_def StorageManager_new_def ex_log_entry_def ex_sample_offsets)
qed

definition ex_known :: "string \<Rightarrow> archiver" where
  "ex_known probe_sha = ex_archiver\<lparr>a_db := \<lparr>archived_logs = [ex_row\<lparr>ar_probe_sha256 := probe_sha\<rparr>], statistics = [],
     sqlite_calls = 0\<rparr>\<rparr>"

lemma ex_skipped: "\<exists>sha a'. archiveOne ex_os ex_sqlite ex_log_entry (ex_known sha) = Some (Inr SkippedDuplicate, a')"
proof -
  let ?w = "clearDataChunks (a_dl ex_archiver)" and ?p = "probe_params ex_cfg ex_log_entry"
  have p: "?p = \<lparr>p_log_id = 7, p_byte_offset = 0, p_byte_count = 100, p_probe_bytes = 100, p_write_file = False\<rparr>"
    by (simp add: probe_params_def probe_count_def ex_cfg_def ex_log_entry_def DownloadSettings_default_def)
  have "\<exists>res f' w'. run ?p (\<lambda>_ _. False) \<lparr>of_data = [], of_bad = False\<rparr> ?w = Some (res, f', w') \<and> res_success res"
    unfolding p by (rule run_completes [where L = ex_log])
      (use ex_whole ex_all_sent in \<open>auto simp: ex_defs ex_cfg_def ex_archiver_def\<close>)
  then obtain res f' w' where r: "run ?p (\<lambda>_ _. False) \<lparr>of_data = [], of_bad = False\<rparr> ?w = Some (res, f', w')"
    "res_success res" by blast
  then have "archiveOne ex_os ex_sqlite ex_log_entry (ex_known (res_probe_sha256 res)) =
      Some (Inr SkippedDuplicate, snd (the (archiveOne ex_os ex_sqlite ex_log_entry (ex_known (res_probe_sha256 res)))))"
    using p
    by (simp add: archiveOne_def dedup_def checkDedup_def bnd_def db_call_def findCandidate_def sqlite_call_def
        ex_known_def matching_rows_def ex_row_def ex_sqlite_def ex_log_entry_def ret_def candidate_of_def
        downloadProbeAndCompare_def dl_get_def session_run_def dl_call_def ex_archiver_def LogDownloader_new_def
        count_stat_def incrementStat_def getStat_def setStat_def Let_def)
  then show ?thesis by blast
qed

theorem skipped_log_matches_catalog_witness:
  "\<exists>sha a'. archiveOne ex_os ex_sqlite ex_log_entry (ex_known sha) = Some (Inr SkippedDuplicate, a') \<and>
     a_st a' = a_st (ex_known sha)"
proof -
  obtain sha a' where a: "archiveOne ex_os ex_sqlite ex_log_entry (ex_known sha) = Some (Inr SkippedDuplicate, a')"
    using ex_skipped by blast
  have "log_stream (le_id ex_log_entry) (a_dl (ex_known sha)) = [ex_chunk2, ex_chunk1]"
    by (simp add: ex_known_def ex_archiver_def ex_defs ex_log_entry_def)
  with skipped_log_matches_catalog [OF a] a show ?thesis
    by (auto simp: ex_chunk1_def ex_chunk2_def ex_known_def ex_archiver_def LogDownloader_new_def ex_cfg_def
        DownloadSettings_default_def ex_log_entry_def)
qed

end
