(* ===== verification/LogEnumeration.thy ===== *)
theory LogEnumeration
  imports LogDownloader DownloadLiveness
begin

text \<open>
  \<open>enumerateLogs\<close> returns exactly the logs the flight controller announced while it was listening,
  each id once and in ascending order, and it returns within a bounded number of waits.
\<close>

section \<open>What is received\<close>

fun entry_of :: "mav_in \<Rightarrow> LogEntry list" where
  "entry_of (LOG_ENTRY eid num_logs last_log_num time_utc sz) =
     [\<lparr>le_id = eid, le_num_logs = num_logs, le_last_log_num = last_log_num, le_time_utc = time_utc,
       le_size = sz\<rparr>]"
| "entry_of _ = []"

definition heard :: "downloader \<Rightarrow> downloader \<Rightarrow> mav_in list \<Rightarrow> bool" where
  "heard w w' ms \<longleftrightarrow> coming_msgs w = ms @ coming_msgs w' \<and>
     pending_entries w' = pending_entries w @ concat (map entry_of ms)"

lemma heard_trans: "heard w w1 ms \<Longrightarrow> heard w1 w2 ns \<Longrightarrow> heard w w2 (ms @ ns)"
  by (simp add: heard_def)

lemma onMessage_entries: "pending_entries (onMessage m w) = pending_entries w @ entry_of m"
  by (cases m) simp_all

lemma fold_onMessage_entries:
  "pending_entries (fold onMessage ms w) = pending_entries w @ concat (map entry_of ms)"
  by (induction ms arbitrary: w) (simp_all add: onMessage_entries)

lemma heard_wait: "wait_tick w = Some w' \<Longrightarrow> \<exists>ms. heard w w' ms"
proof -
  assume "wait_tick w = Some w'"
  then obtain t ts where t: "script w = t # ts" "w' = apply_tick t (w\<lparr>script := ts\<rparr>)"
    using wait_tick_SomeD by blast
  have "heard w w' (tk_msgs t)"
    using t by (simp add: heard_def coming_msgs_def apply_tick_def requestCancel_def Let_def
        fold_onMessage_entries)
  then show ?thesis by blast
qed

lemma heard_refl: "heard w w []"
  by (simp add: heard_def)

lemma heard_same:
  "heard w (requestLogList w) []" "heard w (requestLogEnd w) []"
  by (simp_all add: heard_def coming_msgs_def requestLogList_def requestLogEnd_def)

lemma heard_sleep_loop: "sleep_loop n w = Some w' \<Longrightarrow> \<exists>ms. heard w w' ms"
proof (induction n w rule: sleep_loop.induct)
  case (1 n w)
  show ?case
  proof (cases "n = 0 \<or> cancelled w")
    case True
    with "1.prems" show ?thesis using heard_refl by (auto simp: sleep_loop.simps [of n w])
  next
    case False
    with "1.prems" obtain w1 where w1: "wait_tick w = Some w1" "sleep_loop (n - min 100 n) w1 = Some w'"
      by (auto simp: sleep_loop.simps [of n w] split: option.splits)
    from heard_wait [OF w1(1)] "1.IH" [OF False w1] show ?thesis using heard_trans by blast
  qed
qed

lemma heard_enum_wait: "enum_wait d s l w = Some w' \<Longrightarrow> \<exists>ms. heard w w' ms"
proof (induction d s l w rule: enum_wait.induct)
  case (1 d s l w)
  note u = "1.prems" [unfolded enum_wait.simps [of d s l w]]
  show ?case
  proof (cases "clock w < d \<and> \<not> cancelled w")
    case False
    with u show ?thesis using heard_refl by (auto split: if_splits)
  next
    case True
    with u obtain w1 where w1: "wait_tick w = Some w1" by (auto split: option.splits)
    let ?n = "length (pending_entries w1)"
    obtain ms where ms: "heard w w1 ms" using heard_wait [OF w1] by blast
    consider (new) "s < ?n" | (settled) "\<not> s < ?n" "1000 \<le> clock w1 - l"
      | (wait) "\<not> s < ?n" "\<not> 1000 \<le> clock w1 - l" by blast
    then show ?thesis
    proof cases
      case new
      with "1.IH"(1) [OF _ _ w1 refl new] u True w1 ms show ?thesis
        by (auto simp: Let_def intro: heard_trans)
    next
      case settled
      with u True w1 ms show ?thesis by (auto simp: Let_def)
    next
      case wait
      with "1.IH"(2) [OF _ _ w1 refl wait] u True w1 ms show ?thesis
        by (auto simp: Let_def intro: heard_trans)
    qed
  qed
qed

lemma heard_enum_attempts: "enum_attempts k n w = Some w' \<Longrightarrow> \<exists>ms. heard w w' ms"
proof (induction k n w rule: enum_attempts.induct)
  case (1 k n w)
  note u = "1.prems" [unfolded enum_attempts.simps [of k n w]]
  let ?w = "requestLogList w"
  show ?case
  proof (cases "n < k")
    case True
    with u show ?thesis using heard_refl by auto
  next
    case False
    with u obtain w1 where w1: "enum_wait (clock ?w + 15000) (length (pending_entries ?w)) (clock ?w) ?w = Some w1"
      by (auto simp: Let_def split: option.splits)
    obtain ms where ms: "heard w w1 ms"
      using heard_trans [OF heard_same(1)] heard_enum_wait [OF w1] by auto
    show ?thesis
    proof (cases "pending_entries w1 \<noteq> [] \<or> cancelled w1 \<or> k = n")
      case True
      with u False w1 ms show ?thesis by (auto simp: Let_def)
    next
      case again: False
      with u False w1 obtain w2 where w2: "interruptibleSleep (enumerate_retry_delay_sec (settings w1)) w1 = Some w2"
        by (auto simp: Let_def split: option.splits)
      obtain ns where ns: "heard w w2 (ms @ ns)"
        using heard_sleep_loop w2 heard_trans [OF ms] unfolding interruptibleSleep_def by blast
      show ?thesis
      proof (cases "cancelled w2")
        case True
        with u False w1 w2 again ns show ?thesis by (auto simp: Let_def)
      next
        case c: False
        with u False w1 w2 again have "enum_attempts (k + 1) n w2 = Some w'" by (auto simp: Let_def)
        from "1.IH" [OF False refl w1 again w2 c this] ns show ?thesis using heard_trans by blast
      qed
    qed
  qed
qed

section \<open>The returned list\<close>

lemma set_unique_ids: "set (unique_ids xs) \<subseteq> set xs"
  by (induction xs rule: unique_ids.induct) auto

lemma ids_unique_ids: "le_id ` set (unique_ids xs) = le_id ` set xs"
  by (induction xs rule: unique_ids.induct) auto

lemma unique_ids_sorted:
  "sorted (map le_id xs) \<Longrightarrow> sorted_wrt (<) (map le_id (unique_ids xs))"
proof (induction xs rule: unique_ids.induct)
  case (1 x y xs)
  show ?case
  proof (cases "le_id x = le_id y")
    case True
    with 1 show ?thesis by auto
  next
    case False
    then have "le_id x < le_id z" if "z \<in> set (y # xs)" for z
      using "1.prems" that by auto
    then have "le_id x < i" if "i \<in> set (map le_id (unique_ids (y # xs)))" for i
      using that ids_unique_ids [of "y # xs"] by auto
    with 1 False show ?thesis by auto
  qed
qed simp_all

section \<open>Termination\<close>

lemma used_same:
  "used 0 w (requestLogList w)" "used 0 w (requestLogEnd w)"
  by (simp_all add: used_def requestLogList_def requestLogEnd_def)

lemma enum_wait_used:
  "d - clock w \<le> length (script w) \<Longrightarrow> ticks_ok w \<Longrightarrow>
   \<exists>w'. enum_wait d s l w = Some w' \<and> used (d - clock w) w w'"
proof (induction d s l w rule: enum_wait.induct)
  case (1 d s l w)
  show ?case
  proof (cases "clock w < d \<and> \<not> cancelled w")
    case False
    then show ?thesis by (auto simp: enum_wait.simps [of d s l w] used_def)
  next
    case True
    then have "0 < length (script w)" using "1.prems"(1) by linarith
    then obtain w1 where w1: "wait_tick w = Some w1" "used 1 w w1" "clock w < clock w1"
      using wait_tick_used [of w] "1.prems"(2) by blast
    let ?n = "length (pending_entries w1)"
    have pre: "d - clock w1 \<le> length (script w1)" "ticks_ok w1"
      using w1 "1.prems" used_ticks [OF w1(2)] by (auto simp: used_def)
    have step: "used (d - clock w) w w'" if "used (d - clock w1) w1 w'" for w'
    proof -
      have "1 + (d - clock w1) \<le> d - clock w" using True w1(3) by linarith
      with used_trans [OF w1(2) that] show ?thesis by (rule used_mono)
    qed
    have "1 \<le> d - clock w" using True by linarith
    with w1(2) have now: "used (d - clock w) w w1" by (rule used_mono)
    consider (new) "s < ?n" | (settled) "\<not> s < ?n" "1000 \<le> clock w1 - l"
      | (wait) "\<not> s < ?n" "\<not> 1000 \<le> clock w1 - l" by blast
    then show ?thesis
    proof cases
      case new
      with "1.IH"(1) [OF _ _ w1(1) refl new pre] True w1(1) step show ?thesis
        by (auto simp: Let_def enum_wait.simps [of d s l w])
    next
      case settled
      with True w1(1) now show ?thesis by (auto simp: Let_def enum_wait.simps [of d s l w])
    next
      case wait
      with "1.IH"(2) [OF _ _ w1(1) refl wait pre] True w1(1) step show ?thesis
        by (auto simp: Let_def enum_wait.simps [of d s l w])
    qed
  qed
qed

definition enum_waits :: "DownloadSettings \<Rightarrow> nat" where
  "enum_waits cfg = 15000 + nat (enumerate_retry_delay_sec cfg * 1000)"

lemma enum_attempts_used:
  "(n + 1 - k) * enum_waits (settings w) \<le> length (script w) \<Longrightarrow> ticks_ok w \<Longrightarrow>
   \<exists>w'. enum_attempts k n w = Some w'"
proof (induction k n w rule: enum_attempts.induct)
  case (1 k n w)
  let ?w = "requestLogList w" and ?m = "enum_waits (settings w)"
  show ?case
  proof (cases "n < k")
    case True
    then show ?thesis by (simp add: enum_attempts.simps [of k n w])
  next
    case False
    then have split: "(n + 1 - k) * ?m = ?m + (n + 1 - (k + 1)) * ?m"
      by (metis Suc_diff_le Suc_eq_plus1 diff_Suc_Suc mult_Suc not_less)
    then have m: "15000 \<le> length (script ?w)" "ticks_ok ?w"
      using "1.prems" used_ticks [OF used_same(1)] by (auto simp: enum_waits_def requestLogList_def)
    then obtain w1 where w1: "enum_wait (clock ?w + 15000) (length (pending_entries ?w)) (clock ?w) ?w = Some w1"
      "used 15000 ?w w1"
      using enum_wait_used [of "clock ?w + 15000" ?w] by fastforce
    have u1: "used 15000 w w1" using used_trans [OF used_same(1) w1(2)] by simp
    show ?thesis
    proof (cases "pending_entries w1 \<noteq> [] \<or> cancelled w1 \<or> k = n")
      case True
      with False w1(1) show ?thesis by (simp add: enum_attempts.simps [of k n w] Let_def)
    next
      case again: False
      let ?s = "nat (enumerate_retry_delay_sec (settings w1) * 1000)"
      have "?s \<le> length (script w1)" "ticks_ok w1"
        using "1.prems" split u1 used_ticks [OF u1] by (auto simp: used_def enum_waits_def)
      then obtain w2 where w2: "sleep_loop ?s w1 = Some w2" "used ?s w1 w2"
        using sleep_loop_used by blast
      then have is2: "interruptibleSleep (enumerate_retry_delay_sec (settings w1)) w1 = Some w2"
        by (simp add: interruptibleSleep_def)
      have u2: "used ?m w w2" "settings w2 = settings w"
        using used_trans [OF u1 w2(2)] u1 w2(2) by (auto simp: used_def enum_waits_def)
      then have "(n + 1 - (k + 1)) * enum_waits (settings w2) \<le> length (script w2)" "ticks_ok w2"
        using "1.prems" split used_ticks [OF u2(1)] by (auto simp: used_def)
      then have "\<not> cancelled w2 \<Longrightarrow> \<exists>w'. enum_attempts (k + 1) n w2 = Some w'"
        using "1.IH" [OF False refl w1(1) again is2] by blast
      with False w1(1) again is2 show ?thesis
        by (auto simp: enum_attempts.simps [of k n w] Let_def)
    qed
  qed
qed

section \<open>Properties\<close>

text \<open>
  (C30) Enumeration returns the announced logs: the list \<open>enumerateLogs\<close> returns is in strictly
  ascending order of id, every entry in it is one of the LOG_ENTRY messages that arrived while it
  was listening (\<open>ms\<close>), and the id of each of those messages is in the list.
\<close>

theorem enumeration_exact:
  assumes "enumerateLogs w = Some (logs, w')"
  shows "\<exists>ms. coming_msgs w = ms @ coming_msgs w' \<and> sorted_wrt (<) (map le_id logs) \<and>
    set logs \<subseteq> set (concat (map entry_of ms)) \<and> le_id ` set logs = le_id ` set (concat (map entry_of ms))"
proof -
  from assms obtain w1 where w1:
    "enum_attempts 1 (nat (max 1 (enumerate_attempts (settings w)))) (w\<lparr>pending_entries := []\<rparr>) = Some w1"
    "logs = unique_ids (sort_key le_id (pending_entries w1))" "w' = requestLogEnd w1"
    by (auto simp: enumerateLogs_def bind_eq_Some_conv)
  from heard_enum_attempts [OF w1(1)] obtain ms where "heard (w\<lparr>pending_entries := []\<rparr>) w1 ms" by blast
  then have ms: "coming_msgs w = ms @ coming_msgs w'" "pending_entries w1 = concat (map entry_of ms)"
    using heard_same(2) [of w1] w1(3) by (auto simp: heard_def coming_msgs_def)
  have "sorted_wrt (<) (map le_id logs)" unfolding w1(2) by (rule unique_ids_sorted) simp
  with ms show ?thesis
    using set_unique_ids [of "sort_key le_id (pending_entries w1)"]
      ids_unique_ids [of "sort_key le_id (pending_entries w1)"]
    unfolding w1(2) by (intro exI [of _ ms]) auto
qed

definition ex_entry :: "u16 \<Rightarrow> mav_in" where
  "ex_entry i = LOG_ENTRY i 2 2 0 500"

definition ex_enum_script :: "tick list" where
  "ex_enum_script =
     \<lparr>tk_msgs = [ex_entry 2, ex_entry 1, ex_entry 2], tk_cancel = False, tk_dt = 200, tk_connected = True,
      tk_fresh = True, tk_send_ok = True\<rparr> #
     [\<lparr>tk_msgs = [], tk_cancel = False, tk_dt = 1000, tk_connected = True, tk_fresh = True,
       tk_send_ok = True\<rparr>]"

lemma ex_enum:
  "map_option (map le_id \<circ> fst) (enumerateLogs (LogDownloader_new DownloadSettings_default ex_enum_script))
     = Some [1, 2]"
  by (simp add: enumerateLogs_def enum_attempts.simps enum_wait.simps LogDownloader_new_def
      DownloadSettings_default_def ex_enum_script_def wait_tick_def apply_tick_def ex_entry_def Let_def
      requestLogList_def sendMessage_def cancelled_def insort_key_def sort_key_def word_le_nat_alt)

theorem enumeration_exact_witness:
  "\<exists>logs w'. enumerateLogs (LogDownloader_new DownloadSettings_default ex_enum_script) = Some (logs, w') \<and>
     sorted_wrt (<) (map le_id logs)"
proof -
  obtain logs w' where "enumerateLogs (LogDownloader_new DownloadSettings_default ex_enum_script) = Some (logs, w')"
    using ex_enum by (cases "enumerateLogs (LogDownloader_new DownloadSettings_default ex_enum_script)") auto
  with enumeration_exact [OF this] show ?thesis by blast
qed

text \<open>
  (C31) Enumeration always returns: if the clock advances at each wait, \<open>enumerateLogs\<close> returns within
  \<^verbatim>\<open>max(1, enumerate_attempts)\<close> times 15000 waits and the waits of one retry delay, whatever arrives.
\<close>

theorem enumeration_returns:
  assumes "\<forall>t\<in>set (script w). 0 < tk_dt t"
    and "nat (max 1 (enumerate_attempts (settings w))) * (15000 + nat (enumerate_retry_delay_sec (settings w) * 1000))
           \<le> length (script w)"
  shows "\<exists>logs w'. enumerateLogs w = Some (logs, w')"
proof -
  have "\<exists>w'. enum_attempts 1 (nat (max 1 (enumerate_attempts (settings w)))) (w\<lparr>pending_entries := []\<rparr>) = Some w'"
    using assms by (intro enum_attempts_used) (auto simp: enum_waits_def ticks_ok_def)
  then show ?thesis by (auto simp: enumerateLogs_def)
qed

theorem enumeration_returns_witness:
  "\<exists>logs w'. enumerateLogs (LogDownloader_new (DownloadSettings_default\<lparr>enumerate_attempts := 0,
      enumerate_retry_delay_sec := 0\<rparr>)
      (replicate 15000 \<lparr>tk_msgs = [], tk_cancel = False, tk_dt = 10, tk_connected = True, tk_fresh = True,
        tk_send_ok = True\<rparr>)) = Some (logs, w')"
  by (rule enumeration_returns) (simp_all add: LogDownloader_new_def DownloadSettings_default_def del: replicate.simps)

end
