(* ===== verification/FlightMonitor.thy ===== *)
theory FlightMonitor
  imports Prelude
begin

text \<open>
  \<^verbatim>\<open>FlightMonitor\<close>: vehicle identity, link state and the arm/disarm events derived from heartbeats. An
  operation returns the events it emits, in order, with the new state; the handler of the service
  does not read the monitor, so that running it after the operation is the same as during it. For
  one vehicle the events are proved to be the edges of the armed flag.
\<close>

section \<open>Model\<close>

datatype Event = VehicleDetected | VehicleArmed | VehicleDisarmed | LinkLost | LinkRestored

record FlightMonitor =
  fm_armed :: bool
  fm_vehicle_detected :: bool
  fm_link_lost :: bool
  fm_sysid :: u8
  fm_compid :: u8
  fm_vehicle_type :: u8
  fm_autopilot :: u8
  fm_first_heartbeat :: bool

definition FlightMonitor_new :: FlightMonitor where
  "FlightMonitor_new = \<lparr>fm_armed = False, fm_vehicle_detected = False, fm_link_lost = False, fm_sysid = 0,
     fm_compid = 0, fm_vehicle_type = 0, fm_autopilot = 0, fm_first_heartbeat = True\<rparr>"

record heartbeat =
  hb_sysid :: u8
  hb_compid :: u8
  hb_type :: u8
  hb_autopilot :: u8
  hb_armed :: bool

definition identity_changed :: "heartbeat \<Rightarrow> FlightMonitor \<Rightarrow> bool" where
  "identity_changed h m \<longleftrightarrow> fm_vehicle_detected m \<and>
     (fm_sysid m \<noteq> hb_sysid h \<or> fm_compid m \<noteq> hb_compid h \<or> fm_vehicle_type m \<noteq> hb_type h \<or>
      fm_autopilot m \<noteq> hb_autopilot h)"

definition detect_vehicle :: "heartbeat \<Rightarrow> FlightMonitor \<Rightarrow> Event list \<times> FlightMonitor" where
  "detect_vehicle h m =
     (if \<not> fm_vehicle_detected m \<or> identity_changed h m
      then ([VehicleDetected],
            m\<lparr>fm_sysid := hb_sysid h, fm_compid := hb_compid h, fm_vehicle_type := hb_type h,
              fm_autopilot := hb_autopilot h, fm_vehicle_detected := True, fm_first_heartbeat := True\<rparr>)
      else ([], m))"

definition restore_link :: "FlightMonitor \<Rightarrow> Event list \<times> FlightMonitor" where
  "restore_link m = (if fm_link_lost m then ([LinkRestored], m\<lparr>fm_link_lost := False\<rparr>) else ([], m))"

definition arm_edge :: "bool \<Rightarrow> FlightMonitor \<Rightarrow> Event list \<times> FlightMonitor" where
  "arm_edge armed m =
     (if fm_first_heartbeat m then ([], m\<lparr>fm_armed := armed, fm_first_heartbeat := False\<rparr>)
      else if armed \<and> \<not> fm_armed m then ([VehicleArmed], m\<lparr>fm_armed := True\<rparr>)
      else if \<not> armed \<and> fm_armed m then ([VehicleDisarmed], m\<lparr>fm_armed := False\<rparr>)
      else ([], m))"

definition onHeartbeat :: "heartbeat \<Rightarrow> FlightMonitor \<Rightarrow> Event list \<times> FlightMonitor" where
  "onHeartbeat h m =
     (case detect_vehicle h m of (e1, m) \<Rightarrow>
      case restore_link m of (e2, m) \<Rightarrow>
      case arm_edge (hb_armed h) m of (e3, m) \<Rightarrow> (e1 @ e2 @ e3, m))"

definition onLinkTimeout :: "FlightMonitor \<Rightarrow> Event list \<times> FlightMonitor" where
  "onLinkTimeout m = (if \<not> fm_link_lost m then ([LinkLost], m\<lparr>fm_link_lost := True\<rparr>) else ([], m))"

definition onLinkRestored :: "FlightMonitor \<Rightarrow> Event list \<times> FlightMonitor" where
  "onLinkRestored m = (if fm_link_lost m then ([LinkRestored], m\<lparr>fm_link_lost := False\<rparr>) else ([], m))"

section \<open>Sequences of inputs\<close>

datatype fm_input = Hb heartbeat | Link_timeout | Link_restored

fun fm_step :: "fm_input \<Rightarrow> FlightMonitor \<Rightarrow> Event list \<times> FlightMonitor" where
  "fm_step (Hb h) m = onHeartbeat h m"
| "fm_step Link_timeout m = onLinkTimeout m"
| "fm_step Link_restored m = onLinkRestored m"

fun fm_run :: "fm_input list \<Rightarrow> FlightMonitor \<Rightarrow> Event list \<times> FlightMonitor" where
  "fm_run [] m = ([], m)"
| "fm_run (x # xs) m =
     (case fm_step x m of (e, m') \<Rightarrow> case fm_run xs m' of (es, m'') \<Rightarrow> (e @ es, m''))"

text \<open>The arm and disarm events, the armed flags of the heartbeats, and the edges of a list of flags.\<close>

definition arm_events :: "Event list \<Rightarrow> Event list" where
  "arm_events es = filter (\<lambda>e. e = VehicleArmed \<or> e = VehicleDisarmed) es"

fun armed_flags :: "fm_input list \<Rightarrow> bool list" where
  "armed_flags (Hb h # xs) = hb_armed h # armed_flags xs"
| "armed_flags (_ # xs) = armed_flags xs"
| "armed_flags [] = []"

fun edges :: "bool \<Rightarrow> bool list \<Rightarrow> Event list" where
  "edges b [] = []"
| "edges b (c # cs) = (if b = c then [] else [if c then VehicleArmed else VehicleDisarmed]) @ edges c cs"

definition same_vehicle :: "heartbeat \<Rightarrow> fm_input \<Rightarrow> bool" where
  "same_vehicle v x = (case x of
      Hb h \<Rightarrow> hb_sysid h = hb_sysid v \<and> hb_compid h = hb_compid v \<and> hb_type h = hb_type v \<and>
        hb_autopilot h = hb_autopilot v
    | _ \<Rightarrow> True)"

text \<open>The monitor follows vehicle \<open>v\<close>, whose last heartbeat had the armed flag \<open>b\<close>.\<close>

definition tracks :: "heartbeat \<Rightarrow> bool \<Rightarrow> FlightMonitor \<Rightarrow> bool" where
  "tracks v b m \<longleftrightarrow> fm_vehicle_detected m \<and> \<not> fm_first_heartbeat m \<and> fm_armed m = b \<and>
     fm_sysid m = hb_sysid v \<and> fm_compid m = hb_compid v \<and> fm_vehicle_type m = hb_type v \<and>
     fm_autopilot m = hb_autopilot v"

lemmas fm_defs = onHeartbeat_def detect_vehicle_def restore_link_def arm_edge_def onLinkTimeout_def
  onLinkRestored_def identity_changed_def

lemma arm_events_simps [simp]:
  "arm_events [] = []" "arm_events (es @ fs) = arm_events es @ arm_events fs"
  "arm_events (e # es) = (if e = VehicleArmed \<or> e = VehicleDisarmed then e # arm_events es else arm_events es)"
  by (simp_all add: arm_events_def)

lemma fm_step_tracks:
  assumes "tracks v b m" and "same_vehicle v x" and "fm_step x m = (es, m')"
  shows "tracks v (last (b # armed_flags [x])) m' \<and> arm_events es = edges b (armed_flags [x])"
  using assms
  by (cases x) (auto simp: tracks_def same_vehicle_def fm_defs split: if_splits)

lemma edges_append: "edges b (xs @ ys) = edges b xs @ edges (last (b # xs)) ys"
  by (induction xs arbitrary: b) auto

lemma armed_flags_Cons: "armed_flags (x # xs) = armed_flags [x] @ armed_flags xs"
  by (cases x) simp_all

lemma fm_run_tracks:
  "tracks v b m \<Longrightarrow> list_all (same_vehicle v) xs \<Longrightarrow> fm_run xs m = (es, m') \<Longrightarrow>
   tracks v (last (b # armed_flags xs)) m' \<and> arm_events es = edges b (armed_flags xs)"
proof (induction xs arbitrary: b m es m')
  case (Cons x xs)
  obtain e1 m1 where s: "fm_step x m = (e1, m1)" by fastforce
  obtain e2 m2 where r: "fm_run xs m1 = (e2, m2)" by fastforce
  note st = fm_step_tracks [OF Cons.prems(1) _ s]
  have "same_vehicle v x" "list_all (same_vehicle v) xs" using Cons.prems(2) by simp_all
  with st Cons.IH [OF _ _ r, of "last (b # armed_flags [x])"] Cons.prems(3) s r show ?case
    by (subst (1 2) armed_flags_Cons) (auto simp: edges_append last_append)
qed simp

section \<open>Properties\<close>

text \<open>
  (C36) For one vehicle the arm and disarm events are the edges of the armed flag: after the first
  heartbeat of a vehicle, for any sequence of its heartbeats and of link losses and restorations, the
  arm and disarm events emitted are exactly the changes of the armed flag, in order, and \<^verbatim>\<open>isArmed\<close>
  is the flag of the last heartbeat.
\<close>

theorem arm_events_are_edges:
  assumes "list_all (same_vehicle v) xs"
  shows "arm_events (fst (fm_run (Hb v # xs) FlightMonitor_new)) = edges (hb_armed v) (armed_flags xs) \<and>
         fm_armed (snd (fm_run (Hb v # xs) FlightMonitor_new)) = last (hb_armed v # armed_flags xs)"
proof -
  obtain e m where v: "onHeartbeat v FlightMonitor_new = (e, m)" by fastforce
  have t: "tracks v (hb_armed v) m" "arm_events e = []"
    using v by (auto simp: fm_defs FlightMonitor_new_def tracks_def)
  obtain es m' where r: "fm_run xs m = (es, m')" by fastforce
  from fm_run_tracks [OF t(1) assms r] t(2) v r show ?thesis by (simp add: tracks_def)
qed

definition ex_vehicle :: "u8 \<Rightarrow> bool \<Rightarrow> heartbeat" where
  "ex_vehicle i b = \<lparr>hb_sysid = i, hb_compid = 1, hb_type = 2, hb_autopilot = 3, hb_armed = b\<rparr>"

theorem arm_events_are_edges_witness:
  "arm_events (fst (fm_run [Hb (ex_vehicle 1 False), Hb (ex_vehicle 1 True), Link_timeout, Hb (ex_vehicle 1 False)]
     FlightMonitor_new)) = [VehicleArmed, VehicleDisarmed]"
  using arm_events_are_edges [of "ex_vehicle 1 False"
      "[Hb (ex_vehicle 1 True), Link_timeout, Hb (ex_vehicle 1 False)]"]
  by (simp add: same_vehicle_def ex_vehicle_def)

text \<open>
  Alternating heartbeats of two vehicles hide every arm and disarm event: when each heartbeat
  comes from another system id than the one before, the monitor takes each for a new vehicle and
  emits neither arm nor disarm events, whatever the armed flags are.
\<close>

theorem alternating_vehicles_hide_arming:
  "arm_events (fst (fm_run (concat (map (\<lambda>(b, c). [Hb (ex_vehicle 1 b), Hb (ex_vehicle 2 c)]) bs)) FlightMonitor_new)) = []"
proof -
  have step: "arm_events (fst (fm_step (Hb (ex_vehicle i b)) m)) = [] \<and>
      fm_sysid (snd (fm_step (Hb (ex_vehicle i b)) m)) = i \<and> fm_vehicle_detected (snd (fm_step (Hb (ex_vehicle i b)) m))"
    if "fm_vehicle_detected m \<Longrightarrow> fm_sysid m \<noteq> i" for i b m
    using that by (auto simp: fm_defs ex_vehicle_def)
  have all: "arm_events (fst (fm_run (concat (map (\<lambda>(b, c). [Hb (ex_vehicle 1 b), Hb (ex_vehicle 2 c)]) bs)) m)) = []"
    if "fm_vehicle_detected m \<Longrightarrow> fm_sysid m = 2" for m
    using that
  proof (induction bs arbitrary: m)
    case (Cons x bs)
    obtain b c where x: "x = (b, c)" by fastforce
    obtain e1 m1 where s1: "fm_step (Hb (ex_vehicle 1 b)) m = (e1, m1)" by fastforce
    obtain e2 m2 where s2: "fm_step (Hb (ex_vehicle 2 c)) m1 = (e2, m2)" by fastforce
    have m1: "arm_events e1 = []" "fm_sysid m1 = 1" "fm_vehicle_detected m1"
      using step [of m 1 b] Cons.prems s1 by auto
    have m2: "arm_events e2 = []" "fm_sysid m2 = 2"
      using step [of m1 2 c] m1 s2 by auto
    from Cons.IH [of m2] m1 m2 x s1 s2 show ?case by (auto split: prod.splits)
  qed simp
  show ?thesis by (rule all) (simp add: FlightMonitor_new_def)
qed

end
