(* ===== verification/CompanionCommandQueue.thy ===== *)
theory CompanionCommandQueue
  imports Prelude
begin

text \<open>
  \<^verbatim>\<open>CompanionCommandQueue.hpp\<close>: the commands of the companion API, the kinds and outcomes of manual jobs,
  and the queue between the UDP thread and the main loop. Each operation holds the mutex, so that it
  is one atomic step on the list of queued commands.
\<close>

datatype CompanionCommand =
    StartArchiveCommand
  | CancelArchiveCommand
  | RefreshLogsCommand
  | DownloadLogsCommand "u16 list" bool
  | EraseAllLogsCommand

datatype CompanionJobKind = Archive_job | Refresh_job | Download_job | EraseAll_job

datatype JobStartResult = Accepted | AlreadyRunning | Armed | NotConnected | NotFound

record JobOutcome =
  job_result :: JobStartResult
  job_queued :: int
  job_not_found :: "u16 list"

definition JobOutcome_new :: JobOutcome where
  "JobOutcome_new = \<lparr>job_result = Accepted, job_queued = 0, job_not_found = []\<rparr>"

type_synonym command_queue = "CompanionCommand list"

definition queue_push :: "CompanionCommand \<Rightarrow> command_queue \<Rightarrow> command_queue" where
  "queue_push cmd q = q @ [cmd]"

definition queue_pop :: "command_queue \<Rightarrow> (CompanionCommand \<times> command_queue) option" where
  "queue_pop q = (case q of [] \<Rightarrow> None | c # cs \<Rightarrow> Some (c, cs))"

definition queue_empty :: "command_queue \<Rightarrow> bool" where
  "queue_empty q \<longleftrightarrow> q = []"

section \<open>The contract of the queue\<close>

locale fifo =
  fixes content :: "'q \<Rightarrow> 'c list"
    and push :: "'c \<Rightarrow> 'q \<Rightarrow> 'q"
    and pop :: "'q \<Rightarrow> ('c \<times> 'q) option"
    and is_empty :: "'q \<Rightarrow> bool"
  assumes content_push: "content (push c q) = content q @ [c]"
    and pop_None: "pop q = None \<longleftrightarrow> content q = []"
    and pop_Some: "pop q = Some (c, q') \<Longrightarrow> content q = c # content q'"
    and empty_iff: "is_empty q \<longleftrightarrow> content q = []"
begin

text \<open>The commands a drain loop sees, at most \<open>n\<close> of them.\<close>

primrec popped :: "nat \<Rightarrow> 'q \<Rightarrow> 'c list" where
  "popped 0 q = []"
| "popped (Suc n) q = (case pop q of None \<Rightarrow> [] | Some (c, q') \<Rightarrow> c # popped n q')"

lemma popped_content: "length (content q) \<le> n \<Longrightarrow> popped n q = content q"
proof (induction n arbitrary: q)
  case (Suc n)
  show ?case
  proof (cases "pop q")
    case None
    with pop_None [of q] show ?thesis by simp
  next
    case (Some x)
    obtain c q' where x: "x = (c, q')" by fastforce
    with Suc Some pop_Some [of q c q'] show ?thesis by simp
  qed
qed simp

lemma popped_pushes: "content q = [] \<Longrightarrow> popped (length cs) (fold push cs q) = cs"
proof -
  have "content (fold push cs q) = content q @ cs" for q
    by (induction cs arbitrary: q) (simp_all add: content_push)
  then show "content q = [] \<Longrightarrow> popped (length cs) (fold push cs q) = cs"
    by (simp add: popped_content)
qed

end

interpretation cq: fifo "\<lambda>q. q" queue_push queue_pop queue_empty
  by unfold_locales (auto simp: queue_push_def queue_pop_def queue_empty_def split: list.splits)

end
