(* ===== verification/DroneLogService.thy ===== *)
theory DroneLogService
  imports ArchiveCorrectness LogEnumeration FlightMonitor CompanionCommandQueue
begin

text \<open>
  \<^verbatim>\<open>DroneLogService\<close>: the state machine of the service, driven by the main loop, by flight events from
  the RX thread and by jobs requested on the companion thread. The state of the \<^verbatim>\<open>MavlinkClient\<close> is the
  link part of the downloader record. A handler of another thread is one atomic event; while the main
  loop is blocked inside \<open>processState\<close>, the messages of the log protocol and cancellations come from
  the script of the downloader, and the other effects of the events that arrive meanwhile are applied
  where the blocking call has returned and the next state has not been set. Log lines are left out.
\<close>

section \<open>State\<close>

datatype State =
    Boot | Connect | WaitHeartbeat | WaitArm | WaitDisarm | Delay | Enumerate | Archive | EraseAll
  | Cleanup | ConnectionLost | ManualRefresh | ManualDownload | ManualErase

record service =
  sv_config :: Config
  sv_monitor :: FlightMonitor
  sv_arch :: archiver
  sv_state :: State
  sv_running :: bool
  sv_ended :: bool
  sv_archive_requested :: bool
  sv_disarm_time :: nat
  sv_last_cycle :: ArchiveCycleResult
  sv_failures :: int
  sv_logs :: "LogEntry list"
  sv_logs_stale :: bool
  sv_commands :: command_queue
  sv_manual_ids :: "u16 list"
  sv_manual_all :: bool

abbreviation sv_dl :: "service \<Rightarrow> downloader" where
  "sv_dl s \<equiv> a_dl (sv_arch s)"

definition upd_dl :: "(downloader \<Rightarrow> downloader) \<Rightarrow> service \<Rightarrow> service" where
  "upd_dl f s = s\<lparr>sv_arch := (sv_arch s)\<lparr>a_dl := f (sv_dl s)\<rparr>\<rparr>"

text \<open>A new service: the script, the files and the catalog are what it finds.\<close>

definition DroneLogService_new :: "Config \<Rightarrow> tick list \<Rightarrow> filesystem \<Rightarrow> database \<Rightarrow> service" where
  "DroneLogService_new cfg ts fs db =
     \<lparr>sv_config = cfg, sv_monitor = FlightMonitor_new,
      sv_arch = \<lparr>a_dl = (LogDownloader_new (download cfg) ts)\<lparr>connected := False, rx_joinable := False\<rparr>, a_db = db,
        a_st = StorageManager_new (storage cfg) fs\<rparr>,
      sv_state = Boot, sv_running = True, sv_ended = False, sv_archive_requested = False, sv_disarm_time = 0,
      sv_last_cycle = ArchiveCycleResult_new, sv_failures = 0, sv_logs = [], sv_logs_stale = True,
      sv_commands = [], sv_manual_ids = [], sv_manual_all = False\<rparr>"

fun stateToString :: "State \<Rightarrow> string" where
  "stateToString Boot = ''boot''"
| "stateToString Connect = ''connect''"
| "stateToString WaitHeartbeat = ''wait_heartbeat''"
| "stateToString WaitArm = ''wait_arm''"
| "stateToString WaitDisarm = ''wait_disarm''"
| "stateToString Delay = ''delay''"
| "stateToString Enumerate = ''enumerate''"
| "stateToString Archive = ''archive''"
| "stateToString EraseAll = ''erase_all''"
| "stateToString Cleanup = ''cleanup''"
| "stateToString ConnectionLost = ''connection_lost''"
| "stateToString ManualRefresh = ''manual_refresh''"
| "stateToString ManualDownload = ''manual_download''"
| "stateToString ManualErase = ''manual_erase''"

section \<open>The link\<close>

text \<open>
  \<^verbatim>\<open>connect\<close> and \<^verbatim>\<open>disconnect\<close> of the client; whether the transport connects is an argument. The thread
  of \<^verbatim>\<open>rxLoop\<close> is the source of the ticks and events; \<open>rx_joinable\<close> is \<^verbatim>\<open>rx_thread_.joinable()\<close>, true from a
  connect that succeeded to the join of the thread.
\<close>

definition client_disconnect :: "downloader \<Rightarrow> downloader" where
  "client_disconnect w = w\<lparr>connected := False, rx_joinable := False\<rparr>"

definition client_connect :: "bool \<Rightarrow> downloader \<Rightarrow> bool \<times> downloader" where
  "client_connect ok w =
     (let w = client_disconnect w in if \<not> ok then (False, w) else (True, w\<lparr>connected := True, rx_joinable := True\<rparr>))"

function wait_heartbeat :: "nat \<Rightarrow> downloader \<Rightarrow> (bool \<times> downloader) option" where
  "wait_heartbeat deadline w =
     (if clock w < deadline then
        if heartbeatFresh w then Some (True, w)
        else case wait_tick w of None \<Rightarrow> None | Some w' \<Rightarrow> wait_heartbeat deadline w'
      else Some (False, w))"
  by pat_completeness auto
termination by (relation "measure (\<lambda>(d, w). length (script w))") (auto dest: wait_tick_script)

declare wait_heartbeat.simps [simp del]

definition waitForHeartbeat :: "nat \<Rightarrow> downloader \<Rightarrow> (bool \<times> downloader) option" where
  "waitForHeartbeat timeout w = wait_heartbeat (clock w + timeout) w"

definition reconnect :: "bool \<Rightarrow> downloader \<Rightarrow> (bool \<times> downloader) option" where
  "reconnect ok w =
     (case client_connect ok w of (c, w) \<Rightarrow> if \<not> c then Some (False, w) else waitForHeartbeat 10000 w)"

text \<open>The reconnect at the end of \<open>evaluateArchiveOutcome\<close>, with its pause of 300 ms.\<close>

definition relink :: "bool \<Rightarrow> downloader \<Rightarrow> (bool \<times> downloader) option" where
  "relink ok w =
     (case wait_tick (client_disconnect w) of
        None \<Rightarrow> None
      | Some w \<Rightarrow>
          (case client_connect ok w of (c, w) \<Rightarrow>
             if c then map_option (\<lambda>(_, w). (True, w)) (waitForHeartbeat 5000 w) else Some (False, w)))"

definition sleep_for :: "downloader \<Rightarrow> (unit \<times> downloader) option" where
  "sleep_for w = map_option (\<lambda>w. ((), w)) (wait_tick w)"

section \<open>Flight events\<close>

definition setState :: "State \<Rightarrow> service \<Rightarrow> service" where
  "setState st s = s\<lparr>sv_state := st\<rparr>"

definition isArchiveBusy :: "State \<Rightarrow> bool" where
  "isArchiveBusy st \<longleftrightarrow>
     st \<in> {Delay, Enumerate, Archive, EraseAll, ManualRefresh, ManualDownload, ManualErase}"

definition returnToIdleState :: "service \<Rightarrow> service" where
  "returnToIdleState s = setState (if fm_armed (sv_monitor s) then WaitDisarm else WaitArm) s"

text \<open>
  \<^verbatim>\<open>client_.disconnect()\<close> joins the RX thread if it is joinable. Called on that thread itself, \<^verbatim>\<open>join\<close> throws,
  and an exception that leaves a thread ends the process: the flag \<open>sv_ended\<close>. The flags of the client
  are cleared before.
\<close>

definition disconnect_on :: "bool \<Rightarrow> service \<Rightarrow> service" where
  "disconnect_on rx_thread s =
     (if rx_thread \<and> rx_joinable (sv_dl s)
      then (upd_dl (\<lambda>w. w\<lparr>connected := False\<rparr>) s)\<lparr>sv_ended := True\<rparr>
      else upd_dl client_disconnect s)"

definition handleConnectionLost :: "bool \<Rightarrow> service \<Rightarrow> service" where
  "handleConnectionLost rx_thread s =
     (if isArchiveBusy (sv_state s) then s
      else if sv_state s = ConnectionLost \<or> sv_state s = Boot then s
      else let s = disconnect_on rx_thread s in if sv_ended s then s else setState ConnectionLost s)"

text \<open>Flight events are raised on the RX thread.\<close>

fun onFlightEvent :: "Event \<Rightarrow> service \<Rightarrow> service" where
  "onFlightEvent VehicleArmed s =
     (if sv_state s = WaitArm then setState WaitDisarm s
      else if isArchiveBusy (sv_state s) then upd_dl requestCancel s
      else s)"
| "onFlightEvent VehicleDisarmed s =
     (let s = s\<lparr>sv_disarm_time := clock (sv_dl s), sv_archive_requested := True\<rparr> in
      if sv_state s = WaitDisarm then setState Delay s
      else if isArchiveBusy (sv_state s) then upd_dl requestCancel s
      else s)"
| "onFlightEvent LinkLost s = handleConnectionLost True s"
| "onFlightEvent LinkRestored s = (if sv_state s = ConnectionLost then setState Connect s else s)"
| "onFlightEvent VehicleDetected s = s"

text \<open>An operation of the monitor together with the handler of its events.\<close>

definition monitor_call :: "(FlightMonitor \<Rightarrow> Event list \<times> FlightMonitor) \<Rightarrow> service \<Rightarrow> service" where
  "monitor_call f s =
     (case f (sv_monitor s) of (es, m) \<Rightarrow> fold onFlightEvent es (s\<lparr>sv_monitor := m\<rparr>))"

text \<open>
  A received message: one that is not a heartbeat, or a heartbeat with the system and component it
  comes from and its decoded type, autopilot and base mode. Bit 7 of the base mode is the flag
  \<^verbatim>\<open>MAV_MODE_FLAG_SAFETY_ARMED\<close>; the message id of a heartbeat is 0.
\<close>

datatype mav_rx = Rx_log mav_in | Rx_heartbeat u8 u8 u8 u8 u8

definition mav_in_of :: "mav_rx \<Rightarrow> mav_in" where
  "mav_in_of m = (case m of Rx_log x \<Rightarrow> x | Rx_heartbeat sysid compid typ autopilot base_mode \<Rightarrow> OTHER 0)"

definition heartbeat_of :: "u8 \<Rightarrow> u8 \<Rightarrow> u8 \<Rightarrow> u8 \<Rightarrow> u8 \<Rightarrow> heartbeat" where
  "heartbeat_of sysid compid typ autopilot base_mode =
     \<lparr>hb_sysid = sysid, hb_compid = compid, hb_type = typ, hb_autopilot = autopilot,
      hb_armed = (base_mode AND 128 \<noteq> 0)\<rparr>"

definition onMavlinkMessage :: "mav_rx \<Rightarrow> service \<Rightarrow> service" where
  "onMavlinkMessage m s =
     (let s = upd_dl (onMessage (mav_in_of m)) s;
          s = (case m of
                 Rx_heartbeat sysid compid typ autopilot base_mode \<Rightarrow>
                   monitor_call (onHeartbeat (heartbeat_of sysid compid typ autopilot base_mode)) s
               | Rx_log _ \<Rightarrow> s)
      in if \<not> heartbeatFresh (sv_dl s) then monitor_call onLinkTimeout s else s)"

text \<open>
  \<^verbatim>\<open>handleParsedMessage\<close> stamps the arrival and calls the handler, which reads the clock \<open>age\<close>
  milliseconds after the stamp.
\<close>

definition handleParsedMessage :: "mav_rx \<Rightarrow> nat \<Rightarrow> service \<Rightarrow> service" where
  "handleParsedMessage m age s =
     onMavlinkMessage m
       (upd_dl (\<lambda>w. w\<lparr>clock := clock w + age,
          heartbeatFresh := int age \<le> heartbeat_timeout_sec (transport (sv_config s)) * 1000\<rparr>) s)"

section \<open>Companion jobs\<close>

definition cacheEnumerationResult :: "LogEntry list \<Rightarrow> service \<Rightarrow> service" where
  "cacheEnumerationResult logs s = s\<lparr>sv_logs := logs, sv_logs_stale := False\<rparr>"

definition push_command :: "CompanionCommand \<Rightarrow> service \<Rightarrow> service" where
  "push_command c s = s\<lparr>sv_commands := queue_push c (sv_commands s)\<rparr>"

definition known_id :: "service \<Rightarrow> u16 \<Rightarrow> bool" where
  "known_id s i \<longleftrightarrow> list_ex (\<lambda>e. le_id e = i) (sv_logs s)"

definition request_erase :: "service \<Rightarrow> JobOutcome \<times> service" where
  "request_erase s =
     (if \<not> connected (sv_dl s) then (JobOutcome_new\<lparr>job_result := NotConnected\<rparr>, s)
      else
        let s = (if isArchiveBusy (sv_state s) then upd_dl requestCancel s else s)
        in (JobOutcome_new\<lparr>job_result := Accepted\<rparr>, push_command EraseAllLogsCommand s))"

definition request_download :: "u16 list \<Rightarrow> bool \<Rightarrow> service \<Rightarrow> JobOutcome \<times> service" where
  "request_download ids all s =
     (let valid = (if all then [] else filter (known_id s) ids);
          missing = (if all then [] else filter (\<lambda>i. \<not> known_id s i) ids);
          out = JobOutcome_new\<lparr>job_queued := (if all then int (length (sv_logs s)) else int (length valid)),
                  job_not_found := missing\<rparr>
      in if \<not> all \<and> valid = [] then (out\<lparr>job_result := NotFound\<rparr>, s)
         else (out\<lparr>job_result := Accepted\<rparr>, push_command (DownloadLogsCommand valid all) s))"

definition requestCompanionJob ::
  "CompanionJobKind \<Rightarrow> u16 list \<Rightarrow> bool \<Rightarrow> service \<Rightarrow> JobOutcome \<times> service" where
  "requestCompanionJob kind ids all s =
     (if kind = EraseAll_job then request_erase s
      else if isArchiveBusy (sv_state s) then (JobOutcome_new\<lparr>job_result := AlreadyRunning\<rparr>, s)
      else if fm_armed (sv_monitor s) then (JobOutcome_new\<lparr>job_result := Armed\<rparr>, s)
      else if \<not> connected (sv_dl s) then (JobOutcome_new\<lparr>job_result := NotConnected\<rparr>, s)
      else case kind of
        Archive_job \<Rightarrow> (JobOutcome_new\<lparr>job_result := Accepted\<rparr>, push_command StartArchiveCommand s)
      | Refresh_job \<Rightarrow> (JobOutcome_new\<lparr>job_result := Accepted\<rparr>, push_command RefreshLogsCommand s)
      | Download_job \<Rightarrow> request_download ids all s
      | EraseAll_job \<Rightarrow> (JobOutcome_new\<lparr>job_result := Accepted\<rparr>, s))"

fun process_command :: "CompanionCommand \<Rightarrow> service \<Rightarrow> service" where
  "process_command StartArchiveCommand s =
     (if isArchiveBusy (sv_state s) then s
      else if fm_armed (sv_monitor s) then s
      else if \<not> connected (sv_dl s) then s
      else setState Enumerate (upd_dl resetCancel (s\<lparr>sv_archive_requested := False\<rparr>)))"
| "process_command CancelArchiveCommand s = upd_dl requestCancel s"
| "process_command RefreshLogsCommand s = setState ManualRefresh (upd_dl resetCancel s)"
| "process_command (DownloadLogsCommand ids all) s =
     setState ManualDownload (upd_dl resetCancel (s\<lparr>sv_manual_ids := ids, sv_manual_all := all\<rparr>))"
| "process_command EraseAllLogsCommand s = setState ManualErase (upd_dl resetCancel s)"

lemma process_command_queue [simp]: "sv_commands (process_command c s) = sv_commands s"
  by (cases c) (simp_all add: setState_def upd_dl_def)

function drain_commands :: "service \<Rightarrow> service" where
  "drain_commands s =
     (case queue_pop (sv_commands s) of
        None \<Rightarrow> s
      | Some (c, q) \<Rightarrow> drain_commands (process_command c (s\<lparr>sv_commands := q\<rparr>)))"
  by pat_completeness auto
termination
  by (relation "measure (\<lambda>s. length (sv_commands s))") (auto simp: queue_pop_def split: list.splits)

declare drain_commands.simps [simp del]

definition drainCompanionCommands :: "service \<Rightarrow> service" where
  "drainCompanionCommands s = (if queue_empty (sv_commands s) then s else drain_commands s)"

section \<open>Events of the other threads\<close>

datatype service_event =
    Ev_message mav_rx nat
  | Ev_request CompanionJobKind "u16 list" bool
  | Ev_cancel
  | Ev_signal
  | Ev_tick tick
  | Ev_reads nat

definition signalHandler :: "service \<Rightarrow> service" where
  "signalHandler s = s\<lparr>sv_running := False\<rparr>"

definition count_calls :: "nat \<Rightarrow> database \<Rightarrow> database" where
  "count_calls k d = d\<lparr>sqlite_calls := sqlite_calls d + k\<rparr>"

fun handle_event :: "service_event \<Rightarrow> service \<Rightarrow> service" where
  "handle_event (Ev_message m age) s = handleParsedMessage m age s"
| "handle_event (Ev_request kind ids all) s = snd (requestCompanionJob kind ids all s)"
| "handle_event Ev_cancel s = push_command CancelArchiveCommand (upd_dl requestCancel s)"
| "handle_event Ev_signal s = signalHandler s"
| "handle_event (Ev_tick t) s = upd_dl (apply_tick t) s"
| "handle_event (Ev_reads k) s = s\<lparr>sv_arch := (sv_arch s)\<lparr>a_db := count_calls k (a_db (sv_arch s))\<rparr>\<rparr>"

text \<open>
  The request \<^verbatim>\<open>archive.cancel\<close> sets the flag at once and queues a command as well. The queries of the
  companion API only read the catalog; what remains of them is the number of SQLite calls. An event
  of a process that has ended does not happen.
\<close>

definition handle_events :: "service_event list \<Rightarrow> service \<Rightarrow> service" where
  "handle_events es s = fold (\<lambda>e s. if sv_ended s then s else handle_event e s) es s"

section \<open>The main loop\<close>

type_synonym 'a sio = "service \<Rightarrow> ((exn + 'a) \<times> service) option"

definition sbnd :: "'a sio \<Rightarrow> ('a \<Rightarrow> 'b sio) \<Rightarrow> 'b sio" where
  "sbnd m f s =
     (case m s of
        None \<Rightarrow> None
      | Some (Inl e, s') \<Rightarrow> Some (Inl e, s')
      | Some (Inr x, s') \<Rightarrow> f x s')"

definition sdo :: "(service \<Rightarrow> service) \<Rightarrow> unit sio" where
  "sdo f s = Some (Inr (), f s)"

definition sget :: "(service \<Rightarrow> 'a) \<Rightarrow> 'a sio" where
  "sget f s = Some (Inr (f s), s)"

definition lift_io :: "'a io \<Rightarrow> 'a sio" where
  "lift_io m s = (case m (sv_arch s) of None \<Rightarrow> None | Some (x, a) \<Rightarrow> Some (x, s\<lparr>sv_arch := a\<rparr>))"

text \<open>What the outside world does during one pass of the main loop.\<close>

record pass_input =
  in_between :: "service_event list"
  in_connect_ok :: bool
  in_during :: "service_event list"

definition evaluateArchiveOutcome :: "bool \<Rightarrow> ArchiveCycleResult \<Rightarrow> unit sio" where
  "evaluateArchiveOutcome ok result s =
     (if 0 < cyc_cancelled result \<and> cyc_failed result = 0 then Some (Inr (), s)
      else if all_archived result \<and> cyc_failed result = 0 then Some (Inr (), s\<lparr>sv_failures := 0\<rparr>)
      else
        let s = s\<lparr>sv_failures := sv_failures s + 1\<rparr>;
            d = download (sv_config s);
            do_reconnect =
              (if reconnect_on_transport_failure d \<and> isTransportFailure (cyc_last_failure_reason result) then True
               else if 0 < reconnect_after_consecutive_failures d \<and>
                 reconnect_after_consecutive_failures d \<le> sv_failures s then True
               else False)
        in if \<not> do_reconnect then Some (Inr (), s)
           else sbnd (lift_io (dl_call (relink ok)))
                  (\<lambda>c. sdo (\<lambda>s. if c then s\<lparr>sv_failures := 0\<rparr> else s)) s)"

definition logStatistics :: "sqlite \<Rightarrow> unit sio" where
  "logStatistics sq =
     sbnd (lift_io (db_call (getStat sq ''flights_archived''))) (\<lambda>_.
     sbnd (lift_io (db_call (getStat sq ''bytes_downloaded''))) (\<lambda>_.
     sbnd (lift_io (db_call (getStat sq ''archive_failures''))) (\<lambda>_.
     sbnd (lift_io (db_call (getStat sq ''archive_cancellations''))) (\<lambda>_.
     sbnd (lift_io (db_call (getStat sq ''retries''))) (\<lambda>_.
     sbnd (lift_io (db_call (getStat sq ''last_archive_time''))) (\<lambda>_. sdo (\<lambda>s. s)))))))"

definition process_connect :: "pass_input \<Rightarrow> unit sio" where
  "process_connect inp =
     sbnd (lift_io (dl_call (reconnect (in_connect_ok inp)))) (\<lambda>c.
       if c then
         sbnd (sdo (\<lambda>s. s\<lparr>sv_logs_stale := True\<rparr>)) (\<lambda>_.
         sbnd (sdo (handle_events (in_during inp))) (\<lambda>_. sdo (setState WaitHeartbeat)))
       else sbnd (lift_io (dl_call sleep_for)) (\<lambda>_. sdo (handle_events (in_during inp))))"

definition process_waitHeartbeat :: "service \<Rightarrow> service" where
  "process_waitHeartbeat s =
     (if fm_vehicle_detected (sv_monitor s) then setState WaitArm s
     else if \<not> heartbeatFresh (sv_dl s) then handleConnectionLost False s
     else s)"

definition process_wait :: "service \<Rightarrow> service" where
  "process_wait s = (if \<not> heartbeatFresh (sv_dl s) then handleConnectionLost False s else s)"

definition process_delay :: "service \<Rightarrow> service" where
  "process_delay s =
     (if delay_after_disarm_sec (download (sv_config s)) * 1000 \<le> int (clock (sv_dl s)) - int (sv_disarm_time s)
     then setState Enumerate (upd_dl resetCancel (s\<lparr>sv_archive_requested := False\<rparr>))
     else s)"

definition process_archive :: "os \<Rightarrow> sqlite \<Rightarrow> pass_input \<Rightarrow> unit sio" where
  "process_archive os sq inp =
     sbnd (lift_io (dl_call enumerateLogs)) (\<lambda>logs.
     sbnd (sdo (cacheEnumerationResult logs)) (\<lambda>_.
     sbnd (lift_io (archiveAll os sq logs)) (\<lambda>result.
     sbnd (sdo (\<lambda>s. s\<lparr>sv_last_cycle := result\<rparr>)) (\<lambda>_.
     sbnd (sdo (handle_events (in_during inp))) (\<lambda>_.
     sbnd (sget (\<lambda>s. erase_after_success (download (sv_config s)))) (\<lambda>erase.
       let cancelled = (0 < cyc_cancelled result)
       in sdo (setState (if \<not> cancelled \<and> all_archived result \<and> erase \<and> logs \<noteq> []
                         then EraseAll else Cleanup))))))))"

definition process_eraseAll :: "sqlite \<Rightarrow> pass_input \<Rightarrow> unit sio" where
  "process_eraseAll sq inp =
     sbnd (sget (\<lambda>s. cancelled (sv_dl s))) (\<lambda>c.
       if c then sbnd (sdo (handle_events (in_during inp))) (\<lambda>_. sdo (setState Cleanup))
       else sbnd (lift_io (eraseFlightControllerLogs sq)) (\<lambda>_.
            sbnd (sdo (handle_events (in_during inp))) (\<lambda>_. sdo (setState Cleanup))))"

definition process_manualRefresh :: "pass_input \<Rightarrow> unit sio" where
  "process_manualRefresh inp =
     sbnd (lift_io (dl_call enumerateLogs)) (\<lambda>logs.
     sbnd (sdo (cacheEnumerationResult logs)) (\<lambda>_.
     sbnd (sdo (handle_events (in_during inp))) (\<lambda>_. sdo returnToIdleState)))"

definition process_manualDownload :: "os \<Rightarrow> sqlite \<Rightarrow> pass_input \<Rightarrow> unit sio" where
  "process_manualDownload os sq inp =
     sbnd (lift_io (dl_call enumerateLogs)) (\<lambda>logs.
     sbnd (sdo (cacheEnumerationResult logs)) (\<lambda>_.
     sbnd (sget (\<lambda>s. if sv_manual_all s then logs
                     else filter (\<lambda>e. le_id e \<in> set (sv_manual_ids s)) logs)) (\<lambda>selected.
     sbnd (lift_io (archiveAll os sq selected)) (\<lambda>result.
     sbnd (sdo (\<lambda>s. s\<lparr>sv_last_cycle := result, sv_manual_ids := [], sv_manual_all := False\<rparr>)) (\<lambda>_.
     sbnd (sdo (handle_events (in_during inp))) (\<lambda>_. sdo (setState Cleanup)))))))"

definition process_manualErase :: "sqlite \<Rightarrow> pass_input \<Rightarrow> unit sio" where
  "process_manualErase sq inp =
     sbnd (sdo (upd_dl resetCancel)) (\<lambda>_.
     sbnd (lift_io (eraseFlightControllerLogs sq)) (\<lambda>_.
     sbnd (sdo (cacheEnumerationResult [])) (\<lambda>_.
     sbnd (sdo (handle_events (in_during inp))) (\<lambda>_. sdo returnToIdleState))))"

definition process_cleanup :: "os \<Rightarrow> sqlite \<Rightarrow> pass_input \<Rightarrow> unit sio" where
  "process_cleanup os sq inp =
     sbnd (lift_io (st_call (enforceStorageLimit os))) (\<lambda>_.
     sbnd (sget (\<lambda>s. totalVerifiedBytes (a_st (sv_arch s)))) (\<lambda>n.
     sbnd (lift_io (db_call (setStat sq ''storage_bytes'' (sint n)))) (\<lambda>_.
     sbnd (logStatistics sq) (\<lambda>_.
     sbnd (sget sv_last_cycle) (\<lambda>result.
     sbnd (evaluateArchiveOutcome (in_connect_ok inp) result) (\<lambda>_.
     sbnd (sdo (handle_events (in_during inp))) (\<lambda>_.
       sdo (\<lambda>s. if sv_archive_requested s then setState Delay s else returnToIdleState s))))))))"

definition process_connectionLost :: "pass_input \<Rightarrow> unit sio" where
  "process_connectionLost inp =
     sbnd (lift_io (dl_call sleep_for)) (\<lambda>_.
     sbnd (sdo (handle_events (in_during inp))) (\<lambda>_. sdo (setState Connect)))"

text \<open>
  A state that is handled without waiting: the events of the rest of the pass come after it.
\<close>

definition at_once :: "pass_input \<Rightarrow> (service \<Rightarrow> service) \<Rightarrow> unit sio" where
  "at_once inp f = sbnd (sdo f) (\<lambda>_. sdo (handle_events (in_during inp)))"

definition processState :: "os \<Rightarrow> sqlite \<Rightarrow> pass_input \<Rightarrow> unit sio" where
  "processState os sq inp s =
     (case sv_state s of
        Boot \<Rightarrow> at_once inp (setState Connect) s
      | Connect \<Rightarrow> process_connect inp s
      | WaitHeartbeat \<Rightarrow> at_once inp process_waitHeartbeat s
      | WaitArm \<Rightarrow> at_once inp process_wait s
      | WaitDisarm \<Rightarrow> at_once inp process_wait s
      | Delay \<Rightarrow> at_once inp process_delay s
      | Enumerate \<Rightarrow> at_once inp (setState Archive) s
      | Archive \<Rightarrow> process_archive os sq inp s
      | EraseAll \<Rightarrow> process_eraseAll sq inp s
      | ManualRefresh \<Rightarrow> process_manualRefresh inp s
      | ManualDownload \<Rightarrow> process_manualDownload os sq inp s
      | ManualErase \<Rightarrow> process_manualErase sq inp s
      | Cleanup \<Rightarrow> process_cleanup os sq inp s
      | ConnectionLost \<Rightarrow> process_connectionLost inp s)"

text \<open>One pass of the loop of \<^verbatim>\<open>run\<close>, its beginning and its end.\<close>

definition run_pass :: "os \<Rightarrow> sqlite \<Rightarrow> pass_input \<Rightarrow> unit sio" where
  "run_pass os sq inp =
     sbnd (sdo drainCompanionCommands) (\<lambda>_.
     sbnd (sdo (handle_events (in_between inp))) (\<lambda>_.
     sbnd (sget sv_ended) (\<lambda>e. if e then sdo (\<lambda>s. s) else processState os sq inp)))"

definition stop :: "service \<Rightarrow> service" where
  "stop s = upd_dl requestCancel (s\<lparr>sv_running := False\<rparr>)"

definition run_start :: "os \<Rightarrow> sqlite \<Rightarrow> unit sio" where
  "run_start os sq =
     sbnd (lift_io (st_call (initialize os))) (\<lambda>_.
     sbnd (lift_io (st_call (\<lambda>st. create_directories os (sm_root st) st))) (\<lambda>_.
       lift_io (db_call (database_open sq))))"

definition run_finish :: "sqlite \<Rightarrow> unit sio" where
  "run_finish sq =
     sbnd (sdo (upd_dl requestCancel)) (\<lambda>_.
     sbnd (sdo (upd_dl client_disconnect)) (\<lambda>_. logStatistics sq))"

end
