(* ===== verification/DroneLogFrame.thy ===== *)
theory DroneLogFrame
  imports DroneLogService
begin

text \<open>
  Runs of the service. A run is a trace of events of the other threads, with the passes of the main
  loop between them. Facts about whole runs are proved once in the locale \<open>run_frame\<close>: a relation
  between two states of a run holds when the single operations of the service keep to it.
\<close>

section \<open>Runs\<close>

text \<open>
  \<open>svc_run os sq s0 tr s\<close>: started in \<open>s0\<close>, the service can be in state \<open>s\<close> after the events \<open>tr\<close>. An
  exception that leaves \<^verbatim>\<open>run\<close> ends the process, as does the return of \<^verbatim>\<open>run\<close>.
\<close>

inductive svc_run :: "os \<Rightarrow> sqlite \<Rightarrow> service \<Rightarrow> service_event list \<Rightarrow> service \<Rightarrow> bool"
  for os :: os and sq :: sqlite and s0 :: service where
  started: "run_start os sq s0 = Some (Inr (), s) \<Longrightarrow> svc_run os sq s0 [] s"
| event: "svc_run os sq s0 tr s \<Longrightarrow> \<not> sv_ended s \<Longrightarrow> svc_run os sq s0 (tr @ [e]) (handle_event e s)"
| pass: "svc_run os sq s0 tr s \<Longrightarrow> \<not> sv_ended s \<Longrightarrow> sv_running s \<Longrightarrow>
    run_pass os sq inp s = Some (Inr (), s') \<Longrightarrow>
    svc_run os sq s0 (tr @ in_between inp @ in_during inp) s'"
| thrown: "svc_run os sq s0 tr s \<Longrightarrow> \<not> sv_ended s \<Longrightarrow> sv_running s \<Longrightarrow>
    run_pass os sq inp s = Some (Inl e, s') \<Longrightarrow>
    svc_run os sq s0 (tr @ in_between inp) (s'\<lparr>sv_ended := True\<rparr>)"
| finished: "svc_run os sq s0 tr s \<Longrightarrow> \<not> sv_ended s \<Longrightarrow> \<not> sv_running s \<Longrightarrow>
    run_finish sq s = Some (x, s') \<Longrightarrow> svc_run os sq s0 tr (s'\<lparr>sv_ended := True\<rparr>)"

section \<open>Effects of the service\<close>

lemma sbnd_SomeE:
  assumes "sbnd m f s = Some (x, s')"
  obtains (thrown) e where "m s = Some (Inl e, s')" "x = Inl e"
  | (returned) y t where "m s = Some (Inr y, t)" "f y t = Some (x, s')"
  using assms by (auto simp: sbnd_def split: option.splits sum.splits)

lemma sbnd_simps [simp]:
  "sbnd (sdo g) k s = k () (g s)" "sbnd (sget h) f s = f (h s) s"
  by (simp_all add: sbnd_def sdo_def sget_def)

lemma lift_io_SomeE:
  assumes "lift_io m s = Some (x, s')"
  obtains a where "m (sv_arch s) = Some (x, a)" "s' = s\<lparr>sv_arch := a\<rparr>"
  using assms by (auto simp: lift_io_def split: option.splits)

section \<open>The operations that do not erase\<close>

lemma later_client [simp]:
  "later w (client_disconnect w)" "later w (requestCancel w)" "later w (resetCancel w)"
  "later w (w\<lparr>connected := b\<rparr>)"
  by (auto intro!: later_same simp: client_disconnect_def requestCancel_def resetCancel_def)

lemma later_connect: "client_connect ok w = (c, w') \<Longrightarrow> later w w'"
  by (auto intro!: later_same simp: client_connect_def client_disconnect_def Let_def split: if_splits)

lemma later_wait_heartbeat: "wait_heartbeat d w = Some (x, w') \<Longrightarrow> later w w'"
proof (induction d w rule: wait_heartbeat.induct)
  case (1 d w)
  from 1(2) show ?case
    using 1(1)
    by (subst (asm) wait_heartbeat.simps) (auto split: if_splits option.splits intro: later_trans [OF later_wait])
qed

lemma later_reconnect: "reconnect ok w = Some (x, w') \<Longrightarrow> later w w'"
  by (auto simp: reconnect_def waitForHeartbeat_def split: prod.splits if_splits
      dest!: later_wait_heartbeat later_connect intro: later_trans)

lemma later_relink:
  assumes "relink ok w = Some (x, w')"
  shows "later w w'"
proof -
  from assms obtain w1 where w1: "wait_tick (client_disconnect w) = Some w1"
    by (auto simp: relink_def split: option.splits)
  then have "later w w1" by (blast intro: later_trans later_wait later_client)
  with assms w1 show ?thesis
    by (auto simp: relink_def waitForHeartbeat_def split: prod.splits if_splits
        dest!: later_wait_heartbeat later_connect intro: later_trans)
qed

lemma later_sleep_for: "sleep_for w = Some (x, w') \<Longrightarrow> later w w'"
  by (auto simp: sleep_for_def dest: later_wait)

lemma later_enum_attempts: "enum_attempts k n w = Some w' \<Longrightarrow> later w w'"
proof (induction k n w rule: enum_attempts.induct)
  case (1 k n w)
  show ?case
  proof (cases "n < k")
    case False
    let ?w = "requestLogList w"
    from 1(2) False obtain w1 where w1: "enum_wait (clock ?w + 15000) (length (pending_entries ?w)) (clock ?w) ?w = Some w1"
      by (subst (asm) enum_attempts.simps) (auto simp: Let_def split: option.splits)
    have l: "later w w1" using later_enum_wait [OF w1] later_requests(3) by (rule later_trans [rotated])
    show ?thesis
    proof (cases "pending_entries w1 \<noteq> [] \<or> cancelled w1 \<or> k = n")
      case True
      with 1(2) False w1 l show ?thesis by (subst (asm) enum_attempts.simps) (auto simp: Let_def)
    next
      case again: False
      with 1(2) False w1 obtain w2 where w2: "interruptibleSleep (enumerate_retry_delay_sec (settings w1)) w1 = Some w2"
        by (subst (asm) enum_attempts.simps) (auto simp: Let_def split: option.splits)
      then have "later w w2" using l later_sleep_loop by (auto simp: interruptibleSleep_def intro: later_trans)
      moreover have "w' = w2 \<or> enum_attempts (k + 1) n w2 = Some w'"
        using 1(2) False w1 again w2
        by (subst (asm) enum_attempts.simps) (auto simp: Let_def split: if_splits)
      ultimately show ?thesis
        using "1.IH" [OF False refl w1 again w2] 1(2) False w1 again w2
        by (subst (asm) (3) enum_attempts.simps) (auto simp: Let_def split: if_splits intro: later_trans)
    qed
  qed (use 1(2) in \<open>simp add: enum_attempts.simps\<close>)
qed

lemma enumerateLogs_SomeD:
  assumes "enumerateLogs w = Some (logs, w')"
  shows "later w w' \<and> sorted_wrt (<) (map le_id logs)"
proof -
  from assms obtain w1 where w1:
    "enum_attempts 1 (nat (max 1 (enumerate_attempts (settings w)))) (w\<lparr>pending_entries := []\<rparr>) = Some w1"
    "logs = unique_ids (sort_key le_id (pending_entries w1))" "w' = requestLogEnd w1"
    by (auto simp: enumerateLogs_def bind_eq_Some_conv)
  have "later w w'" unfolding w1(3)
    by (rule later_trans [OF later_trans [OF later_updates(1) later_enum_attempts [OF w1(1)]] later_requests(2)])
  moreover have "sorted_wrt (<) (map le_id logs)" unfolding w1(2) by (rule unique_ids_sorted) simp
  ultimately show ?thesis ..
qed

section \<open>Frames\<close>

text \<open>
  What an operation of the main loop leaves of the state if it neither handles an event, takes a
  command, caches an enumeration, enters a state that erases nor erases.
\<close>

definition local_change :: "service \<Rightarrow> service \<Rightarrow> bool" where
  "local_change s s' \<longleftrightarrow> sv_config s' = sv_config s \<and> sv_running s' = sv_running s \<and>
     sv_monitor s' = sv_monitor s \<and> sv_logs s' = sv_logs s \<and>
     sv_commands s' = sv_commands s \<and> (sv_state s' = EraseAll \<longrightarrow> sv_state s = EraseAll) \<and>
     (sv_state s' = ManualErase \<longrightarrow> sv_state s = ManualErase) \<and> dl_history (sv_arch s) (sv_arch s') \<and>
     catalog_grows (sv_arch s) (sv_arch s')"

definition obeys :: "(service_event list \<Rightarrow> service \<Rightarrow> service \<Rightarrow> bool) \<Rightarrow> service_event list \<Rightarrow> 'a sio \<Rightarrow> bool" where
  "obeys R es m \<longleftrightarrow> (\<forall>s x s'. m s = Some (x, s') \<longrightarrow> R (if isl x then [] else es) s s')"

lemma obeysD: "obeys R es m \<Longrightarrow> m s = Some (x, s') \<Longrightarrow> R (if isl x then [] else es) s s'"
  by (simp add: obeys_def)

lemma local_changes [simp]:
  "st \<noteq> EraseAll \<Longrightarrow> st \<noteq> ManualErase \<Longrightarrow> local_change s (setState st s)" "local_change s (returnToIdleState s)"
  "local_change s (s\<lparr>sv_last_cycle := r\<rparr>)" "local_change s (s\<lparr>sv_logs_stale := b\<rparr>)"
  "local_change s (s\<lparr>sv_failures := n\<rparr>)" "local_change s (s\<lparr>sv_ended := b\<rparr>)"
  "local_change s (s\<lparr>sv_last_cycle := r, sv_manual_ids := is, sv_manual_all := b\<rparr>)"
  by (simp_all add: local_change_def setState_def returnToIdleState_def dl_history_def catalog_grows_def)

lemma local_change_trans: "local_change s t \<Longrightarrow> local_change t u \<Longrightarrow> local_change s u"
  by (auto simp: local_change_def dl_history_def catalog_grows_def intro: later_trans)

lemma local_change_dl: "later (sv_dl s) (f (sv_dl s)) \<Longrightarrow> local_change s (upd_dl f s)"
  by (simp add: local_change_def upd_dl_def dl_history_def catalog_grows_def digests_def)

lemma local_change_lift:
  assumes "lift_io m s = Some (x, s')" and "keeps dl_history m" and "keeps catalog_grows m"
  shows "local_change s s'"
  using assms by (auto elim!: lift_io_SomeE dest: keepsD simp: local_change_def)

lemma local_change_lost: "local_change s (handleConnectionLost b s)"
  by (auto simp: handleConnectionLost_def disconnect_on_def local_change_def upd_dl_def setState_def Let_def
      dl_history_def catalog_grows_def digests_def)

lemma local_change_at_once:
  "local_change s (process_waitHeartbeat s)" "local_change s (process_wait s)" "local_change s (process_delay s)"
  by (auto simp: process_waitHeartbeat_def process_wait_def local_change_lost)
     (auto simp: process_delay_def local_change_def upd_dl_def setState_def dl_history_def catalog_grows_def digests_def)

text \<open>The calls on storage and catalog that the main loop makes itself.\<close>

lemma keeps_dl: "(\<And>w x w'. f w = Some (x, w') \<Longrightarrow> later w w') \<Longrightarrow> keeps dl_history (dl_call f) \<and> keeps catalog_grows (dl_call f)"
  using hist.keeps_dl_call grows.keeps_dl_call by blast

lemma keeps_st: "keeps dl_history (st_call f) \<and> keeps catalog_grows (st_call f)"
  by (auto simp: keeps_def st_call_eq dl_history_def catalog_grows_def digests_def)

lemma keeps_db:
  assumes "\<And>d. archived_logs (snd (f d)) = archived_logs d"
  shows "keeps dl_history (db_call f) \<and> keeps catalog_grows (db_call f)"
  using assms by (auto simp: keeps_def db_call_eq dl_history_def catalog_grows_def digests_def)

lemma getStat_rows [simp]: "archived_logs (snd (getStat sq key d)) = archived_logs d"
  by (auto simp: getStat_def sqlite_call_def split: bool.splits)

lemma sqlite_execs_rows [simp]: "archived_logs (snd (sqlite_execs sq n d)) = archived_logs d"
  by (induction n arbitrary: d) (auto simp: sqlite_call_def split: bool.splits)

lemma database_open_rows [simp]: "archived_logs (snd (database_open sq d)) = archived_logs d"
  by (auto simp: database_open_def sqlite_call_def split: bool.splits)

lemma archiveAll_keeps: "keeps dl_history (archiveAll os sq logs) \<and> keeps catalog_grows (archiveAll os sq logs)"
  using hist.keeps_archiveAll grows.keeps_archiveAll by blast

section \<open>The frame of a run\<close>

locale run_frame =
  fixes R :: "service_event list \<Rightarrow> service \<Rightarrow> service \<Rightarrow> bool"
  assumes R_trans: "R xs s t \<Longrightarrow> R ys t u \<Longrightarrow> R (xs @ ys) s u"
    and R_local: "local_change s s' \<Longrightarrow> R [] s s'"
    and R_event: "R [e] s (handle_event e s)"
    and R_ended: "sv_ended s \<Longrightarrow> R es s s"
    and R_command: "queue_pop (sv_commands s) = Some (c, q) \<Longrightarrow> R [] s (process_command c (s\<lparr>sv_commands := q\<rparr>))"
    and R_cache: "sorted_wrt (<) (map le_id logs) \<Longrightarrow> R [] s (cacheEnumerationResult logs s)"
begin

lemma R_refl: "R [] s s"
  by (rule R_local) (simp add: local_change_def dl_history_def catalog_grows_def)

lemma R_trans_Nil: "R [] s t \<Longrightarrow> R es t u \<Longrightarrow> R es s u" "R es s t \<Longrightarrow> R [] t u \<Longrightarrow> R es s u"
  using R_trans [of "[]" s t es u] R_trans [of es s t "[]" u] by simp_all

lemma R_handle_events: "R es s (handle_events es s)"
proof (induction es arbitrary: s)
  case (Cons e es)
  show ?case
  proof (cases "sv_ended s")
    case True
    then have "handle_events (e # es) s = s"
      by (induction es) (simp_all add: handle_events_def)
    with True show ?thesis by (simp add: R_ended)
  next
    case False
    with R_trans [OF R_event [of e s] Cons.IH [of "handle_event e s"]] show ?thesis
      by (simp add: handle_events_def)
  qed
qed (simp add: handle_events_def R_refl)

lemma R_drain: "R [] s (drainCompanionCommands s)"
proof -
  have "R [] s (drain_commands s)" for s
  proof (induction s rule: drain_commands.induct)
    case (1 s)
    show ?case
    proof (cases "queue_pop (sv_commands s)")
      case None
      then show ?thesis by (simp add: drain_commands.simps [of s] R_refl)
    next
      case (Some y)
      obtain c q where y: "y = (c, q)" by fastforce
      with Some have p: "queue_pop (sv_commands s) = Some (c, q)" by simp
      from R_trans_Nil(1) [OF R_command [OF p] 1 [OF Some y [symmetric]]] p show ?thesis
        by (simp add: drain_commands.simps [of s])
    qed
  qed
  then show ?thesis by (simp add: drainCompanionCommands_def R_refl)
qed

lemma obeys_sbnd: "obeys R [] m \<Longrightarrow> (\<And>x. obeys R es (f x)) \<Longrightarrow> obeys R es (sbnd m f)"
  unfolding obeys_def by (fastforce elim!: sbnd_SomeE intro: R_trans_Nil(1))

lemma obeys_sdo: "(\<And>s. R es s (g s)) \<Longrightarrow> obeys R es (sdo g)"
  by (simp add: obeys_def sdo_def)

lemma obeys_local: "(\<And>s. local_change s (g s)) \<Longrightarrow> obeys R [] (sdo g)"
  by (intro obeys_sdo R_local)

lemma obeys_sget: "obeys R [] (sget h)"
  by (simp add: obeys_def sget_def R_refl)

lemma obeys_lift: "keeps dl_history m \<and> keeps catalog_grows m \<Longrightarrow> obeys R [] (lift_io m)"
  by (auto simp: obeys_def intro: R_local dest: local_change_lift)

lemma obeys_dl: "(\<And>w x w'. f w = Some (x, w') \<Longrightarrow> later w w') \<Longrightarrow> obeys R [] (lift_io (dl_call f))"
  by (intro obeys_lift keeps_dl)

text \<open>The last steps of a state: the events, then a change of the own state only.\<close>

lemma obeys_last: "(\<And>s. local_change s (g s)) \<Longrightarrow> obeys R es (sbnd (sdo (handle_events es)) (\<lambda>_. sdo g))"
  by (auto simp: obeys_def sdo_def intro: R_trans_Nil(2) [OF R_handle_events] R_local)

lemma obeys_at_once: "(\<And>s. local_change s (g s)) \<Longrightarrow> obeys R (in_during inp) (at_once inp g)"
  by (auto simp: obeys_def at_once_def sdo_def intro: R_trans_Nil(1) [OF _ R_handle_events] R_local)

lemma obeys_statistics: "obeys R [] (logStatistics sq)"
  unfolding logStatistics_def
  by (intro obeys_sbnd obeys_lift keeps_db obeys_local) (simp_all add: local_change_def dl_history_def catalog_grows_def)

text \<open>An enumeration that is cached.\<close>

lemma obeys_enumerate:
  assumes f: "\<And>logs. obeys R es (f logs)"
  shows "obeys R es (sbnd (lift_io (dl_call enumerateLogs)) (\<lambda>logs. sbnd (sdo (cacheEnumerationResult logs)) (\<lambda>_. f logs)))"
  unfolding obeys_def
proof (intro allI impI)
  fix s x s'
  assume "sbnd (lift_io (dl_call enumerateLogs)) (\<lambda>logs. sbnd (sdo (cacheEnumerationResult logs)) (\<lambda>_. f logs)) s = Some (x, s')"
  then show "R (if isl x then [] else es) s s'"
  proof (cases rule: sbnd_SomeE)
    case (thrown e)
    then show ?thesis by (auto elim!: lift_io_SomeE simp: dl_call_def split: option.splits)
  next
    case (returned logs t)
    then obtain w where w: "enumerateLogs (sv_dl s) = Some (logs, w)" "t = s\<lparr>sv_arch := (sv_arch s)\<lparr>a_dl := w\<rparr>\<rparr>"
      by (auto elim!: lift_io_SomeE simp: dl_call_def split: option.splits)
    have t: "R [] s t"
      using enumerateLogs_SomeD [OF w(1)] local_change_dl [of s "\<lambda>_. w"] by (intro R_local) (simp add: upd_dl_def w(2))
    have c: "R [] t (cacheEnumerationResult logs t)" using enumerateLogs_SomeD [OF w(1)] by (intro R_cache) simp
    from returned(2) have "R (if isl x then [] else es) (cacheEnumerationResult logs t) s'"
      by (intro obeysD [OF f]) simp
    then show ?thesis by (rule R_trans_Nil(1) [OF R_trans_Nil(1) [OF t c]])
  qed
qed

lemma obeys_outcome: "obeys R [] (evaluateArchiveOutcome ok r)"
  unfolding obeys_def
proof (intro allI impI)
  fix s x s'
  assume a: "evaluateArchiveOutcome ok r s = Some (x, s')"
  let ?t = "s\<lparr>sv_failures := sv_failures s + 1\<rparr>"
  let ?relink = "sbnd (lift_io (dl_call (relink ok))) (\<lambda>c. sdo (\<lambda>s. if c then s\<lparr>sv_failures := 0\<rparr> else s))"
  have relinked: "obeys R [] ?relink"
    by (intro obeys_sbnd obeys_dl obeys_local later_relink)
       (auto simp: local_change_def dl_history_def catalog_grows_def)
  have "s' = s \<or> s' = s\<lparr>sv_failures := 0\<rparr> \<or> s' = ?t \<or> ?relink ?t = Some (x, s')"
    using a unfolding evaluateArchiveOutcome_def Let_def by (simp split: if_splits)
  then have "R [] s s'"
    using obeysD [OF relinked, of ?t x s'] R_refl R_local [OF local_changes(5)] R_trans_Nil(1) [of s ?t "[]" s']
    by auto
  then show "R (if isl x then [] else []) s s'" by simp
qed

text \<open>Every state but the two that erase and \<open>Archive\<close>.\<close>

lemma obeys_connect: "obeys R (in_during inp) (process_connect inp)"
proof -
  let ?yes = "sbnd (sdo (\<lambda>s. s\<lparr>sv_logs_stale := True\<rparr>)) (\<lambda>_.
    sbnd (sdo (handle_events (in_during inp))) (\<lambda>_. sdo (setState WaitHeartbeat)))"
  let ?no = "sbnd (lift_io (dl_call sleep_for)) (\<lambda>_. sdo (handle_events (in_during inp)))"
  have "obeys R (in_during inp) ?yes"
    by (intro obeys_sbnd obeys_local obeys_last local_changes) simp_all
  moreover have "obeys R (in_during inp) ?no"
    by (intro obeys_sbnd obeys_dl later_sleep_for obeys_sdo R_handle_events)
  ultimately show ?thesis
    unfolding process_connect_def by (intro obeys_sbnd obeys_dl later_reconnect) simp_all
qed

lemma obeys_manualRefresh: "obeys R (in_during inp) (process_manualRefresh inp)"
  unfolding process_manualRefresh_def
  by (intro obeys_enumerate obeys_last local_changes)

lemma obeys_manualDownload: "obeys R (in_during inp) (process_manualDownload os sq inp)"
  unfolding process_manualDownload_def
  by (intro obeys_enumerate obeys_sbnd obeys_sget obeys_lift archiveAll_keeps obeys_local obeys_last local_changes)
     simp_all

lemma obeys_cleanup: "obeys R (in_during inp) (process_cleanup os sq inp)"
  unfolding process_cleanup_def
  by (intro obeys_sbnd obeys_sget obeys_lift keeps_st keeps_db obeys_statistics obeys_outcome obeys_last)
     simp_all

lemma obeys_connectionLost: "obeys R (in_during inp) (process_connectionLost inp)"
  unfolding process_connectionLost_def
  by (intro obeys_sbnd obeys_dl later_sleep_for obeys_last local_changes) simp_all

lemma obeys_enter:
  "obeys R (in_during inp) (at_once inp (setState Connect))" "obeys R (in_during inp) (at_once inp (setState Archive))"
  "obeys R (in_during inp) (at_once inp process_waitHeartbeat)" "obeys R (in_during inp) (at_once inp process_wait)"
  "obeys R (in_during inp) (at_once inp process_delay)"
  by (rule obeys_at_once, simp add: local_change_at_once)+

lemma process_frame:
  assumes "processState os sq inp s = Some (x, s')" and "sv_state s \<notin> {Archive, EraseAll, ManualErase}"
  shows "R (if isl x then [] else in_during inp) s s'"
  using assms
  by (cases "sv_state s")
     (auto simp: processState_def
       dest!: obeysD [OF obeys_connect] obeysD [OF obeys_manualRefresh] obeysD [OF obeys_manualDownload]
         obeysD [OF obeys_cleanup] obeysD [OF obeys_connectionLost] obeysD [OF obeys_enter(1)]
         obeysD [OF obeys_enter(2)] obeysD [OF obeys_enter(3)] obeysD [OF obeys_enter(4)] obeysD [OF obeys_enter(5)])

lemma start_frame: "run_start os sq s = Some (x, s') \<Longrightarrow> R [] s s'"
proof -
  have "obeys R [] (run_start os sq)"
    unfolding run_start_def by (intro obeys_sbnd obeys_lift keeps_st keeps_db) simp
  then show "run_start os sq s = Some (x, s') \<Longrightarrow> R [] s s'" by (auto dest: obeysD)
qed

lemma finish_frame: "run_finish sq s = Some (x, s') \<Longrightarrow> R [] s s'"
proof -
  have "obeys R [] (run_finish sq)"
    unfolding run_finish_def
    by (intro obeys_sbnd obeys_local obeys_statistics local_change_dl) simp_all
  then show "run_finish sq s = Some (x, s') \<Longrightarrow> R [] s s'" by (auto dest: obeysD)
qed

text \<open>A pass up to the point where the main loop looks at its state.\<close>

lemma before_process: "R (in_between inp) s (handle_events (in_between inp) (drainCompanionCommands s))"
  by (rule R_trans_Nil(1) [OF R_drain R_handle_events])

end

text \<open>Frames that entering \<open>EraseAll\<close> and erasing keep to as well hold over whole runs.\<close>

locale whole_run_frame = run_frame +
  assumes R_enter: "R [] s (setState EraseAll s)"
    and R_erase: "eraseFlightControllerLogs sq (sv_arch s) = Some (x, a) \<Longrightarrow> R [] s (s\<lparr>sv_arch := a\<rparr>)"
begin

lemma obeys_archive: "obeys R (in_during inp) (process_archive os sq inp)"
proof -
  have "R (in_during inp) s (setState (if c then EraseAll else Cleanup) (handle_events (in_during inp) s))" for c s
    by (cases c) (simp_all add: R_trans_Nil(2) [OF R_handle_events] R_enter R_local)
  then have last: "obeys R (in_during inp) (sbnd (sdo (handle_events (in_during inp)))
    (\<lambda>_. sbnd (sget (\<lambda>s. erase_after_success (download (sv_config s))))
       (\<lambda>erase. sdo (setState (if \<not> 0 < cyc_cancelled r \<and> all_archived r \<and> erase \<and> logs \<noteq> [] then EraseAll else Cleanup)))))"
    for r and logs :: "LogEntry list"
    by (simp add: obeys_def sdo_def)
  show ?thesis
    unfolding process_archive_def Let_def
    by (rule obeys_enumerate, rule obeys_sbnd [OF obeys_lift [OF archiveAll_keeps]],
        rule obeys_sbnd [OF obeys_local [OF local_changes(3)]], rule last)
qed

lemma obeys_erase: "obeys R [] (lift_io (eraseFlightControllerLogs sq))"
  by (auto simp: obeys_def elim!: lift_io_SomeE intro: R_erase)

lemma obeys_eraseAll: "obeys R (in_during inp) (process_eraseAll sq inp)"
proof -
  let ?last = "sbnd (sdo (handle_events (in_during inp))) (\<lambda>_. sdo (setState Cleanup))"
  have last: "obeys R (in_during inp) ?last" by (rule obeys_last) simp
  have "obeys R (in_during inp) (sbnd (lift_io (eraseFlightControllerLogs sq)) (\<lambda>_. ?last))"
    by (rule obeys_sbnd [OF obeys_erase last])
  with last have "obeys R (in_during inp) (if c then ?last else sbnd (lift_io (eraseFlightControllerLogs sq)) (\<lambda>_. ?last))" for c
    by simp
  then show ?thesis unfolding process_eraseAll_def by (rule obeys_sbnd [OF obeys_sget])
qed

lemma obeys_manualErase: "obeys R (in_during inp) (process_manualErase sq inp)"
proof -
  have c: "obeys R [] (sdo (upd_dl resetCancel))" by (intro obeys_local local_change_dl) simp
  have e: "obeys R [] (sdo (cacheEnumerationResult []))" by (intro obeys_sdo R_cache) simp
  show ?thesis
    unfolding process_manualErase_def
    by (rule obeys_sbnd [OF c], rule obeys_sbnd [OF obeys_erase], rule obeys_sbnd [OF e], rule obeys_last) simp
qed

lemma any_process_frame:
  assumes "processState os sq inp s = Some (x, s')"
  shows "R (if isl x then [] else in_during inp) s s'"
proof (cases "sv_state s \<in> {Archive, EraseAll, ManualErase}")
  case True
  with assms have "process_archive os sq inp s = Some (x, s') \<or> process_eraseAll sq inp s = Some (x, s') \<or>
      process_manualErase sq inp s = Some (x, s')"
    by (auto simp: processState_def)
  with obeysD [OF obeys_archive] obeysD [OF obeys_eraseAll] obeysD [OF obeys_manualErase] show ?thesis by blast
qed (use process_frame [OF assms] in simp)

lemma pass_frame:
  assumes "run_pass os sq inp s = Some (x, s')"
  shows "R (in_between inp @ (if isl x then [] else in_during inp)) s s'"
proof -
  let ?m = "handle_events (in_between inp) (drainCompanionCommands s)"
  have "R (if isl x then [] else in_during inp) ?m s'"
  proof (cases "sv_ended ?m")
    case True
    with assms have "s' = ?m" "x = Inr ()" by (auto simp: run_pass_def sdo_def)
    with True show ?thesis by (simp add: R_ended)
  next
    case False
    with assms show ?thesis by (intro any_process_frame) (simp add: run_pass_def)
  qed
  then show ?thesis by (rule R_trans [OF before_process])
qed

lemma frame_of_run: "svc_run os sq s0 tr s \<Longrightarrow> R tr s0 s"
proof (induction rule: svc_run.induct)
  case (started s)
  then show ?case by (rule start_frame)
next
  case (event tr s e)
  show ?case by (rule R_trans [OF event.IH R_event])
next
  case (pass tr s inp s')
  from R_trans [OF pass.IH pass_frame [OF pass.hyps(4)]] show ?case by simp
next
  case (thrown tr s inp e s')
  have "R (tr @ in_between inp) s0 s'"
    using R_trans [OF thrown.IH pass_frame [OF thrown.hyps(4)]] by simp
  then show ?case by (rule R_trans_Nil(2)) (rule R_local, rule local_changes(6))
next
  case (finished tr s x s')
  have "R tr s0 s'" by (rule R_trans_Nil(2) [OF finished.IH finish_frame [OF finished.hyps(4)]])
  then show ?case by (rule R_trans_Nil(2)) (rule R_local, rule local_changes(6))
qed

end

section \<open>What events and commands leave alone\<close>

lemmas service_ops = setState_def upd_dl_def handleConnectionLost_def disconnect_on_def Let_def

lemma onFlightEvent_frame [simp]:
  "sv_config (onFlightEvent e s) = sv_config s" "sv_running (onFlightEvent e s) = sv_running s" "sv_monitor (onFlightEvent e s) = sv_monitor s"
  "sv_logs (onFlightEvent e s) = sv_logs s" "sv_commands (onFlightEvent e s) = sv_commands s"
  "sv_last_cycle (onFlightEvent e s) = sv_last_cycle s" "a_db (sv_arch (onFlightEvent e s)) = a_db (sv_arch s)"
  "sent (sv_dl (onFlightEvent e s)) = sent (sv_dl s)" "settings (sv_dl (onFlightEvent e s)) = settings (sv_dl s)"
  by (cases e; simp add: service_ops client_disconnect_def requestCancel_def)+

lemma onFlightEvent_state:
  "sv_state (onFlightEvent e s) = EraseAll \<Longrightarrow> sv_state s = EraseAll"
  "sv_state (onFlightEvent e s) = ManualErase \<Longrightarrow> sv_state s = ManualErase"
  by (cases e; auto simp: service_ops split: if_splits)+

lemma fold_onFlightEvent_frame [simp]:
  "sv_config (fold onFlightEvent es s) = sv_config s" "sv_monitor (fold onFlightEvent es s) = sv_monitor s"
  "sv_logs (fold onFlightEvent es s) = sv_logs s" "sv_commands (fold onFlightEvent es s) = sv_commands s"
  "sv_last_cycle (fold onFlightEvent es s) = sv_last_cycle s"
  "a_db (sv_arch (fold onFlightEvent es s)) = a_db (sv_arch s)"
  "sent (sv_dl (fold onFlightEvent es s)) = sent (sv_dl s)"
  "settings (sv_dl (fold onFlightEvent es s)) = settings (sv_dl s)"
  by (induction es arbitrary: s) simp_all

lemma fold_onFlightEvent_state:
  assumes "st = EraseAll \<or> st = ManualErase" and "sv_state (fold onFlightEvent es s) = st"
  shows "sv_state s = st"
  using assms(2)
proof (induction es arbitrary: s)
  case (Cons e es)
  from Cons.prems have "sv_state (fold onFlightEvent es (onFlightEvent e s)) = st" by simp
  then have "sv_state (onFlightEvent e s) = st" by (rule Cons.IH)
  with assms(1) onFlightEvent_state [of e s] show ?case by blast
qed simp

text \<open>What no event changes, and the two states that no event enters.\<close>

definition event_frame :: "service \<Rightarrow> service \<Rightarrow> bool" where
  "event_frame s s' \<longleftrightarrow> sv_config s' = sv_config s \<and> sv_logs s' = sv_logs s \<and> sv_last_cycle s' = sv_last_cycle s \<and>
     archived_logs (a_db (sv_arch s')) = archived_logs (a_db (sv_arch s)) \<and> sent (sv_dl s') = sent (sv_dl s) \<and>
     settings (sv_dl s') = settings (sv_dl s) \<and>
     (sv_state s' = EraseAll \<longrightarrow> sv_state s = EraseAll) \<and> (sv_state s' = ManualErase \<longrightarrow> sv_state s = ManualErase)"

lemma event_frame_refl: "event_frame s s"
  by (simp add: event_frame_def)

lemma event_frame_trans: "event_frame s t \<Longrightarrow> event_frame t u \<Longrightarrow> event_frame s u"
  by (simp add: event_frame_def)

lemma event_frame_monitor: "event_frame s (monitor_call f s)"
proof -
  obtain es m where f: "f (sv_monitor s) = (es, m)" by fastforce
  show ?thesis
    using fold_onFlightEvent_state [of EraseAll es "s\<lparr>sv_monitor := m\<rparr>"]
      fold_onFlightEvent_state [of ManualErase es "s\<lparr>sv_monitor := m\<rparr>"]
    by (simp add: monitor_call_def event_frame_def f)
qed

lemma event_frame_upd: "(\<And>w. sent (f w) = sent w \<and> settings (f w) = settings w) \<Longrightarrow> event_frame s (upd_dl f s)"
  by (simp add: event_frame_def upd_dl_def)

lemma event_frame_onMavlinkMessage: "event_frame s (onMavlinkMessage m s)"
proof -
  let ?s1 = "upd_dl (onMessage (mav_in_of m)) s"
  let ?s2 = "case m of Rx_heartbeat i c t a b \<Rightarrow> monitor_call (onHeartbeat (heartbeat_of i c t a b)) ?s1 | Rx_log _ \<Rightarrow> ?s1"
  have "event_frame s ?s1" by (rule event_frame_upd) simp
  moreover have "event_frame ?s1 ?s2"
    by (cases m) (simp_all add: event_frame_monitor event_frame_refl)
  moreover have "event_frame ?s2 (onMavlinkMessage m s)"
    by (simp add: onMavlinkMessage_def Let_def event_frame_monitor event_frame_refl)
  ultimately show ?thesis by (blast intro: event_frame_trans)
qed

lemma event_frame_message: "event_frame s (handleParsedMessage m age s)"
  unfolding handleParsedMessage_def
  by (rule event_frame_trans [OF event_frame_upd event_frame_onMavlinkMessage]) simp

lemma event_frame_request: "event_frame s (snd (requestCompanionJob kind ids all s))"
  by (auto simp: requestCompanionJob_def request_erase_def request_download_def push_command_def Let_def
      event_frame_def upd_dl_def requestCancel_def split: CompanionJobKind.split)

lemma event_frame_event: "event_frame s (handle_event e s)"
proof (cases e)
  case Ev_cancel
  then show ?thesis by (simp add: event_frame_def push_command_def upd_dl_def requestCancel_def)
next
  case Ev_signal
  then show ?thesis by (simp add: signalHandler_def event_frame_def)
next
  case (Ev_tick t)
  then show ?thesis by (simp add: event_frame_upd)
next
  case (Ev_reads k)
  then show ?thesis by (simp add: event_frame_def count_calls_def)
qed (simp_all add: event_frame_message event_frame_request)

lemma event_frame_events: "event_frame s (handle_events es s)"
proof (induction es arbitrary: s)
  case (Cons e es)
  show ?case
  proof (cases "sv_ended s")
    case True
    with Cons.IH [of s] show ?thesis by (simp add: handle_events_def)
  next
    case False
    with event_frame_trans [OF event_frame_event Cons.IH [of "handle_event e s"]] show ?thesis
      by (simp add: handle_events_def)
  qed
qed (simp add: handle_events_def event_frame_refl)

end
