(* ===== verification/DroneLogSafety.thy ===== *)
theory DroneLogSafety
  imports DroneLogFrame
begin

text \<open>
  Safety of the service over its runs: when the flight controller is erased, what the catalog and the
  cached list of logs promise at any time, and what a companion job request does.
\<close>

section \<open>Frames of the model\<close>

text \<open>Outside of the states that erase, nothing is erased and \<open>EraseAll\<close> is not entered.\<close>

definition quiet :: "service_event list \<Rightarrow> service \<Rightarrow> service \<Rightarrow> bool" where
  "quiet es s s' \<longleftrightarrow> (\<exists>qs. sent (sv_dl s') = sent (sv_dl s) @ qs \<and> LOG_ERASE \<notin> set qs) \<and>
     (sv_state s' = EraseAll \<longrightarrow> sv_state s = EraseAll)"

text \<open>The cached list is in strictly ascending order of id, and no digest leaves the catalog.\<close>

definition logs_sorted :: "service \<Rightarrow> bool" where
  "logs_sorted s \<longleftrightarrow> sorted_wrt (<) (map le_id (sv_logs s))"

definition catalog_frame :: "service_event list \<Rightarrow> service \<Rightarrow> service \<Rightarrow> bool" where
  "catalog_frame es s s' \<longleftrightarrow> sv_config s' = sv_config s \<and> settings (sv_dl s') = settings (sv_dl s) \<and> digests (sv_arch s) \<subseteq> digests (sv_arch s') \<and>
     (logs_sorted s \<longrightarrow> logs_sorted s')"

text \<open>An erase is wanted only if it was requested.\<close>

fun is_erase_request :: "service_event \<Rightarrow> bool" where
  "is_erase_request (Ev_request kind ids all) \<longleftrightarrow> kind = EraseAll_job"
| "is_erase_request _ \<longleftrightarrow> False"

definition erase_wanted :: "service \<Rightarrow> bool" where
  "erase_wanted s \<longleftrightarrow> EraseAllLogsCommand \<in> set (sv_commands s) \<or> sv_state s = ManualErase"

definition wanted_frame :: "service_event list \<Rightarrow> service \<Rightarrow> service \<Rightarrow> bool" where
  "wanted_frame es s s' \<longleftrightarrow> (erase_wanted s' \<longrightarrow> erase_wanted s \<or> list_ex is_erase_request es)"

text \<open>What commands leave alone.\<close>

lemma process_command_frame [simp]:
  "sv_config (process_command c s) = sv_config s" "sv_logs (process_command c s) = sv_logs s"
  "sv_last_cycle (process_command c s) = sv_last_cycle s" "a_db (sv_arch (process_command c s)) = a_db (sv_arch s)"
  "sent (sv_dl (process_command c s)) = sent (sv_dl s)" "settings (sv_dl (process_command c s)) = settings (sv_dl s)"
  by (cases c; simp add: setState_def upd_dl_def requestCancel_def resetCancel_def)+

lemma process_command_state:
  "sv_state (process_command c s) = EraseAll \<Longrightarrow> sv_state s = EraseAll"
  "sv_state (process_command c s) = ManualErase \<Longrightarrow> sv_state s = ManualErase \<or> c = EraseAllLogsCommand"
  by (cases c; simp add: setState_def upd_dl_def split: if_splits)+

lemma queue_pop_set: "queue_pop q = Some (c, q') \<Longrightarrow> set q = insert c (set q')"
  by (auto simp: queue_pop_def split: list.splits)

lemma monitor_call_commands [simp]: "sv_commands (monitor_call f s) = sv_commands s"
  by (simp add: monitor_call_def split: prod.split)

lemma upd_dl_commands [simp]: "sv_commands (upd_dl f s) = sv_commands s"
  by (simp add: upd_dl_def)

lemma message_commands [simp]: "sv_commands (handleParsedMessage m age s) = sv_commands s"
  by (simp add: handleParsedMessage_def onMavlinkMessage_def Let_def split: mav_rx.split)

lemma request_commands:
  "EraseAllLogsCommand \<in> set (sv_commands (snd (requestCompanionJob kind ids all s))) \<Longrightarrow>
   kind = EraseAll_job \<or> EraseAllLogsCommand \<in> set (sv_commands s)"
  by (cases kind) (auto simp: requestCompanionJob_def request_download_def push_command_def queue_push_def Let_def
      split: if_splits)

lemma event_wanted: "erase_wanted (handle_event e s) \<Longrightarrow> erase_wanted s \<or> is_erase_request e"
proof (cases e)
  case (Ev_request kind ids all)
  then show "erase_wanted (handle_event e s) \<Longrightarrow> ?thesis"
    using event_frame_event [of s e] request_commands [of kind ids all s]
    by (auto simp: erase_wanted_def event_frame_def)
qed (use event_frame_event [of s e] in \<open>auto simp: erase_wanted_def event_frame_def signalHandler_def push_command_def queue_push_def\<close>)

lemma erase_effect:
  assumes "eraseFlightControllerLogs sq a = Some (x, a')"
  shows "digests a' = digests a" and "settings (a_dl a') = settings (a_dl a)"
proof -
  show "settings (a_dl a') = settings (a_dl a)"
    using assms
    by (auto simp: eraseFlightControllerLogs_def dl_call_def db_call_eq ret_def sendMessage_def elim!: bnd_SomeE
        split: if_splits)
  show "digests a' = digests a"
  proof -
  have "ar_sha256 ` set (archived_logs (snd (markAllErased sq d))) = ar_sha256 ` set (archived_logs d)" for d
    by (auto simp: markAllErased_def sqlite_call_def image_image split: bool.splits)
  moreover have "a_db a' = a_db a \<or> a_db a' = snd (markAllErased sq (a_db a))"
    using assms by (auto simp: eraseFlightControllerLogs_def dl_call_def db_call_eq ret_def elim!: bnd_SomeE
        split: if_splits prod.splits)
  ultimately show ?thesis unfolding digests_def by (elim disjE) simp_all
  qed
qed

interpretation quiet: run_frame quiet
proof unfold_locales
  fix e s
  show "quiet [e] s (handle_event e s)"
    using event_frame_event [of s e] by (simp add: quiet_def event_frame_def)
next
  fix s :: service and c q
  assume "queue_pop (sv_commands s) = Some (c, q)"
  then show "quiet [] s (process_command c (s\<lparr>sv_commands := q\<rparr>))"
    using process_command_state(1) [of c "s\<lparr>sv_commands := q\<rparr>"] by (simp add: quiet_def)
qed (auto simp: quiet_def local_change_def dl_history_def later_def cacheEnumerationResult_def)

interpretation catalog: whole_run_frame catalog_frame
proof unfold_locales
  fix e s
  show "catalog_frame [e] s (handle_event e s)"
    using event_frame_event [of s e] by (simp add: catalog_frame_def event_frame_def digests_def logs_sorted_def)
next
  fix sq and s :: service and x a
  assume "eraseFlightControllerLogs sq (sv_arch s) = Some (x, a)"
  then show "catalog_frame [] s (s\<lparr>sv_arch := a\<rparr>)"
    by (simp add: catalog_frame_def erase_effect logs_sorted_def)
qed (auto simp: catalog_frame_def local_change_def catalog_grows_def logs_sorted_def digests_def
    cacheEnumerationResult_def setState_def dl_history_def later_def)

interpretation wanted: whole_run_frame wanted_frame
proof unfold_locales
  fix e s
  show "wanted_frame [e] s (handle_event e s)"
    using event_wanted [of e s] by (simp add: wanted_frame_def)
next
  fix s :: service and c q
  assume "queue_pop (sv_commands s) = Some (c, q)"
  with process_command_state(2) [of c "s\<lparr>sv_commands := q\<rparr>"]
  show "wanted_frame [] s (process_command c (s\<lparr>sv_commands := q\<rparr>))"
    by (auto simp: wanted_frame_def erase_wanted_def queue_pop_set)
qed (auto simp: wanted_frame_def erase_wanted_def local_change_def cacheEnumerationResult_def setState_def)

section \<open>What precedes an automatic erase\<close>

text \<open>
  The last cycle was an \<open>archiveAll\<close> of the cached logs that reported all of them archived and
  none cancelled, and its digests are still in the catalog.
\<close>

definition archived_cycle :: "os \<Rightarrow> sqlite \<Rightarrow> service \<Rightarrow> bool" where
  "archived_cycle os sq s \<longleftrightarrow> erase_after_success (download (sv_config s)) \<and> sv_logs s \<noteq> [] \<and>
     all_archived (sv_last_cycle s) \<and>
     (\<exists>a a'. archiveAll os sq (sv_logs s) a = Some (Inr (sv_last_cycle s), a') \<and>
        digests a' \<subseteq> digests (sv_arch s))"

definition erase_justified :: "os \<Rightarrow> sqlite \<Rightarrow> service \<Rightarrow> bool" where
  "erase_justified os sq s \<longleftrightarrow> (sv_state s = EraseAll \<longrightarrow> archived_cycle os sq s)"

text \<open>The fields an archived cycle is about.\<close>

definition same_cycle :: "service \<Rightarrow> service \<Rightarrow> bool" where
  "same_cycle s s' \<longleftrightarrow> sv_config s' = sv_config s \<and> sv_logs s' = sv_logs s \<and> sv_last_cycle s' = sv_last_cycle s \<and>
     digests (sv_arch s) \<subseteq> digests (sv_arch s') \<and> sent (sv_dl s') = sent (sv_dl s) \<and>
     (sv_state s' = EraseAll \<longrightarrow> sv_state s = EraseAll)"

lemma same_cycle_refl: "same_cycle s s"
  by (simp add: same_cycle_def)

lemma same_cycle_trans: "same_cycle s t \<Longrightarrow> same_cycle t u \<Longrightarrow> same_cycle s u"
  by (auto simp: same_cycle_def)

lemma same_cycle_events: "same_cycle s (handle_event e s)" "same_cycle s (handle_events es s)"
  using event_frame_event [of s e] event_frame_events [of s es]
  by (simp_all add: same_cycle_def event_frame_def digests_def)

lemma same_cycle_drain: "same_cycle s (drainCompanionCommands s)"
proof -
  have "same_cycle s (drain_commands s)" for s
  proof (induction s rule: drain_commands.induct)
    case (1 s)
    show ?case
    proof (cases "queue_pop (sv_commands s)")
      case None
      then show ?thesis by (simp add: drain_commands.simps [of s] same_cycle_refl)
    next
      case (Some y)
      obtain c q where y: "y = (c, q)" by fastforce
      have "same_cycle s (process_command c (s\<lparr>sv_commands := q\<rparr>))"
        using process_command_state(1) [of c "s\<lparr>sv_commands := q\<rparr>"] by (simp add: same_cycle_def digests_def)
      from same_cycle_trans [OF this 1 [OF Some y [symmetric]]] Some y show ?thesis
        by (simp add: drain_commands.simps [of s])
    qed
  qed
  then show ?thesis by (simp add: drainCompanionCommands_def same_cycle_refl)
qed

lemma archived_cycle_same: "same_cycle s s' \<Longrightarrow> archived_cycle os sq s \<Longrightarrow> archived_cycle os sq s'"
  by (auto simp: archived_cycle_def same_cycle_def)

lemma erase_justified_same: "same_cycle s s' \<Longrightarrow> erase_justified os sq s \<Longrightarrow> erase_justified os sq s'"
  using archived_cycle_same [of s s' os sq] by (auto simp: erase_justified_def same_cycle_def)

lemma archived_cycle_setState [simp]: "archived_cycle os sq (setState st s) = archived_cycle os sq s"
  by (simp add: archived_cycle_def setState_def)

text \<open>The state \<open>Archive\<close> enters \<open>EraseAll\<close> only after such a cycle, and does not erase.\<close>

lemma lift_ioI: "m (sv_arch s) = Some (x, a) \<Longrightarrow> lift_io m s = Some (x, s\<lparr>sv_arch := a\<rparr>)"
  by (simp add: lift_io_def)

lemma archive_cases:
  assumes "process_archive os sq inp s = Some (x, s')"
  obtains (thrown) logs w a e where "later (sv_dl s) w"
      "archiveAll os sq logs ((sv_arch s)\<lparr>a_dl := w\<rparr>) = Some (Inl e, a)"
      "s' = (cacheEnumerationResult logs s)\<lparr>sv_arch := a\<rparr>" "x = Inl e"
  | (returned) logs w a r t where "later (sv_dl s) w"
      "archiveAll os sq logs ((sv_arch s)\<lparr>a_dl := w\<rparr>) = Some (Inr r, a)"
      "t = (cacheEnumerationResult logs s)\<lparr>sv_arch := a, sv_last_cycle := r\<rparr>"
      "s' = setState (if \<not> 0 < cyc_cancelled r \<and> all_archived r \<and> erase_after_success (download (sv_config s)) \<and> logs \<noteq> []
             then EraseAll else Cleanup) (handle_events (in_during inp) t)" "x = Inr ()"
      "enumerateLogs (sv_dl s) = Some (logs, w)"
proof -
  from assms obtain logs w where e: "enumerateLogs (sv_dl s) = Some (logs, w)"
    by (auto simp: process_archive_def elim!: sbnd_SomeE lift_io_SomeE simp: dl_call_def split: option.splits)
  then have w: "later (sv_dl s) w" using enumerateLogs_SomeD by blast
  let ?c = "cacheEnumerationResult logs (s\<lparr>sv_arch := (sv_arch s)\<lparr>a_dl := w\<rparr>\<rparr>)"
  have c: "sv_arch ?c = (sv_arch s)\<lparr>a_dl := w\<rparr>" "?c\<lparr>sv_arch := a\<rparr> = (cacheEnumerationResult logs s)\<lparr>sv_arch := a\<rparr>"
    "sv_config ?c = sv_config s" for a
    by (simp_all add: cacheEnumerationResult_def)
  have cfg: "sv_config (handle_events (in_during inp) u) = sv_config u" for u
    using event_frame_events [of u] by (simp add: event_frame_def)
  have l: "lift_io (dl_call enumerateLogs) s = Some (Inr logs, s\<lparr>sv_arch := (sv_arch s)\<lparr>a_dl := w\<rparr>\<rparr>)"
    by (rule lift_ioI) (simp add: dl_call_def e)
  obtain y a where y: "archiveAll os sq logs ((sv_arch s)\<lparr>a_dl := w\<rparr>) = Some (y, a)"
    using assms l c(1) by (auto simp: process_archive_def sbnd_def [of "lift_io _"] lift_io_def split: option.splits)
  then have l2: "lift_io (archiveAll os sq logs) ?c = Some (y, (cacheEnumerationResult logs s)\<lparr>sv_arch := a\<rparr>)"
    using lift_ioI [of "archiveAll os sq logs" ?c y a] c by simp
  show thesis
  proof (cases y)
    case (Inl e)
    with assms l l2 have "x = Inl e" "s' = (cacheEnumerationResult logs s)\<lparr>sv_arch := a\<rparr>"
      by (auto simp: process_archive_def sbnd_def [of "lift_io _"])
    with thrown [OF w] y Inl show thesis by blast
  next
    case (Inr r)
    have cfg2: "sv_config ((cacheEnumerationResult logs s)\<lparr>sv_arch := a, sv_last_cycle := r\<rparr>) = sv_config s"
      by (simp add: cacheEnumerationResult_def)
    from assms l l2 Inr cfg cfg2 show thesis
      by (intro returned [OF w y [unfolded Inr] refl _ _ e])
         (auto simp: process_archive_def sbnd_def [of "lift_io _"] sdo_def Let_def)
  qed
qed

lemma archive_quiet:
  assumes "process_archive os sq inp s = Some (x, s')" and "sv_state s = Archive"
  shows "erase_justified os sq s'" and "\<exists>qs. sent (sv_dl s') = sent (sv_dl s) @ qs \<and> LOG_ERASE \<notin> set qs"
proof -
  have later_sent: "\<exists>qs. sent (a_dl a) = sent (sv_dl s) @ qs \<and> LOG_ERASE \<notin> set qs"
    if "later (sv_dl s) w" "archiveAll os sq logs ((sv_arch s)\<lparr>a_dl := w\<rparr>) = Some (y, a)" for w logs y a
  proof -
    have "later w (a_dl a)" using keepsD [OF hist.keeps_archiveAll that(2)] by (simp add: dl_history_def)
    with that(1) have "later (sv_dl s) (a_dl a)" by (rule later_trans)
    then show ?thesis by (simp add: later_def)
  qed
  from assms(1) have "erase_justified os sq s' \<and> (\<exists>qs. sent (sv_dl s') = sent (sv_dl s) @ qs \<and> LOG_ERASE \<notin> set qs)"
  proof (cases rule: archive_cases)
    case (thrown logs w a e)
    with later_sent [OF thrown(1,2)] assms(2) show ?thesis
      by (simp add: erase_justified_def cacheEnumerationResult_def)
  next
    case (returned logs w a r t)
    have t: "same_cycle t (handle_events (in_during inp) t)" by (rule same_cycle_events)
    have "archived_cycle os sq t" if "all_archived r" "erase_after_success (download (sv_config s))" "logs \<noteq> []"
      using that returned(2,3) by (auto simp: archived_cycle_def cacheEnumerationResult_def)
    then have j: "erase_justified os sq s'"
      using archived_cycle_same [OF t] unfolding returned(4) erase_justified_def
      by (simp add: setState_def [of Cleanup])
    have "sent (sv_dl s') = sent (a_dl a)"
      using t returned(3,4) by (simp add: same_cycle_def setState_def)
    with j later_sent [OF returned(1,2)] show ?thesis by simp
  qed
  then show "erase_justified os sq s'" "\<exists>qs. sent (sv_dl s') = sent (sv_dl s) @ qs \<and> LOG_ERASE \<notin> set qs" by auto
qed

lemma eraseAll_justified:
  assumes "process_eraseAll sq inp s = Some (x, s')" and "erase_justified os sq s" and "sv_state s = EraseAll"
  shows "erase_justified os sq s'"
proof (cases "sv_state s' = EraseAll")
  case True
  with assms(1) obtain y a where "eraseFlightControllerLogs sq (sv_arch s) = Some (y, a)" "s' = s\<lparr>sv_arch := a\<rparr>"
    by (auto simp: process_eraseAll_def sdo_def setState_def elim!: sbnd_SomeE lift_io_SomeE split: if_splits)
  with assms(2,3) erase_effect show ?thesis
    by (auto simp: erase_justified_def archived_cycle_def)
qed (simp add: erase_justified_def)

lemma manualErase_justified:
  assumes "process_manualErase sq inp s = Some (x, s')" and "sv_state s = ManualErase"
  shows "erase_justified os sq s'"
  using assms
  by (auto simp: process_manualErase_def erase_justified_def sdo_def setState_def returnToIdleState_def upd_dl_def
      elim!: sbnd_SomeE lift_io_SomeE split: if_splits)

lemma process_justified:
  assumes "processState os sq inp s = Some (x, s')" and "erase_justified os sq s"
  shows "erase_justified os sq s'"
proof (cases "sv_state s \<in> {Archive, EraseAll, ManualErase}")
  case True
  then consider "sv_state s = Archive" | "sv_state s = EraseAll" | "sv_state s = ManualErase" by blast
  then show ?thesis
  proof cases
    case 1
    with assms archive_quiet(1) [of os sq inp s x s'] show ?thesis by (simp add: processState_def)
  next
    case 2
    with assms eraseAll_justified [of sq inp s x s' os] show ?thesis by (simp add: processState_def)
  next
    case 3
    with assms manualErase_justified [of sq inp s x s' os] show ?thesis by (simp add: processState_def)
  qed
next
  case False
  with quiet.process_frame [OF assms(1)] have "sv_state s' \<noteq> EraseAll" by (auto simp: quiet_def)
  then show ?thesis by (simp add: erase_justified_def)
qed

text \<open>The point of a pass where the main loop looks at its state.\<close>

definition before :: "pass_input \<Rightarrow> service \<Rightarrow> service" where
  "before inp s = handle_events (in_between inp) (drainCompanionCommands s)"

lemma same_cycle_before: "same_cycle s (before inp s)"
  unfolding before_def by (rule same_cycle_trans [OF same_cycle_drain same_cycle_events(2)])

lemma pass_cases:
  assumes "run_pass os sq inp s = Some (x, s')"
  obtains (ended) "sv_ended (before inp s)" "s' = before inp s" "x = Inr ()"
  | (processed) "\<not> sv_ended (before inp s)" "processState os sq inp (before inp s) = Some (x, s')"
  using assms by (cases "sv_ended (before inp s)") (auto simp: run_pass_def before_def sdo_def)

lemma pass_justified:
  assumes "run_pass os sq inp s = Some (x, s')" and "erase_justified os sq s"
  shows "erase_justified os sq s'"
  using assms(1)
proof (cases rule: pass_cases)
  case ended
  with erase_justified_same [OF same_cycle_before assms(2)] show ?thesis by simp
next
  case processed
  from process_justified [OF processed(2) erase_justified_same [OF same_cycle_before assms(2)]] show ?thesis .
qed

lemma run_finish_state: "run_finish sq s = Some (x, s') \<Longrightarrow> same_cycle s s'"
proof -
  define ok :: "unit sio \<Rightarrow> bool" where "ok m = (\<forall>t y t'. m t = Some (y, t') \<longrightarrow> same_cycle t t')" for m
  have step: "ok (sbnd (lift_io (db_call (getStat sq key))) (\<lambda>_. m))" if "ok m" for key m
    unfolding ok_def
  proof (intro allI impI)
    fix t y t'
    assume "sbnd (lift_io (db_call (getStat sq key))) (\<lambda>_. m) t = Some (y, t')"
    moreover have "same_cycle t u" if "lift_io (db_call (getStat sq key)) t = Some (z, u)" for z u
      using that by (auto elim!: lift_io_SomeE simp: db_call_eq same_cycle_def digests_def)
    ultimately show "same_cycle t t'"
      using that by (auto simp: ok_def elim!: sbnd_SomeE intro: same_cycle_trans)
  qed
  have "ok (logStatistics sq)"
    unfolding logStatistics_def by (intro step) (simp add: ok_def sdo_def same_cycle_refl)
  moreover have "same_cycle s (upd_dl client_disconnect (upd_dl requestCancel s))"
    by (simp add: same_cycle_def upd_dl_def client_disconnect_def requestCancel_def digests_def)
  ultimately show "run_finish sq s = Some (x, s') \<Longrightarrow> same_cycle s s'"
    by (auto simp: run_finish_def ok_def intro: same_cycle_trans)
qed

lemma same_cycle_ended: "erase_justified os sq (s\<lparr>sv_ended := b\<rparr>) = erase_justified os sq s"
  by (simp add: erase_justified_def archived_cycle_def)

lemma run_justified: "svc_run os sq s0 tr s \<Longrightarrow> sv_state s0 = Boot \<Longrightarrow> erase_justified os sq s"
proof (induction rule: svc_run.induct)
  case (started s)
  from quiet.start_frame [OF started(1)] started(2) have "sv_state s \<noteq> EraseAll" by (auto simp: quiet_def)
  then show ?case by (simp add: erase_justified_def)
next
  case (event tr s e)
  then show ?case using erase_justified_same [OF same_cycle_events(1)] by blast
next
  case (pass tr s inp s')
  then show ?case using pass_justified by blast
next
  case (thrown tr s inp e s')
  then show ?case using pass_justified by (simp add: same_cycle_ended)
next
  case (finished tr s x s')
  then show ?case using erase_justified_same [OF run_finish_state] by (simp add: same_cycle_ended)
qed

text \<open>Only two states send LOG_ERASE, and \<open>EraseAll\<close> only if the cycle is not cancelled.\<close>

definition erases :: "service \<Rightarrow> service \<Rightarrow> bool" where
  "erases s s' \<longleftrightarrow> LOG_ERASE \<in> set (drop (length (sent (sv_dl s))) (sent (sv_dl s')))"

lemma process_erases:
  assumes "processState os sq inp s = Some (x, s')" and "erases s s'"
  shows "sv_state s = ManualErase \<or> sv_state s = EraseAll \<and> \<not> cancelled (sv_dl s)"
proof (rule ccontr)
  assume n: "\<not> ?thesis"
  have "\<exists>qs. sent (sv_dl s') = sent (sv_dl s) @ qs \<and> LOG_ERASE \<notin> set qs"
  proof (cases "sv_state s = Archive \<or> sv_state s = EraseAll")
    case True
    then show ?thesis
    proof
      assume "sv_state s = Archive"
      with assms(1) archive_quiet(2) [of os sq inp s x s'] show ?thesis by (simp add: processState_def)
    next
      assume e: "sv_state s = EraseAll"
      with n have "cancelled (sv_dl s)" by simp
      with assms(1) e have "s' = setState Cleanup (handle_events (in_during inp) s)"
        by (auto simp: processState_def process_eraseAll_def sdo_def)
      with same_cycle_events(2) [of s "in_during inp"] show ?thesis
        by (simp add: same_cycle_def setState_def)
    qed
  next
    case False
    with n quiet.process_frame [OF assms(1)] show ?thesis by (auto simp: quiet_def)
  qed
  with assms(2) show False by (auto simp: erases_def)
qed

text \<open>
  The cycle an automatic erase follows is the last pass of the run: it found the service in \<open>Archive\<close>,
  \<open>enumerateLogs\<close> returned the logs that are still cached, \<open>archiveOne\<close> dealt with them one after the
  other from the state the enumeration left, and since that pass there were only the events \<open>es\<close>.
\<close>

definition cycle_of_run :: "os \<Rightarrow> sqlite \<Rightarrow> service \<Rightarrow> service_event list \<Rightarrow> service \<Rightarrow> bool" where
  "cycle_of_run os sq s0 tr s \<longleftrightarrow>
     (\<exists>tr0 t inp t' es w final.
        svc_run os sq s0 tr0 t \<and> run_pass os sq inp t = Some (Inr (), t') \<and>
        tr = tr0 @ in_between inp @ in_during inp @ es \<and> s = handle_events es t' \<and>
        sv_state (before inp t) = Archive \<and> enumerateLogs (sv_dl (before inp t)) = Some (sv_logs s, w) \<and>
        archived_in_turn os sq final (sv_logs s) ((sv_arch (before inp t))\<lparr>a_dl := w\<rparr>) \<and>
        digests final \<subseteq> digests (sv_arch s))"

lemma handle_events_snoc: "\<not> sv_ended (handle_events es s) \<Longrightarrow> handle_events (es @ [e]) s = handle_event e (handle_events es s)"
  by (simp add: handle_events_def)

lemma handle_events_ended: "sv_ended s \<Longrightarrow> handle_events es s = s"
  by (induction es) (simp_all add: handle_events_def)

lemma drain_ended: "sv_ended (drain_commands s) = sv_ended s"
proof (induction s rule: drain_commands.induct)
  case (1 s)
  have "sv_ended (process_command c s) = sv_ended s" for c s
    by (cases c) (simp_all add: setState_def upd_dl_def)
  with 1 show ?case by (subst drain_commands.simps) (auto split: option.split)
qed

lemma before_ended: "sv_ended s \<Longrightarrow> sv_ended (before inp s)"
  by (simp add: before_def drainCompanionCommands_def drain_ended handle_events_ended)

lemma cycle_of_run_event:
  assumes "cycle_of_run os sq s0 tr s" and "\<not> sv_ended s"
  shows "cycle_of_run os sq s0 (tr @ [e]) (handle_event e s)"
proof -
  from assms(1) obtain tr0 t inp t' es w final where c: "svc_run os sq s0 tr0 t" "run_pass os sq inp t = Some (Inr (), t')"
    "tr = tr0 @ in_between inp @ in_during inp @ es" "s = handle_events es t'"
    "sv_state (before inp t) = Archive" "enumerateLogs (sv_dl (before inp t)) = Some (sv_logs s, w)"
    "archived_in_turn os sq final (sv_logs s) ((sv_arch (before inp t))\<lparr>a_dl := w\<rparr>)"
    "digests final \<subseteq> digests (sv_arch s)"
    unfolding cycle_of_run_def by blast
  have "tr @ [e] = tr0 @ in_between inp @ in_during inp @ (es @ [e])"
    "handle_event e s = handle_events (es @ [e]) t'"
    using c(3,4) assms(2) handle_events_snoc [of es t' e] by simp_all
  moreover have "sv_logs (handle_event e s) = sv_logs s" "digests (sv_arch s) \<subseteq> digests (sv_arch (handle_event e s))"
    using same_cycle_events(1) [of s e] by (simp_all add: same_cycle_def)
  ultimately show ?thesis
    unfolding cycle_of_run_def using c(1,2,5-8) by (metis order_trans)
qed

lemma cycle_of_run_pass:
  assumes "svc_run os sq s0 tr s" and "run_pass os sq inp s = Some (Inr (), s')" and "sv_state s' = EraseAll"
  shows "sv_ended s' \<or> cycle_of_run os sq s0 (tr @ in_between inp @ in_during inp) s'"
  using assms(2)
proof (cases rule: pass_cases)
  case ended
  then show ?thesis by simp
next
  case processed
  let ?m = "before inp s"
  have st: "sv_state ?m = Archive"
  proof (rule ccontr)
    assume "sv_state ?m \<noteq> Archive"
    then consider "sv_state ?m = EraseAll" | "sv_state ?m = ManualErase"
      | "sv_state ?m \<notin> {Archive, EraseAll, ManualErase}" by blast
    then show False
    proof cases
      case 1
      with processed(2) assms(3) show False
        by (auto simp: processState_def process_eraseAll_def sdo_def setState_def elim!: sbnd_SomeE split: if_splits)
    next
      case 2
      with processed(2) assms(3) show False
        by (auto simp: processState_def process_manualErase_def sdo_def setState_def returnToIdleState_def
            elim!: sbnd_SomeE split: if_splits)
    next
      case 3
      with quiet.process_frame [OF processed(2)] assms(3) show False by (auto simp: quiet_def)
    qed
  qed
  with processed(2) have "process_archive os sq inp ?m = Some (Inr (), s')" by (simp add: processState_def)
  then show ?thesis
  proof (cases rule: archive_cases)
    case (returned logs w a r t)
    with assms(3) have all: "all_archived r" by (auto simp: setState_def split: if_splits)
    from archiveAll_archived [OF returned(2) all] obtain b where
      b: "archived_in_turn os sq b logs ((sv_arch ?m)\<lparr>a_dl := w\<rparr>)" "a = guard_exit b" by blast
    have "same_cycle t (handle_events (in_during inp) t)" by (rule same_cycle_events)
    then have "sv_logs s' = logs" "digests b \<subseteq> digests (sv_arch s')"
      using returned(3,4) b(2)
      by (auto simp: same_cycle_def setState_def cacheEnumerationResult_def digests_def guard_exit_def)
    moreover have "s' = handle_events [] s'" by (simp add: handle_events_def)
    ultimately show ?thesis
      unfolding cycle_of_run_def using assms(1,2) st returned(6) b(1)
      by (metis append_Nil2)
  qed simp
qed

lemma run_cycle:
  "svc_run os sq s0 tr s \<Longrightarrow> sv_state s0 = Boot \<Longrightarrow> sv_state s = EraseAll \<Longrightarrow> sv_ended s \<or> cycle_of_run os sq s0 tr s"
proof (induction rule: svc_run.induct)
  case (started s)
  from quiet.start_frame [OF started(1)] started(2,3) show ?case by (auto simp: quiet_def)
next
  case (event tr s e)
  have "sv_state s = EraseAll" using same_cycle_events(1) [of s e] event.prems(2) by (simp add: same_cycle_def)
  with event cycle_of_run_event show ?case by blast
next
  case (pass tr s inp s')
  then show ?case using cycle_of_run_pass by blast
qed simp_all

text \<open>Why a pass erases the flight controller.\<close>

lemma erase_cause:
  assumes "svc_run os sq (DroneLogService_new cfg ts fs db) tr s"
    and "run_pass os sq inp s = Some (x, s')" and "erases s s'"
  shows "list_ex is_erase_request (tr @ in_between inp) \<or>
    (erase_after_success (download cfg) \<and> sv_logs s \<noteq> [] \<and> \<not> cancelled (sv_dl (before inp s)) \<and>
     cycle_of_run os sq (DroneLogService_new cfg ts fs db) tr s)"
proof -
  let ?s0 = "DroneLogService_new cfg ts fs db" and ?m = "before inp s"
  have same: "same_cycle s ?m" by (rule same_cycle_before)
  have eq: "sent (sv_dl ?m) = sent (sv_dl s)" using same by (simp add: same_cycle_def)
  from assms(2) have st: "sv_state ?m = ManualErase \<or>
      sv_state ?m = EraseAll \<and> \<not> cancelled (sv_dl ?m) \<and> \<not> sv_ended ?m"
  proof (cases rule: pass_cases)
    case ended
    with assms(3) eq show ?thesis by (simp add: erases_def)
  next
    case processed
    from process_erases [OF processed(2)] processed(1) assms(3) eq show ?thesis by (simp add: erases_def)
  qed
  then show ?thesis
  proof
    assume "sv_state ?m = ManualErase"
    then have "erase_wanted ?m" by (simp add: erase_wanted_def)
    moreover have "wanted_frame (tr @ in_between inp) ?s0 ?m"
      using wanted.R_trans [OF wanted.frame_of_run [OF assms(1)] wanted.before_process] by (simp add: before_def)
    ultimately show ?thesis by (simp add: wanted_frame_def erase_wanted_def DroneLogService_new_def)
  next
    assume e: "sv_state ?m = EraseAll \<and> \<not> cancelled (sv_dl ?m) \<and> \<not> sv_ended ?m"
    have "erase_justified os sq ?m"
      using run_justified [OF assms(1)] erase_justified_same [OF same] by (simp add: DroneLogService_new_def)
    with e have c: "archived_cycle os sq ?m" by (simp add: erase_justified_def)
    have "sv_config s = cfg"
      using catalog.frame_of_run [OF assms(1)] by (simp add: catalog_frame_def DroneLogService_new_def)
    moreover have "sv_state s = EraseAll" using same e by (simp add: same_cycle_def)
    with run_cycle [OF assms(1)] e before_ended have "cycle_of_run os sq ?s0 tr s"
      by (auto simp: DroneLogService_new_def)
    ultimately show ?thesis
      using e c same by (auto simp: archived_cycle_def same_cycle_def)
  qed
qed

section \<open>Properties\<close>

text \<open>
  (C1) The flight controller is erased only on request or after everything was archived: in any run
  of the service, when a pass of the main loop sends LOG_ERASE, then an erase was requested earlier over
  the companion API, or \<^verbatim>\<open>erase_after_success\<close> is set, the cached list of logs is not empty, the cycle
  is not cancelled when the main loop looks at its state, and the last pass of this run before it was
  an archive cycle: it enumerated exactly the cached logs, and called \<open>archiveOne\<close> on them in order,
  each from the state the one before left, with the result \<open>Downloaded\<close> or \<open>SkippedDuplicate\<close> and a row of
  the log's id and size in the catalog; every digest catalogued then is still in the catalog.
\<close>

theorem erase_only_after_archiving:
  assumes "svc_run os sq (DroneLogService_new cfg ts fs db) tr s"
    and "run_pass os sq inp s = Some (x, s')" and "erases s s'"
  shows "list_ex is_erase_request (tr @ in_between inp) \<or>
    (erase_after_success (download cfg) \<and> sv_logs s \<noteq> [] \<and> \<not> cancelled (sv_dl (before inp s)) \<and>
     cycle_of_run os sq (DroneLogService_new cfg ts fs db) tr s)"
  using assms by (rule erase_cause)

text \<open>A run up to a requested erase.\<close>

definition ex_service :: service where
  "ex_service = DroneLogService_new Config_default [] \<lparr>fs_files = [], fs_dirs = []\<rparr> Database_new"

definition ex_inp :: pass_input where
  "ex_inp = \<lparr>in_between = [], in_connect_ok = True, in_during = []\<rparr>"

definition ex_trace :: "service_event list" where
  "ex_trace = [Ev_request EraseAll_job [] False]"

lemmas service_exec = run_pass_def processState_def drainCompanionCommands_def queue_empty_def queue_pop_def
  queue_push_def drain_commands.simps handle_events_def ex_inp_def sdo_def sget_def at_once_def lift_io_def
  sbnd_def dl_call_def setState_def upd_dl_def

lemma ex_start:
  "\<exists>s. run_start ex_os ex_sqlite ex_service = Some (Inr (), s) \<and> \<not> sv_ended s \<and> sv_running s \<and>
    sv_state s = Boot \<and> sv_commands s = [] \<and> sv_dl s = (LogDownloader_new DownloadSettings_default [])\<lparr>connected := False, rx_joinable := False\<rparr>"
  by (simp add: run_start_def lift_io_def sbnd_def st_call_def db_call_def initialize_def create_directories_def
      cleanupPartials_def database_open_def sqlite_call_def ex_sqlite_def ex_os_def ex_service_def
      DroneLogService_new_def Config_default_def StorageManager_new_def fs_exists_def numeral_3_eq_3)

lemma ex_started: "\<exists>s. svc_run ex_os ex_sqlite ex_service [] s \<and> \<not> sv_ended s \<and> sv_running s \<and>
    sv_state s = Boot \<and> sv_commands s = [] \<and> sv_dl s = (LogDownloader_new DownloadSettings_default [])\<lparr>connected := False, rx_joinable := False\<rparr>"
  using ex_start by (blast intro: svc_run.started)

lemma ex_passes:
  "\<exists>s s1 s2. run_start ex_os ex_sqlite ex_service = Some (Inr (), s) \<and>
     run_pass ex_os ex_sqlite ex_inp s = Some (Inr (), s1) \<and> run_pass ex_os ex_sqlite ex_inp s1 = Some (Inr (), s2) \<and>
     list_all (\<lambda>s. \<not> sv_ended s \<and> sv_running s) [s, s1, s2] \<and> sv_state s2 = WaitHeartbeat \<and> sv_commands s2 = [] \<and>
     sv_dl s2 = LogDownloader_new DownloadSettings_default []"
proof -
  obtain s where s: "run_start ex_os ex_sqlite ex_service = Some (Inr (), s)" "\<not> sv_ended s" "sv_running s" "sv_state s = Boot"
    "sv_commands s = []" "sv_dl s = (LogDownloader_new DownloadSettings_default [])\<lparr>connected := False, rx_joinable := False\<rparr>"
    using ex_start by blast
  let ?s1 = "setState Connect s"
  have p1: "run_pass ex_os ex_sqlite ex_inp s = Some (Inr (), ?s1)"
    using s by (simp add: service_exec)
  let ?s2 = "setState WaitHeartbeat (upd_dl (\<lambda>_. LogDownloader_new DownloadSettings_default []) (?s1\<lparr>sv_logs_stale := True\<rparr>))"
  have "(LogDownloader_new DownloadSettings_default [])\<lparr>connected := True, rx_joinable := True\<rparr> = LogDownloader_new DownloadSettings_default []"
    by (simp add: LogDownloader_new_def)
  then have "reconnect True (sv_dl s) = Some (True, LogDownloader_new DownloadSettings_default [])"
    using s(6) by (simp add: reconnect_def client_connect_def client_disconnect_def waitForHeartbeat_def
        wait_heartbeat.simps LogDownloader_new_def)
  then have p2: "run_pass ex_os ex_sqlite ex_inp ?s1 = Some (Inr (), ?s2)"
    using s by (simp add: service_exec process_connect_def)
  show ?thesis
    by (intro exI [of _ s] exI [of _ ?s1] exI [of _ ?s2] conjI p1 p2 s(1)) (use s(2-5) in \<open>simp_all add: setState_def upd_dl_def\<close>)
qed

text \<open>A queued erase is carried out by the next pass.\<close>

lemma ex_erase_pass:
  assumes "\<not> sv_ended s" and "sv_commands s = []" and "sv_dl s = LogDownloader_new DownloadSettings_default []"
  shows "\<exists>s'. run_pass ex_os ex_sqlite ex_inp (push_command EraseAllLogsCommand s) = Some (Inr (), s') \<and>
    erases (push_command EraseAllLogsCommand s) s'"
  using assms
  by (simp add: service_exec push_command_def process_manualErase_def eraseFlightControllerLogs_def bnd_def ret_def db_call_def
      sendMessage_def markAllErased_def sqlite_call_def ex_sqlite_def resetCancel_def cacheEnumerationResult_def
      returnToIdleState_def erases_def LogDownloader_new_def)

lemma ex_erase_request:
  assumes "sv_state s = WaitHeartbeat" and "sv_dl s = LogDownloader_new DownloadSettings_default []"
  shows "requestCompanionJob EraseAll_job [] False s = (JobOutcome_new\<lparr>job_result := Accepted\<rparr>, push_command EraseAllLogsCommand s)"
  using assms by (simp add: requestCompanionJob_def request_erase_def isArchiveBusy_def LogDownloader_new_def Let_def)

lemma ex_erases:
  "\<exists>s s'. svc_run ex_os ex_sqlite ex_service ex_trace s \<and> run_pass ex_os ex_sqlite ex_inp s = Some (Inr (), s') \<and> erases s s'"
proof -
  obtain s s1 s2 where s: "run_start ex_os ex_sqlite ex_service = Some (Inr (), s)"
    "run_pass ex_os ex_sqlite ex_inp s = Some (Inr (), s1)" "run_pass ex_os ex_sqlite ex_inp s1 = Some (Inr (), s2)"
    "list_all (\<lambda>s. \<not> sv_ended s \<and> sv_running s) [s, s1, s2]"
    and s2: "sv_state s2 = WaitHeartbeat" "sv_commands s2 = []" "sv_dl s2 = LogDownloader_new DownloadSettings_default []"
    using ex_passes by blast
  have "svc_run ex_os ex_sqlite ex_service [] s1"
    using svc_run.pass [OF svc_run.started [OF s(1)] _ _ s(2)] s(4) by (simp add: ex_inp_def)
  from svc_run.pass [OF this _ _ s(3)] s(4) have "svc_run ex_os ex_sqlite ex_service [] s2" by (simp add: ex_inp_def)
  from svc_run.event [OF this, of "Ev_request EraseAll_job [] False"] s(4) ex_erase_request [OF s2(1,3)]
  have "svc_run ex_os ex_sqlite ex_service ex_trace (push_command EraseAllLogsCommand s2)" by (simp add: ex_trace_def)
  with ex_erase_pass [OF _ s2(2,3)] s(4) show ?thesis by auto
qed

theorem erase_only_after_archiving_witness:
  "\<exists>s x s'. svc_run ex_os ex_sqlite ex_service ex_trace s \<and> run_pass ex_os ex_sqlite ex_inp s = Some (x, s') \<and>
     erases s s' \<and> list_ex is_erase_request ex_trace"
proof -
  obtain s s' where s: "svc_run ex_os ex_sqlite ex_service ex_trace s" and p: "run_pass ex_os ex_sqlite ex_inp s = Some (Inr (), s')"
    and e: "erases s s'"
    using ex_erases by blast
  from erase_only_after_archiving [OF s [unfolded ex_service_def] p e] s p e show ?thesis
    by (auto simp: ex_trace_def)
qed

text \<open>
  (C27) The service stays well-formed: at any time of any run, also after an exception, the settings of
  the downloader are those of the configuration file, the cached list of logs is in strictly
  ascending order of id, and every digest the catalog had at the start is still in it.
\<close>

theorem service_well_formed:
  assumes "svc_run os sq (DroneLogService_new cfg ts fs db) tr s"
  shows "sv_config s = cfg \<and> settings (sv_dl s) = download cfg \<and> sorted_wrt (<) (map le_id (sv_logs s)) \<and>
    ar_sha256 ` set (archived_logs db) \<subseteq> digests (sv_arch s)"
  using catalog.frame_of_run [OF assms]
  by (simp add: catalog_frame_def DroneLogService_new_def LogDownloader_new_def logs_sorted_def digests_def)

theorem service_well_formed_witness:
  "\<exists>s. svc_run ex_os ex_sqlite ex_service ex_trace s \<and> settings (sv_dl s) = DownloadSettings_default"
proof -
  obtain s where s: "svc_run ex_os ex_sqlite ex_service ex_trace s" using ex_erases by blast
  from service_well_formed [OF s [unfolded ex_service_def]] s show ?thesis
    by (auto simp: Config_default_def)
qed

text \<open>When a job is accepted and the command that is queued for it.\<close>

definition job_accepted :: "CompanionJobKind \<Rightarrow> u16 list \<Rightarrow> bool \<Rightarrow> service \<Rightarrow> bool" where
  "job_accepted kind ids all s \<longleftrightarrow> connected (sv_dl s) \<and>
     (kind = EraseAll_job \<or>
      (\<not> isArchiveBusy (sv_state s) \<and> \<not> fm_armed (sv_monitor s) \<and>
       (kind \<noteq> Download_job \<or> all \<or> list_ex (known_id s) ids)))"

definition job_command :: "CompanionJobKind \<Rightarrow> u16 list \<Rightarrow> bool \<Rightarrow> service \<Rightarrow> CompanionCommand" where
  "job_command kind ids all s =
     (case kind of
        Archive_job \<Rightarrow> StartArchiveCommand
      | Refresh_job \<Rightarrow> RefreshLogsCommand
      | Download_job \<Rightarrow> DownloadLogsCommand (if all then [] else filter (known_id s) ids) all
      | EraseAll_job \<Rightarrow> EraseAllLogsCommand)"

lemma filter_Nil_list_ex: "filter P xs = [] \<longleftrightarrow> \<not> list_ex P xs"
  by (induction xs) auto

text \<open>
  (C29) The answer to a job request says what happens: \<open>requestCompanionJob\<close> answers \<open>Accepted\<close> exactly
  when the link is up and the job is an erase, or the service is idle, the vehicle disarmed and the
  selection not empty; it queues exactly one command, that of the job, when it accepts and none
  otherwise; it never changes the state of the service, and it requests cancellation exactly when
  an accepted erase overrides a running job.
\<close>

theorem job_request_exact:
  "(job_result (fst (requestCompanionJob kind ids all s)) = Accepted \<longleftrightarrow> job_accepted kind ids all s) \<and>
   sv_commands (snd (requestCompanionJob kind ids all s)) =
     sv_commands s @ (if job_accepted kind ids all s then [job_command kind ids all s] else []) \<and>
   sv_state (snd (requestCompanionJob kind ids all s)) = sv_state s \<and>
   cancel_requested (sv_dl (snd (requestCompanionJob kind ids all s))) =
     (cancel_requested (sv_dl s) \<or> kind = EraseAll_job \<and> connected (sv_dl s) \<and> isArchiveBusy (sv_state s))"
  by (cases kind)
     (auto simp: requestCompanionJob_def request_erase_def request_download_def push_command_def queue_push_def
       upd_dl_def requestCancel_def JobOutcome_new_def job_accepted_def job_command_def filter_Nil_list_ex Let_def)

text \<open>
  While a command waits in the queue the service does not count as busy: a second request is
  accepted and queued as well.
\<close>

lemma second_request_is_queued_too:
  assumes "job_accepted Archive_job [] False s" and "job_accepted Refresh_job [] False s"
  shows "sv_commands (snd (requestCompanionJob Refresh_job [] False (snd (requestCompanionJob Archive_job [] False s))))
    = sv_commands s @ [StartArchiveCommand, RefreshLogsCommand]"
  using assms
  by (simp add: requestCompanionJob_def job_accepted_def push_command_def queue_push_def)

text \<open>
  Arming during the delay after a disarm does not stop the cycle: a pass of the main loop that
  finds the delay over clears the cancellation that the arm event had requested and enters
  \<open>Enumerate\<close>, although the vehicle is armed.
\<close>

theorem arming_in_delay_is_dropped:
  assumes "sv_state s = Delay" and "sv_commands s = []" and "fm_armed (sv_monitor s)"
    and "delay_after_disarm_sec (download (sv_config s)) * 1000 \<le> int (clock (sv_dl s)) - int (sv_disarm_time s)"
    and "in_between inp = []" and "in_during inp = []" and "\<not> sv_ended s"
  shows "cancelled (sv_dl (onFlightEvent VehicleArmed s)) \<and>
    (\<exists>s'. run_pass os sq inp (onFlightEvent VehicleArmed s) = Some (Inr (), s') \<and>
       sv_state s' = Enumerate \<and> \<not> cancelled (sv_dl s') \<and> fm_armed (sv_monitor s'))"
  using assms
  by (simp add: service_exec process_delay_def isArchiveBusy_def requestCancel_def resetCancel_def cancelled_def)

definition ex_delay :: service where
  "ex_delay = (upd_dl (\<lambda>w. w\<lparr>clock := 5001\<rparr>) ex_service)\<lparr>sv_state := Delay, sv_disarm_time := 1,
     sv_monitor := FlightMonitor_new\<lparr>fm_armed := True\<rparr>\<rparr>"

theorem arming_in_delay_is_dropped_witness:
  "\<exists>s'. run_pass ex_os ex_sqlite ex_inp (onFlightEvent VehicleArmed ex_delay) = Some (Inr (), s') \<and>
     sv_state s' = Enumerate \<and> fm_armed (sv_monitor s')"
proof -
  have h: "sv_state ex_delay = Delay" "sv_commands ex_delay = []" "fm_armed (sv_monitor ex_delay)" "\<not> sv_ended ex_delay"
    "delay_after_disarm_sec (download (sv_config ex_delay)) * 1000 \<le> int (clock (sv_dl ex_delay)) - int (sv_disarm_time ex_delay)"
    by (simp_all add: ex_delay_def ex_service_def DroneLogService_new_def upd_dl_def Config_default_def
        DownloadSettings_default_def)
  from arming_in_delay_is_dropped [of ex_delay ex_inp ex_os ex_sqlite, OF h(1-3,5) _ _ h(4)] show ?thesis
    by (auto simp: ex_inp_def)
qed

text \<open>
  (C40) A link timeout noticed on the RX thread ends the process: when a message other than a heartbeat
  is handled, on the joinable RX thread, longer than \<^verbatim>\<open>heartbeat_timeout_sec\<close> after its arrival was stamped,
  while the service is in \<open>WaitArm\<close>, \<open>WaitDisarm\<close> or \<open>Cleanup\<close> and the monitor has not yet reported the
  loss, \<^verbatim>\<open>client_.disconnect()\<close> joins the thread it runs on, so that the process ends and \<open>ConnectionLost\<close>
  is not entered.
\<close>

theorem rx_timeout_ends_process:
  assumes "heartbeat_timeout_sec (transport (sv_config s)) * 1000 < int age" and "rx_joinable (sv_dl s)"
    and "\<not> fm_link_lost (sv_monitor s)" and "sv_state s = WaitArm \<or> sv_state s = WaitDisarm \<or> sv_state s = Cleanup"
  shows "sv_ended (handleParsedMessage (Rx_log m) age s) \<and> \<not> connected (sv_dl (handleParsedMessage (Rx_log m) age s)) \<and>
    sv_state (handleParsedMessage (Rx_log m) age s) = sv_state s"
proof -
  have f: "heartbeatFresh (onMessage m w) = heartbeatFresh w" "rx_joinable (onMessage m w) = rx_joinable w" for w
    by (cases m; simp add: trimDataChunkQueue_def Let_def split: prod.split)+
  show ?thesis
    using assms
    by (auto simp: handleParsedMessage_def onMavlinkMessage_def mav_in_of_def monitor_call_def onLinkTimeout_def
        upd_dl_def f handleConnectionLost_def disconnect_on_def isArchiveBusy_def Let_def)
qed

theorem rx_timeout_ends_process_witness:
  "sv_ended (handleParsedMessage (Rx_log (OTHER 30)) 5001
     (upd_dl (\<lambda>w. snd (client_connect True w)) (ex_service\<lparr>sv_state := WaitArm\<rparr>)))"
  using rx_timeout_ends_process [of "upd_dl (\<lambda>w. snd (client_connect True w)) (ex_service\<lparr>sv_state := WaitArm\<rparr>)" 5001 "OTHER 30"]
  by (simp add: ex_service_def DroneLogService_new_def Config_default_def FlightMonitor_new_def client_connect_def
      upd_dl_def Let_def)

text \<open>
  (C28) A disarm starts an archive cycle: when the vehicle the monitor follows disarms while the service
  waits for it, the service enters \<open>Delay\<close>, and once \<^verbatim>\<open>delay_after_disarm_sec\<close> have passed, two passes
  of the main loop bring it to \<open>Archive\<close> with the pending request and any cancellation cleared.
\<close>

theorem disarm_starts_cycle:
  assumes "tracks (heartbeat_of i c t a mode) True (sv_monitor s)" and "\<not> fm_link_lost (sv_monitor s)" and "mode AND 128 = 0"
    and "sv_state s = WaitDisarm" and "sv_commands s = []" and "\<not> sv_ended s" and "in_between inp = []" and "in_during inp = []"
    and "int age \<le> heartbeat_timeout_sec (transport (sv_config s)) * 1000"
    and "delay_after_disarm_sec (download (sv_config s)) * 1000 \<le> int n"
  shows "sv_state (handleParsedMessage (Rx_heartbeat i c t a mode) age s) = Delay \<and>
    (\<exists>s1 s2. run_pass os sq inp (upd_dl (\<lambda>w. w\<lparr>clock := clock w + n\<rparr>) (handleParsedMessage (Rx_heartbeat i c t a mode) age s))
        = Some (Inr (), s1) \<and> run_pass os sq inp s1 = Some (Inr (), s2) \<and>
        sv_state s2 = Archive \<and> \<not> sv_archive_requested s2 \<and> \<not> cancelled (sv_dl s2))"
proof -
  have "onHeartbeat (heartbeat_of i c t a mode) (sv_monitor s) = ([VehicleDisarmed], (sv_monitor s)\<lparr>fm_armed := False\<rparr>)"
    using assms(1-3) by (simp add: tracks_def fm_defs heartbeat_of_def)
  then have "handleParsedMessage (Rx_heartbeat i c t a mode) age s =
      (upd_dl (\<lambda>w. w\<lparr>clock := clock w + age, heartbeatFresh := True\<rparr>) s)
        \<lparr>sv_monitor := (sv_monitor s)\<lparr>fm_armed := False\<rparr>, sv_disarm_time := clock (sv_dl s) + age,
         sv_archive_requested := True, sv_state := Delay\<rparr>"
    using assms(4,9)
    by (simp add: handleParsedMessage_def onMavlinkMessage_def mav_in_of_def monitor_call_def upd_dl_def
        setState_def Let_def)
  with assms(5-8,10) show ?thesis
    by (simp add: service_exec process_delay_def resetCancel_def cancelled_def)
qed

definition ex_flying :: service where
  "ex_flying = ex_service\<lparr>sv_state := WaitDisarm, sv_monitor := snd (onHeartbeat (ex_vehicle 1 True) FlightMonitor_new)\<rparr>"

theorem disarm_starts_cycle_witness:
  "sv_state (handleParsedMessage (Rx_heartbeat 1 1 2 3 0) 0 ex_flying) = Delay"
proof -
  have "tracks (heartbeat_of 1 1 2 3 0) True (sv_monitor ex_flying)" "\<not> fm_link_lost (sv_monitor ex_flying)"
    "(0 :: u8) AND 128 = 0" "sv_state ex_flying = WaitDisarm" "sv_commands ex_flying = []" "\<not> sv_ended ex_flying"
    "in_between ex_inp = []" "in_during ex_inp = []"
    "int 0 \<le> heartbeat_timeout_sec (transport (sv_config ex_flying)) * 1000"
    "delay_after_disarm_sec (download (sv_config ex_flying)) * 1000 \<le> int 5000"
    by (simp_all add: ex_flying_def ex_service_def DroneLogService_new_def Config_default_def DownloadSettings_default_def
        tracks_def fm_defs FlightMonitor_new_def ex_vehicle_def heartbeat_of_def ex_inp_def)
  from disarm_starts_cycle [OF this] show ?thesis by blast
qed

end
