(* ===== verification/Transport.thy ===== *)
theory Transport
  imports Types Strings
begin

text \<open>
  The byte transports under the MAVLink client: \<^verbatim>\<open>TcpTransport\<close>, \<^verbatim>\<open>UdpTransport\<close>, \<^verbatim>\<open>createTransport\<close> and the
  receive loop of \<^verbatim>\<open>MavlinkClient\<close>. The socket calls are the parameter \<open>net\<close>; what arrives at a socket
  is a list of results of \<^verbatim>\<open>recv\<close>, and a call that finds the list empty is still waiting (\<open>None\<close>).
  Both transports are proved to meet one contract, on which the property of the receive loop rests.
\<close>

section \<open>Sockets\<close>

text \<open>
  \<open>net_resolve\<close> is \<^verbatim>\<open>getaddrinfo\<close> on host and port, \<open>net_socket\<close> the descriptor of a new socket or -1, and
  \<open>net_connect\<close> and \<open>net_bind\<close> tell whether these calls succeed for an address.
\<close>

type_synonym addr = nat

record net =
  net_resolve :: "string \<Rightarrow> string \<Rightarrow> addr list option"
  net_socket :: "addr \<Rightarrow> int"
  net_connect :: "addr \<Rightarrow> bool"
  net_bind :: "addr \<Rightarrow> bool"

definition kInvalidSocket :: int where
  "kInvalidSocket = -1"

definition closeSocket :: "int \<Rightarrow> int list \<Rightarrow> int list" where
  "closeSocket fd fds = remove1 fd fds"

definition int_to_string :: "int \<Rightarrow> string" where
  "int_to_string i = (if i < 0 then ''-'' @ to_string (nat (- i)) else to_string (nat i))"

section \<open>TCP\<close>

text \<open>
  \<open>tt_open\<close> lists the descriptors that were opened and not closed. A result of \<^verbatim>\<open>recv\<close> is a byte, or
  \<open>None\<close> for an error or the end of the stream.
\<close>

record TcpTransport =
  tt_host :: string
  tt_port :: int
  tt_socket_fd :: int
  tt_connected :: bool
  tt_open :: "int list"
  tt_input :: "u8 option list"

definition TcpTransport_new :: "string \<Rightarrow> int \<Rightarrow> TcpTransport" where
  "TcpTransport_new h p =
     \<lparr>tt_host = h, tt_port = p, tt_socket_fd = -1, tt_connected = False, tt_open = [], tt_input = []\<rparr>"

definition tcp_disconnect :: "TcpTransport \<Rightarrow> TcpTransport" where
  "tcp_disconnect t =
     (let t = t\<lparr>tt_connected := False\<rparr> in
      if tt_socket_fd t \<noteq> -1
      then t\<lparr>tt_open := closeSocket (tt_socket_fd t) (tt_open t), tt_socket_fd := -1\<rparr> else t)"

fun connect_loop :: "net \<Rightarrow> addr list \<Rightarrow> int list \<Rightarrow> int \<times> int list" where
  "connect_loop net [] fds = (kInvalidSocket, fds)"
| "connect_loop net (rp # rps) fds =
     (let fd = net_socket net rp in
      if fd = kInvalidSocket then connect_loop net rps fds
      else if net_connect net rp then (fd, fd # fds)
      else connect_loop net rps (closeSocket fd (fd # fds)))"

text \<open>After a connect the input is that of the new connection.\<close>

definition tcp_connect :: "net \<Rightarrow> u8 option list \<Rightarrow> TcpTransport \<Rightarrow> bool \<times> TcpTransport" where
  "tcp_connect net input t =
     (let t = tcp_disconnect t in
      case net_resolve net (tt_host t) (int_to_string (tt_port t)) of
        None \<Rightarrow> (False, t)
      | Some result \<Rightarrow>
          (case connect_loop net result (tt_open t) of (fd, fds) \<Rightarrow>
             let t = t\<lparr>tt_open := fds\<rparr> in
             if fd = kInvalidSocket then (False, t)
             else (True, t\<lparr>tt_socket_fd := fd, tt_connected := True, tt_input := input\<rparr>)))"

definition tcp_send :: "(int \<Rightarrow> bytes \<Rightarrow> int) \<Rightarrow> bytes \<Rightarrow> TcpTransport \<Rightarrow> bool" where
  "tcp_send send_call data t =
     (if \<not> tt_connected t \<or> tt_socket_fd t = -1 then False
      else send_call (tt_socket_fd t) data = int (length data))"

definition tcp_readByte :: "TcpTransport \<Rightarrow> (u8 option \<times> TcpTransport) option" where
  "tcp_readByte t =
     (if \<not> tt_connected t \<or> tt_socket_fd t = -1 then Some (None, t)
      else case tt_input t of
        [] \<Rightarrow> None
      | None # rs \<Rightarrow> Some (None, t\<lparr>tt_input := rs, tt_connected := False\<rparr>)
      | Some b # rs \<Rightarrow> Some (Some b, t\<lparr>tt_input := rs\<rparr>))"

definition tcp_describe :: "TcpTransport \<Rightarrow> string" where
  "tcp_describe t = tt_host t @ '':'' @ int_to_string (tt_port t)"

section \<open>UDP\<close>

text \<open>
  A result of \<^verbatim>\<open>recvfrom\<close> is a datagram, cut to the size of the buffer, or \<open>None\<close> for an error. The
  buffer is the list of its first \<^verbatim>\<open>rx_buffer_len_\<close> bytes.
\<close>

definition kMaxDatagramSize :: nat where
  "kMaxDatagramSize = 2048"

record UdpTransport =
  ut_host :: string
  ut_port :: int
  ut_bind_host :: string
  ut_bind_port :: int
  ut_socket_fd :: int
  ut_connected :: bool
  ut_remote_resolved :: bool
  ut_rx_buffer :: bytes
  ut_rx_buffer_pos :: nat
  ut_open :: "int list"
  ut_input :: "bytes option list"

definition UdpTransport_new :: "string \<Rightarrow> int \<Rightarrow> string \<Rightarrow> int \<Rightarrow> UdpTransport" where
  "UdpTransport_new h p bh bp =
     \<lparr>ut_host = h, ut_port = p, ut_bind_host = bh, ut_bind_port = bp, ut_socket_fd = -1, ut_connected = False,
      ut_remote_resolved = False, ut_rx_buffer = [], ut_rx_buffer_pos = 0, ut_open = [], ut_input = []\<rparr>"

definition udp_disconnect :: "UdpTransport \<Rightarrow> UdpTransport" where
  "udp_disconnect t =
     (let t = t\<lparr>ut_connected := False, ut_remote_resolved := False, ut_rx_buffer := [], ut_rx_buffer_pos := 0\<rparr> in
      if ut_socket_fd t \<noteq> -1
      then t\<lparr>ut_open := closeSocket (ut_socket_fd t) (ut_open t), ut_socket_fd := -1\<rparr> else t)"

text \<open>Binding the local address; the flag tells whether \<^verbatim>\<open>connect\<close> goes on.\<close>

definition udp_bind :: "net \<Rightarrow> UdpTransport \<Rightarrow> bool" where
  "udp_bind net t =
     (if ut_bind_host t = '''' then True
      else case net_resolve net (ut_bind_host t)
          (if 0 < ut_bind_port t then int_to_string (ut_bind_port t) else ''0'') of
        None \<Rightarrow> False
      | Some bind_result \<Rightarrow> net_bind net (hd bind_result))"

definition udp_connect :: "net \<Rightarrow> bytes option list \<Rightarrow> UdpTransport \<Rightarrow> bool \<times> UdpTransport" where
  "udp_connect net input t =
     (let t = udp_disconnect t in
      case net_resolve net (ut_host t) (int_to_string (ut_port t)) of
        None \<Rightarrow> (False, t)
      | Some remote_result \<Rightarrow>
          let fd = net_socket net (hd remote_result) in
          if fd = kInvalidSocket then (False, t)
          else
            let t = t\<lparr>ut_remote_resolved := True, ut_open := fd # ut_open t\<rparr> in
            if \<not> udp_bind net t then (False, t\<lparr>ut_open := closeSocket fd (ut_open t)\<rparr>)
            else (True, t\<lparr>ut_rx_buffer := [], ut_rx_buffer_pos := 0, ut_socket_fd := fd, ut_connected := True,
                         ut_input := input\<rparr>))"

definition udp_send :: "(int \<Rightarrow> bytes \<Rightarrow> int) \<Rightarrow> bytes \<Rightarrow> UdpTransport \<Rightarrow> bool" where
  "udp_send sendto_call data t =
     (if \<not> ut_connected t \<or> ut_socket_fd t = -1 \<or> \<not> ut_remote_resolved t then False
      else sendto_call (ut_socket_fd t) data = int (length data))"

definition refillRxBuffer :: "UdpTransport \<Rightarrow> (bool \<times> UdpTransport) option" where
  "refillRxBuffer t =
     (case ut_input t of
        [] \<Rightarrow> None
      | r # rs \<Rightarrow>
          let t = t\<lparr>ut_input := rs\<rparr> in
          case r of
            None \<Rightarrow> Some (False, t\<lparr>ut_connected := False\<rparr>)
          | Some d \<Rightarrow>
              if d = [] then Some (False, t\<lparr>ut_connected := False\<rparr>)
              else Some (True, t\<lparr>ut_rx_buffer := take kMaxDatagramSize d, ut_rx_buffer_pos := 0\<rparr>))"

definition buffered_byte :: "UdpTransport \<Rightarrow> u8 option \<times> UdpTransport" where
  "buffered_byte t =
     (Some (ut_rx_buffer t ! ut_rx_buffer_pos t), t\<lparr>ut_rx_buffer_pos := ut_rx_buffer_pos t + 1\<rparr>)"

definition udp_readByte :: "UdpTransport \<Rightarrow> (u8 option \<times> UdpTransport) option" where
  "udp_readByte t =
     (if \<not> ut_connected t \<or> ut_socket_fd t = -1 then Some (None, t)
      else if length (ut_rx_buffer t) \<le> ut_rx_buffer_pos t then
        (case refillRxBuffer t of
           None \<Rightarrow> None
         | Some (ok, t) \<Rightarrow> if \<not> ok then Some (None, t) else Some (buffered_byte t))
      else Some (buffered_byte t))"

definition udp_describe :: "UdpTransport \<Rightarrow> string" where
  "udp_describe t =
     (let desc = ''udp://'' @ ut_host t @ '':'' @ int_to_string (ut_port t) in
      if ut_bind_host t \<noteq> '''' then
        desc @ '' (bind '' @ ut_bind_host t @
          (if 0 < ut_bind_port t then '':'' @ int_to_string (ut_bind_port t) else '''') @ '')''
      else desc)"

section \<open>The abstract transport\<close>

datatype Transport = Tcp TcpTransport | Udp UdpTransport

definition lower_char :: "char \<Rightarrow> char" where
  "lower_char c = (if 65 \<le> (of_char c :: nat) \<and> (of_char c :: nat) \<le> 90 then char_of ((of_char c :: nat) + 32) else c)"

definition lower :: "string \<Rightarrow> string" where
  "lower s = map lower_char s"

text \<open>The left value is the text of the thrown exception.\<close>

definition createTransport :: "TransportSettings \<Rightarrow> string + Transport" where
  "createTransport s =
     (let type = lower (ts_transport s) in
      if type = ''tcp'' then Inr (Tcp (TcpTransport_new (ts_host s) (ts_port s)))
      else if type = ''udp'' then
        Inr (Udp (UdpTransport_new (ts_host s) (ts_port s) (ts_bind_host s) (ts_bind_port s)))
      else Inl (''Unsupported transport type: '' @ ts_transport s))"

fun isConnected :: "Transport \<Rightarrow> bool" where
  "isConnected (Tcp t) = tt_connected t"
| "isConnected (Udp t) = ut_connected t"

fun transport_connect :: "net \<Rightarrow> u8 option list \<Rightarrow> bytes option list \<Rightarrow> Transport \<Rightarrow> bool \<times> Transport" where
  "transport_connect net stream datagrams (Tcp t) = (case tcp_connect net stream t of (r, t) \<Rightarrow> (r, Tcp t))"
| "transport_connect net stream datagrams (Udp t) = (case udp_connect net datagrams t of (r, t) \<Rightarrow> (r, Udp t))"

fun transport_disconnect :: "Transport \<Rightarrow> Transport" where
  "transport_disconnect (Tcp t) = Tcp (tcp_disconnect t)"
| "transport_disconnect (Udp t) = Udp (udp_disconnect t)"

fun readByte :: "Transport \<Rightarrow> (u8 option \<times> Transport) option" where
  "readByte (Tcp t) = map_option (\<lambda>(r, t). (r, Tcp t)) (tcp_readByte t)"
| "readByte (Udp t) = map_option (\<lambda>(r, t). (r, Udp t)) (udp_readByte t)"

section \<open>The receive loop of the client\<close>

text \<open>
  \<open>parse_char\<close> is \<^verbatim>\<open>mavlink_parse_char\<close> with the state of its parser. \<^verbatim>\<open>running_\<close> is cleared by another thread
  when the loop has seen it set \<open>k\<close> times. The loop returns the messages it hands to
  \<^verbatim>\<open>handleParsedMessage\<close>, in order, and the flag \<^verbatim>\<open>connected_\<close>.
\<close>

fun rxLoop :: "('p \<Rightarrow> u8 \<Rightarrow> 'm option \<times> 'p) \<Rightarrow> nat \<Rightarrow> 'p \<Rightarrow> bool \<Rightarrow> Transport \<Rightarrow> ('m list \<times> bool \<times> Transport) option" where
  "rxLoop parse_char 0 p conn t = Some ([], conn, t)"
| "rxLoop parse_char (Suc k) p conn t =
     (case readByte t of
        None \<Rightarrow> None
      | Some (None, t) \<Rightarrow> Some ([], if 0 < k then False else conn, t)
      | Some (Some byte, t) \<Rightarrow>
          (case parse_char p byte of (msg, p) \<Rightarrow>
             map_option (\<lambda>(ms, c, t). (case msg of None \<Rightarrow> ms | Some m \<Rightarrow> m # ms, c, t))
               (rxLoop parse_char k p conn t)))"

section \<open>The contract of a byte source\<close>

text \<open>
  \<open>pending\<close> lists the bytes that can still be read, and \<open>closing\<close> tells whether the source closes
  after them rather than waits for more.
\<close>

locale byte_source =
  fixes read :: "'t \<Rightarrow> (u8 option \<times> 't) option"
    and pending :: "'t \<Rightarrow> u8 list"
    and closing :: "'t \<Rightarrow> bool"
    and conn :: "'t \<Rightarrow> bool"
    and good :: "'t \<Rightarrow> bool"
  assumes read_byte: "good t \<Longrightarrow> read t = Some (Some b, t') \<Longrightarrow> pending t = b # pending t' \<and> closing t' = closing t \<and> good t'"
    and read_closed: "good t \<Longrightarrow> read t = Some (None, t') \<Longrightarrow> pending t = [] \<and> closing t \<and> \<not> conn t'"
    and read_waits: "good t \<Longrightarrow> read t = None \<Longrightarrow> pending t = [] \<and> \<not> closing t"
begin

lemma read_Cons:
  assumes "good t" and "pending t = b # bs"
  obtains t' where "read t = Some (Some b, t')" "pending t' = bs" "closing t' = closing t" "good t'"
proof (cases "read t")
  case None
  with read_waits [OF assms(1)] assms(2) show thesis by simp
next
  case (Some x)
  obtain r t' where x: "x = (r, t')" by fastforce
  with Some read_closed [OF assms(1)] assms(2) obtain c where "r = Some c" by (cases r) auto
  with that read_byte [OF assms(1), of c t'] Some x assms(2) show thesis by simp
qed

lemma read_Nil:
  assumes "good t" and "pending t = []" and "closing t"
  obtains t' where "read t = Some (None, t')" "\<not> conn t'"
proof (cases "read t")
  case None
  with read_waits [OF assms(1)] assms(3) show thesis by simp
next
  case (Some x)
  obtain r t' where x: "x = (r, t')" by fastforce
  with Some read_byte [OF assms(1)] assms(2) have "r = None" by (cases r) auto
  with that read_closed [OF assms(1), of t'] Some x show thesis by simp
qed

end

definition tcp_pending :: "TcpTransport \<Rightarrow> u8 list" where
  "tcp_pending t = (if \<not> tt_connected t \<or> tt_socket_fd t = -1 then []
     else map the (takeWhile (\<lambda>r. r \<noteq> None) (tt_input t)))"

definition tcp_closing :: "TcpTransport \<Rightarrow> bool" where
  "tcp_closing t \<longleftrightarrow> \<not> tt_connected t \<or> tt_socket_fd t = -1 \<or> None \<in> set (tt_input t)"

text \<open>A datagram that closes the transport: an error, or an empty one.\<close>

definition closes :: "bytes option \<Rightarrow> bool" where
  "closes r \<longleftrightarrow> r = None \<or> r = Some []"

definition udp_pending :: "UdpTransport \<Rightarrow> u8 list" where
  "udp_pending t = (if \<not> ut_connected t \<or> ut_socket_fd t = -1 then []
     else drop (ut_rx_buffer_pos t) (ut_rx_buffer t) @
       concat (map (\<lambda>r. take kMaxDatagramSize (the r)) (takeWhile (\<lambda>r. \<not> closes r) (ut_input t))))"

definition udp_closing :: "UdpTransport \<Rightarrow> bool" where
  "udp_closing t \<longleftrightarrow> \<not> ut_connected t \<or> ut_socket_fd t = -1 \<or> list_ex closes (ut_input t)"

text \<open>The descriptor and the connected flag agree.\<close>

definition tcp_ok :: "TcpTransport \<Rightarrow> bool" where
  "tcp_ok t \<longleftrightarrow> (tt_socket_fd t = -1 \<longrightarrow> \<not> tt_connected t) \<and> tt_open t = (if tt_socket_fd t = -1 then [] else [tt_socket_fd t])"

definition udp_ok :: "UdpTransport \<Rightarrow> bool" where
  "udp_ok t \<longleftrightarrow> (ut_socket_fd t = -1 \<longrightarrow> \<not> ut_connected t) \<and> ut_open t = (if ut_socket_fd t = -1 then [] else [ut_socket_fd t])"

fun pending :: "Transport \<Rightarrow> u8 list" where
  "pending (Tcp t) = tcp_pending t"
| "pending (Udp t) = udp_pending t"

fun closing :: "Transport \<Rightarrow> bool" where
  "closing (Tcp t) = tcp_closing t"
| "closing (Udp t) = udp_closing t"

fun transport_ok :: "Transport \<Rightarrow> bool" where
  "transport_ok (Tcp t) = tcp_ok t"
| "transport_ok (Udp t) = udp_ok t"

interpretation tcp: byte_source tcp_readByte tcp_pending tcp_closing tt_connected tcp_ok
  by unfold_locales
     (auto simp: tcp_readByte_def tcp_pending_def tcp_closing_def tcp_ok_def split: if_splits list.splits option.splits)

lemma nth_drop_Cons: "i < length xs \<Longrightarrow> drop i xs = xs ! i # drop (Suc i) xs"
  by (simp add: Cons_nth_drop_Suc)

lemma udp_read_cases:
  assumes "udp_readByte t = Some (r, t')" and "ut_connected t" and "ut_socket_fd t \<noteq> -1"
  obtains (buffered) "ut_rx_buffer_pos t < length (ut_rx_buffer t)" "(r, t') = buffered_byte t"
  | (closed) x rs where "length (ut_rx_buffer t) \<le> ut_rx_buffer_pos t" "ut_input t = x # rs" "closes x" "r = None"
      "t' = t\<lparr>ut_input := rs, ut_connected := False\<rparr>"
  | (refilled) d rs where "length (ut_rx_buffer t) \<le> ut_rx_buffer_pos t" "ut_input t = Some d # rs" "d \<noteq> []"
      "(r, t') = buffered_byte (t\<lparr>ut_input := rs, ut_rx_buffer := take kMaxDatagramSize d, ut_rx_buffer_pos := 0\<rparr>)"
  using assms
  by (auto simp: udp_readByte_def refillRxBuffer_def closes_def Let_def split: if_splits list.splits option.splits)

interpretation udp: byte_source udp_readByte udp_pending udp_closing ut_connected udp_ok
proof unfold_locales
  fix t b t'
  assume ok: "udp_ok t" and r: "udp_readByte t = Some (Some b, t')"
  then have c: "ut_connected t" "ut_socket_fd t \<noteq> -1" by (auto simp: udp_readByte_def split: if_splits)
  from r c show "udp_pending t = b # udp_pending t' \<and> udp_closing t' = udp_closing t \<and> udp_ok t'"
  proof (cases rule: udp_read_cases)
    case buffered
    with ok c show ?thesis
      by (auto simp: buffered_byte_def udp_pending_def udp_closing_def udp_ok_def nth_drop_Cons)
  next
    case (refilled d rs)
    then have "take kMaxDatagramSize d = d ! 0 # drop 1 (take kMaxDatagramSize d)"
      by (cases d) (auto simp: kMaxDatagramSize_def)
    with refilled ok c show ?thesis
      by (auto simp: buffered_byte_def udp_pending_def udp_closing_def udp_ok_def closes_def kMaxDatagramSize_def)
  qed simp
next
  fix t t'
  assume ok: "udp_ok t" and r: "udp_readByte t = Some (None, t')"
  show "udp_pending t = [] \<and> udp_closing t \<and> \<not> ut_connected t'"
  proof (cases "ut_connected t \<and> ut_socket_fd t \<noteq> -1")
    case True
    with r have "udp_readByte t = Some (None, t')" "ut_connected t" "ut_socket_fd t \<noteq> -1" by auto
    then show ?thesis
      by (cases rule: udp_read_cases) (auto simp: buffered_byte_def udp_pending_def udp_closing_def)
  qed (use ok r in \<open>auto simp: udp_readByte_def udp_pending_def udp_closing_def udp_ok_def\<close>)
next
  fix t
  assume "udp_readByte t = None"
  then show "udp_pending t = [] \<and> \<not> udp_closing t"
    by (auto simp: udp_readByte_def refillRxBuffer_def udp_pending_def udp_closing_def Let_def
        split: if_splits list.splits option.splits)
qed

text \<open>The dispatch over the two classes keeps the contract.\<close>

interpretation link: byte_source readByte pending closing isConnected transport_ok
proof unfold_locales
  fix t b t'
  assume "transport_ok t" "readByte t = Some (Some b, t')"
  then show "pending t = b # pending t' \<and> closing t' = closing t \<and> transport_ok t'"
    using tcp.read_byte udp.read_byte by (cases t) auto
next
  fix t t'
  assume "transport_ok t" "readByte t = Some (None, t')"
  then show "pending t = [] \<and> closing t \<and> \<not> isConnected t'"
    using tcp.read_closed udp.read_closed by (cases t) auto
next
  fix t
  assume "transport_ok t" "readByte t = None"
  then show "pending t = [] \<and> \<not> closing t"
    using tcp.read_waits udp.read_waits by (cases t) auto
qed

section \<open>Properties\<close>

text \<open>The messages the parser completes on a sequence of bytes.\<close>

fun messages :: "('p \<Rightarrow> u8 \<Rightarrow> 'm option \<times> 'p) \<Rightarrow> 'p \<Rightarrow> u8 list \<Rightarrow> 'm list" where
  "messages parse_char p [] = []"
| "messages parse_char p (b # bs) =
     (case parse_char p b of (None, p) \<Rightarrow> messages parse_char p bs | (Some m, p) \<Rightarrow> m # messages parse_char p bs)"

lemma rxLoop_stopped:
  "transport_ok t \<Longrightarrow> k \<le> length (pending t) \<Longrightarrow>
   \<exists>t'. rxLoop parse_char k p c t = Some (messages parse_char p (take k (pending t)), c, t')"
proof (induction k arbitrary: p t)
  case (Suc k)
  then obtain b bs where bs: "pending t = b # bs" "k \<le> length bs" by (cases "pending t") auto
  obtain t1 where t1: "readByte t = Some (Some b, t1)" "pending t1 = bs" "transport_ok t1"
    by (rule link.read_Cons [OF Suc.prems(1) bs(1)])
  obtain m p1 where m: "parse_char p b = (m, p1)" by fastforce
  from Suc.IH [of t1 p1] t1 bs(2) obtain t' where
    "rxLoop parse_char k p1 c t1 = Some (messages parse_char p1 (take k bs), c, t')" by auto
  with t1 m bs show ?case by (cases m) simp_all
qed simp

lemma rxLoop_closed:
  "transport_ok t \<Longrightarrow> closing t \<Longrightarrow> length (pending t) + 1 < k \<Longrightarrow>
   \<exists>t'. rxLoop parse_char k p c t = Some (messages parse_char p (pending t), False, t') \<and> \<not> isConnected t'"
proof (induction "pending t" arbitrary: p t k)
  case Nil
  obtain t' where "readByte t = Some (None, t')" "\<not> isConnected t'"
    by (rule link.read_Nil [OF Nil.prems(1) Nil.hyps [symmetric] Nil.prems(2)])
  with Nil show ?case by (cases k) auto
next
  case (Cons b bs)
  then obtain j where j: "k = Suc j" "length bs + 1 < j" by (cases k) (auto simp flip: Cons.hyps(2))
  obtain t1 where t1: "readByte t = Some (Some b, t1)" "pending t1 = bs" "closing t1" "transport_ok t1"
    using link.read_Cons [OF Cons.prems(1) Cons.hyps(2) [symmetric]] Cons.prems(2) by auto
  obtain m p1 where m: "parse_char p b = (m, p1)" by fastforce
  from Cons.hyps(1) [of t1 j p1] t1 j(2) obtain t' where
    "rxLoop parse_char j p1 c t1 = Some (messages parse_char p1 bs, False, t')" "\<not> isConnected t'" by auto
  with t1 m j(1) Cons.hyps(2) show ?case by (cases m) (simp_all flip: Cons.hyps(2))
qed

text \<open>
  (C21) The receive loop hands on exactly the messages in the byte stream: over either transport, a loop
  that is stopped after \<open>k\<close> bytes has handed on the messages the parser completes on the first \<open>k\<close>
  bytes that arrive, and one that is not stopped before the transport closes has handed on those of
  all bytes that arrive before an error, the end of the stream or an empty datagram, and has marked
  the link as down.
\<close>

theorem rx_delivers_stream:
  assumes "transport_ok t"
  shows "(k \<le> length (pending t) \<longrightarrow>
      (\<exists>t'. rxLoop parse_char k p c t = Some (messages parse_char p (take k (pending t)), c, t'))) \<and>
    (closing t \<and> length (pending t) + 1 < k \<longrightarrow>
      (\<exists>t'. rxLoop parse_char k p c t = Some (messages parse_char p (pending t), False, t') \<and> \<not> isConnected t'))"
  using rxLoop_stopped [OF assms, of k parse_char p c] rxLoop_closed [OF assms, of k parse_char p c] by blast

definition ex_udp :: Transport where
  "ex_udp = Udp ((UdpTransport_new ''h'' 1 '''' 0)\<lparr>ut_socket_fd := 3, ut_connected := True, ut_open := [3],
     ut_input := [Some [1, 2], Some [3], Some [], Some [4]]\<rparr>)"

theorem rx_delivers_stream_witness:
  "\<exists>t'. rxLoop (\<lambda>p b. (Some b, p)) 9 () True ex_udp = Some ([1, 2, 3], False, t')"
proof -
  have "transport_ok ex_udp" "closing ex_udp" "pending ex_udp = [1, 2, 3]"
    by (simp_all add: ex_udp_def UdpTransport_new_def udp_ok_def udp_closing_def udp_pending_def closes_def
        kMaxDatagramSize_def)
  with rx_delivers_stream [of ex_udp 9 "\<lambda>p b. (Some b, p)" "()" True] show ?thesis by auto
qed

lemma connect_loop_fds: "connect_loop net rps fds = (fd, fds') \<Longrightarrow> fds' = (if fd = kInvalidSocket then fds else fd # fds)"
  by (induction net rps fds rule: connect_loop.induct) (auto simp: Let_def closeSocket_def split: if_splits)

fun open_sockets :: "Transport \<Rightarrow> int list" where
  "open_sockets (Tcp t) = tt_open t"
| "open_sockets (Udp t) = ut_open t"

text \<open>
  (C34) A transport never leaks a socket: if it holds no socket but its own, then after \<^verbatim>\<open>disconnect\<close> it
  holds none, and after \<^verbatim>\<open>connect\<close> it holds one exactly when the call succeeded, which is also when
  it is connected, whichever of the socket calls fail.
\<close>

theorem transport_never_leaks:
  assumes "transport_ok t"
  shows "open_sockets (transport_disconnect t) = [] \<and> transport_ok (transport_disconnect t) \<and>
    transport_ok (snd (transport_connect net stream datagrams t)) \<and>
    length (open_sockets (snd (transport_connect net stream datagrams t))) =
      (if fst (transport_connect net stream datagrams t) then 1 else 0) \<and>
    isConnected (snd (transport_connect net stream datagrams t)) = fst (transport_connect net stream datagrams t)"
proof (cases t)
  case (Tcp u)
  have d: "tt_open (tcp_disconnect u) = []" "tt_socket_fd (tcp_disconnect u) = -1" "\<not> tt_connected (tcp_disconnect u)"
    using assms Tcp by (auto simp: tcp_ok_def tcp_disconnect_def closeSocket_def Let_def)
  show ?thesis
    using Tcp d
    by (auto simp: tcp_ok_def tcp_connect_def kInvalidSocket_def Let_def split: option.splits prod.splits
        dest!: connect_loop_fds)
next
  case (Udp u)
  have d: "ut_open (udp_disconnect u) = []" "ut_socket_fd (udp_disconnect u) = -1" "\<not> ut_connected (udp_disconnect u)"
    using assms Udp by (auto simp: udp_ok_def udp_disconnect_def closeSocket_def Let_def)
  show ?thesis
    using Udp d
    by (auto simp: udp_ok_def udp_connect_def kInvalidSocket_def closeSocket_def Let_def split: option.splits)
qed

theorem transport_never_leaks_witness:
  "length (open_sockets (snd (transport_connect \<lparr>net_resolve = \<lambda>h p. Some [0, 1], net_socket = \<lambda>a. int a + 3,
      net_connect = \<lambda>a. a = 1, net_bind = \<lambda>a. False\<rparr> [] [] (Tcp (TcpTransport_new ''h'' 5760))))) = 1"
  using transport_never_leaks [of "Tcp (TcpTransport_new ''h'' 5760)"
      "\<lparr>net_resolve = \<lambda>h p. Some [0, 1], net_socket = \<lambda>a. int a + 3, net_connect = \<lambda>a. a = 1, net_bind = \<lambda>a. False\<rparr>" "[]" "[]"]
  by (simp add: TcpTransport_new_def tcp_ok_def tcp_connect_def tcp_disconnect_def kInvalidSocket_def closeSocket_def Let_def)

text \<open>
  The transport type is chosen without regard to case: \<open>createTransport\<close> gives a transport exactly
  when the lower-case form of the configured name is tcp or udp, and throws otherwise.
\<close>

theorem createTransport_total:
  "(\<exists>t. createTransport s = Inr t \<and> transport_ok t \<and> \<not> isConnected t) = (lower (ts_transport s) \<in> {''tcp'', ''udp''})"
  by (auto simp: createTransport_def Let_def TcpTransport_new_def UdpTransport_new_def tcp_ok_def udp_ok_def)

end
