(* ===== verification/VideoRecorder.thy ===== *)
theory VideoRecorder
  imports Types Transport
begin

text \<open>
  \<^verbatim>\<open>VideoRecorder\<close>: start, stop and state of the recorder subprocess, as built for Linux. What the
  operating system answers during one call is the record \<open>rec_env\<close>. Each operation holds the mutex and
  is one atomic step. The two detached threads, the watcher that ends the process after \<^verbatim>\<open>stop\<close> and the
  periodic \<^verbatim>\<open>sync\<close>, are functions of what they observe.
\<close>

section \<open>State\<close>

datatype StartResult = Started | AlreadyRecording | Disabled | NoMedia | Failed_start

record Snapshot =
  sn_enabled :: bool
  sn_active :: bool
  sn_duration_sec :: u32
  sn_free_bytes :: u64
  sn_crash_reason :: string

text \<open>\<^verbatim>\<open>sync_active_\<close> is null (\<open>None\<close>) or points to a flag.\<close>

record VideoRecorder =
  vr_settings :: RecordingSettings
  vr_pid :: int
  vr_start_time :: nat
  vr_last_crash_reason :: string
  vr_sync_active :: "bool option"

definition VideoRecorder_new :: "RecordingSettings \<Rightarrow> VideoRecorder" where
  "VideoRecorder_new s =
     \<lparr>vr_settings = s, vr_pid = -1, vr_start_time = 0, vr_last_crash_reason = '''', vr_sync_active = None\<rparr>"

text \<open>
  The answers of the system: \<^verbatim>\<open>is_directory\<close>, \<^verbatim>\<open>access\<close>, the device numbers of the mount path and of its
  parent (\<open>None\<close> when \<^verbatim>\<open>stat\<close> fails), the result of \<^verbatim>\<open>waitpid\<close> with \<^verbatim>\<open>WNOHANG\<close> and whether \<^verbatim>\<open>errno\<close> is
  \<^verbatim>\<open>ECHILD\<close>, the result of \<^verbatim>\<open>posix_spawnp\<close> and the new process, the formatted local time, the steady clock
  in milliseconds, and the block counts of \<^verbatim>\<open>statvfs\<close>.
\<close>

record rec_env =
  re_is_directory :: bool
  re_access :: bool
  re_self_dev :: "nat option"
  re_parent_dev :: "nat option"
  re_waitpid :: int
  re_echild :: bool
  re_spawn_rc :: int
  re_child :: int
  re_stamp :: string
  re_now :: nat
  re_statvfs :: "(u64 \<times> u64) option"

section \<open>Operations\<close>

definition checkMediaWritable :: "rec_env \<Rightarrow> bool" where
  "checkMediaWritable env =
     (if \<not> re_is_directory env then False
      else if \<not> re_access env then False
      else case (re_self_dev env, re_parent_dev env) of
        (Some self_dev, Some parent_dev) \<Rightarrow> self_dev \<noteq> parent_dev
      | _ \<Rightarrow> False)"

definition reapIfExited :: "rec_env \<Rightarrow> VideoRecorder \<Rightarrow> VideoRecorder" where
  "reapIfExited env v =
     (if vr_pid v \<le> 0 then v
      else if re_waitpid env = vr_pid v \<or> re_waitpid env < 0 \<and> re_echild env
      then v\<lparr>vr_last_crash_reason := (if checkMediaWritable env then ''recorder_crashed'' else ''media_lost''),
             vr_pid := -1, vr_sync_active := None\<rparr>
      else v)"

definition rec_path :: "RecordingSettings \<Rightarrow> string \<Rightarrow> string" where
  "rec_path s stamp =
     (let filename = filename_prefix s @ ''_'' @ stamp @ ''.ts'';
          path = mount_path s;
          path = (if path \<noteq> '''' \<and> last path \<noteq> CHR ''/'' then path @ ''/'' else path)
      in path @ filename)"

definition rec_args :: "RecordingSettings \<Rightarrow> string \<Rightarrow> string list" where
  "rec_args s path =
     (let caps = ''application/x-rtp,media=video,encoding-name=H264,payload='' @
            int_to_string (rtp_payload_type s) @ '',clock-rate=90000''
      in [gst_launch_path s, ''-q'', ''udpsrc'', ''port='' @ int_to_string (source_port s), ''caps='' @ caps,
          ''!'', ''rtph264depay'', ''!'', ''h264parse'', ''!'', ''mpegtsmux'', ''!'', ''filesink'', ''location='' @ path])"

text \<open>The third component is the argument vector of the process that was spawned, if one was.\<close>

definition rec_start :: "rec_env \<Rightarrow> VideoRecorder \<Rightarrow> StartResult \<times> VideoRecorder \<times> string list option" where
  "rec_start env v =
     (if \<not> re_enabled (vr_settings v) then (Disabled, v, None)
      else
        let v = reapIfExited env v in
        if 0 < vr_pid v then (AlreadyRecording, v, None)
        else if \<not> checkMediaWritable env then (NoMedia, v, None)
        else
          let args = rec_args (vr_settings v) (rec_path (vr_settings v) (re_stamp env)) in
          if re_spawn_rc env \<noteq> 0 \<or> re_child env \<le> 0 then (Failed_start, v, None)
          else
            let v = v\<lparr>vr_pid := re_child env, vr_start_time := re_now env, vr_last_crash_reason := ''''\<rparr>;
                v = (if 0 < fsync_interval_sec (vr_settings v) then v\<lparr>vr_sync_active := Some True\<rparr> else v)
            in (Started, v, Some args))"

text \<open>The third component is the process that is sent \<^verbatim>\<open>SIGINT\<close> and handed to a watcher.\<close>

definition rec_stop :: "rec_env \<Rightarrow> VideoRecorder \<Rightarrow> bool \<times> VideoRecorder \<times> int option" where
  "rec_stop env v =
     (let v = reapIfExited env v in
      if vr_pid v \<le> 0 then (False, v, None)
      else (True, v\<lparr>vr_sync_active := None, vr_pid := -1\<rparr>, Some (vr_pid v)))"

definition rec_snapshot :: "rec_env \<Rightarrow> VideoRecorder \<Rightarrow> Snapshot \<times> VideoRecorder" where
  "rec_snapshot env v =
     (let v' = reapIfExited env v;
          active = (0 < vr_pid v')
      in (\<lparr>sn_enabled = re_enabled (vr_settings v), sn_active = active,
           sn_duration_sec = (if active then of_nat ((re_now env - vr_start_time v') div 1000) else 0),
           sn_free_bytes = (case re_statvfs env of None \<Rightarrow> 0 | Some (f_bavail, f_frsize) \<Rightarrow> f_bavail * f_frsize),
           sn_crash_reason = vr_last_crash_reason v'\<rparr>,
          v'))"

section \<open>The detached threads\<close>

datatype watcher_action = Poll | Sleep_100ms | Kill_9 | Wait_blocking | Sync

text \<open>The watcher: \<open>polls\<close> tells for each poll whether \<^verbatim>\<open>waitpid\<close> returns the process.\<close>

fun watch_loop :: "nat \<Rightarrow> (nat \<Rightarrow> bool) \<Rightarrow> nat \<Rightarrow> watcher_action list" where
  "watch_loop 0 polls i = [Kill_9, Wait_blocking, Sync]"
| "watch_loop (Suc n) polls i =
     (if polls i then [Poll, Sync] else Poll # Sleep_100ms # watch_loop n polls (i + 1))"

definition watcher :: "(nat \<Rightarrow> bool) \<Rightarrow> watcher_action list" where
  "watcher polls = watch_loop 20 polls 0"

text \<open>
  The periodic sync: \<open>ticks\<close> is the number of 100 ms sleeps until the flag is cleared, and the value
  lists how many sleeps were done before each call of \<^verbatim>\<open>sync\<close>. A loop that the flag outlives is cut
  after \<open>fuel\<close> calls.
\<close>

fun sync_loop :: "nat \<Rightarrow> int \<Rightarrow> bool \<Rightarrow> nat \<Rightarrow> nat \<Rightarrow> nat list" where
  "sync_loop 0 interval_sec first_tick slept ticks = []"
| "sync_loop (Suc fuel) interval_sec first_tick slept ticks =
     (if ticks \<le> slept then []
      else
        let wait_sec = (if first_tick then min interval_sec 1 else interval_sec);
            slept' = slept + nat (wait_sec * 10)
        in if ticks \<le> slept' then [] else slept' # sync_loop fuel interval_sec False slept' ticks)"

section \<open>The recorder as an abstract machine\<close>

text \<open>What the operator sees: no recording, a running one, or one that ended on its own.\<close>

datatype rec_view = Idle | Recording int | Crashed string

definition rec_shown :: "VideoRecorder \<Rightarrow> rec_view" where
  "rec_shown v = (if 0 < vr_pid v then Recording (vr_pid v)
     else if vr_last_crash_reason v = '''' then Idle else Crashed (vr_last_crash_reason v))"

datatype rec_op = Rec_start | Rec_stop | Rec_snapshot

definition spec_reap :: "rec_env \<Rightarrow> rec_view \<Rightarrow> rec_view" where
  "spec_reap env w = (case w of
      Recording p \<Rightarrow>
        if re_waitpid env = p \<or> re_waitpid env < 0 \<and> re_echild env
        then Crashed (if checkMediaWritable env then ''recorder_crashed'' else ''media_lost'') else Recording p
    | _ \<Rightarrow> w)"

definition spec_start :: "bool \<Rightarrow> rec_env \<Rightarrow> rec_view \<Rightarrow> StartResult \<times> rec_view" where
  "spec_start enabled env w =
     (if \<not> enabled then (Disabled, w)
      else case spec_reap env w of
        Recording p \<Rightarrow> (AlreadyRecording, Recording p)
      | w' \<Rightarrow> if \<not> checkMediaWritable env then (NoMedia, w')
             else if re_spawn_rc env \<noteq> 0 \<or> re_child env \<le> 0 then (Failed_start, w')
             else (Started, Recording (re_child env)))"

definition spec_stop :: "rec_env \<Rightarrow> rec_view \<Rightarrow> bool \<times> rec_view" where
  "spec_stop env w = (case spec_reap env w of Recording p \<Rightarrow> (True, Idle) | w' \<Rightarrow> (False, w'))"

fun rec_step :: "rec_op \<times> rec_env \<Rightarrow> VideoRecorder \<Rightarrow> VideoRecorder" where
  "rec_step (Rec_start, env) v = fst (snd (rec_start env v))"
| "rec_step (Rec_stop, env) v = fst (snd (rec_stop env v))"
| "rec_step (Rec_snapshot, env) v = snd (rec_snapshot env v)"

fun rec_spec_step :: "bool \<Rightarrow> rec_op \<times> rec_env \<Rightarrow> rec_view \<Rightarrow> rec_view" where
  "rec_spec_step enabled (Rec_start, env) w = snd (spec_start enabled env w)"
| "rec_spec_step enabled (Rec_stop, env) w = snd (spec_stop env w)"
| "rec_spec_step enabled (Rec_snapshot, env) w = spec_reap env w"

text \<open>
  A running recording has no crash reason, and the flag of the sync thread exists exactly while a
  recording runs and periodic sync is configured.
\<close>

definition rec_ok :: "VideoRecorder \<Rightarrow> bool" where
  "rec_ok v \<longleftrightarrow> (0 < vr_pid v \<longrightarrow> vr_last_crash_reason v = '''') \<and>
     vr_sync_active v = (if 0 < vr_pid v \<and> 0 < fsync_interval_sec (vr_settings v) then Some True else None)"

lemmas rec_defs = rec_start_def rec_stop_def rec_snapshot_def reapIfExited_def Let_def

lemma rec_ok_step: "rec_ok v \<Longrightarrow> rec_ok (rec_step x v) \<and> vr_settings (rec_step x v) = vr_settings v"
proof (cases x)
  case (Pair op env)
  then show "rec_ok v \<Longrightarrow> ?thesis" by (cases op) (auto simp: rec_ok_def rec_defs)
qed

lemma reap_refines: "rec_ok v \<Longrightarrow> rec_shown (reapIfExited env v) = spec_reap env (rec_shown v)"
  by (auto simp: rec_shown_def spec_reap_def reapIfExited_def rec_ok_def)

lemma rec_ok_reap: "rec_ok v \<Longrightarrow> rec_ok (reapIfExited env v)"
  using rec_ok_step [of v "(Rec_snapshot, env)"] by (simp add: rec_snapshot_def Let_def)

lemma reap_settings [simp]: "vr_settings (reapIfExited env v) = vr_settings v"
  by (simp add: reapIfExited_def)

lemma start_refines:
  assumes "rec_ok v"
  shows "(fst (rec_start env v), rec_shown (fst (snd (rec_start env v)))) = spec_start (re_enabled (vr_settings v)) env (rec_shown v)"
proof -
  let ?v = "reapIfExited env v"
  have "spec_reap env (rec_shown v) = rec_shown ?v" using reap_refines [OF assms] by simp
  then show ?thesis
    using rec_ok_reap [OF assms, of env]
    by (auto simp: spec_start_def rec_start_def rec_shown_def rec_ok_def Let_def)
qed

lemma stop_refines:
  assumes "rec_ok v"
  shows "(fst (rec_stop env v), rec_shown (fst (snd (rec_stop env v)))) = spec_stop env (rec_shown v)"
proof -
  let ?v = "reapIfExited env v"
  have "spec_reap env (rec_shown v) = rec_shown ?v" using reap_refines [OF assms] by simp
  then show ?thesis
    using rec_ok_reap [OF assms, of env]
    by (auto simp: spec_stop_def rec_stop_def rec_shown_def rec_ok_def Let_def)
qed

lemma step_refines: "rec_ok v \<Longrightarrow> rec_shown (rec_step x v) = rec_spec_step (re_enabled (vr_settings v)) x (rec_shown v)"
proof (cases x)
  case (Pair op env)
  assume "rec_ok v"
  with Pair start_refines [of v env] stop_refines [of v env] reap_refines [of v env] show ?thesis
    by (cases op) (auto simp: rec_snapshot_def Let_def dest: arg_cong [where f = snd])
qed

section \<open>Properties\<close>

text \<open>
  (C22) The recorder is the machine the operator sees: after any sequence of starts, stops and status
  requests, whatever the system answers, the recorder shows a running recording, none, or one that
  ended on its own with its reason, exactly as the abstract machine does; a crash reason is never
  shown while a recording runs, and the sync thread is kept alive exactly while one runs and periodic
  sync is configured.
\<close>

theorem recorder_refines_machine:
  "rec_shown (fold rec_step xs (VideoRecorder_new s)) = fold (rec_spec_step (re_enabled s)) xs Idle \<and>
   rec_ok (fold rec_step xs (VideoRecorder_new s))"
proof -
  have "rec_shown (fold rec_step xs v) = fold (rec_spec_step (re_enabled s)) xs (rec_shown v) \<and> rec_ok (fold rec_step xs v)"
    if "rec_ok v" "vr_settings v = s" for v
    using that
  proof (induction xs arbitrary: v)
    case (Cons x xs)
    with rec_ok_step [of v x] step_refines [of v x] show ?case by simp
  qed simp
  from this [of "VideoRecorder_new s"] show ?thesis
    by (simp add: VideoRecorder_new_def rec_ok_def rec_shown_def)
qed

text \<open>
  A stopped recorder is gone within two seconds: the watcher polls at most twenty times, 100 ms
  apart; it sends \<^verbatim>\<open>SIGKILL\<close> exactly when none of the twenty polls found the process ended, and its last
  action is a sync in either case.
\<close>

theorem watcher_bounded:
  "length (filter (\<lambda>a. a = Sleep_100ms) (watcher polls)) \<le> 20 \<and> last (watcher polls) = Sync \<and>
   (Kill_9 \<in> set (watcher polls)) = list_all (\<lambda>i. \<not> polls i) [0..<20]"
proof -
  have "length (filter (\<lambda>a. a = Sleep_100ms) (watch_loop n polls i)) \<le> n \<and> last (watch_loop n polls i) = Sync \<and>
      watch_loop n polls i \<noteq> [] \<and> (Kill_9 \<in> set (watch_loop n polls i)) = list_all (\<lambda>j. \<not> polls j) [i..<i + n]" for n i
  proof (induction n arbitrary: i)
    case (Suc n)
    have "[i..<i + Suc n] = i # [Suc i..<Suc i + n]" by (simp add: upt_conv_Cons)
    with Suc [of "i + 1"] show ?case by auto
  qed simp
  from this [of 20 0] show ?thesis by (simp add: watcher_def)
qed

text \<open>
  Recordings are synced on time: with a sync interval of at least one second, the first sync comes
  one second after the start and each further one an interval later, for as long as the recording
  runs.
\<close>

theorem sync_on_time:
  assumes "1 \<le> interval"
  shows "sync_loop fuel interval True 0 ticks =
    takeWhile (\<lambda>t. t < ticks) (map (\<lambda>i. 10 + 10 * nat interval * i) [0..<fuel])"
proof -
  have n: "nat (interval * 10) = 10 * nat interval" using assms by (simp add: nat_mult_distrib)
  have later: "sync_loop n interval False t ticks =
      takeWhile (\<lambda>t. t < ticks) (map (\<lambda>i. t + 10 * nat interval * i) [Suc 0..<Suc n])" if "t < ticks" for n t
    using that
  proof (induction n arbitrary: t)
    case (Suc n)
    have e: "map (\<lambda>i. t + 10 * nat interval * i) [Suc 0..<Suc (Suc n)] =
        (t + 10 * nat interval) # map (\<lambda>i. (t + 10 * nat interval) + 10 * nat interval * i) [Suc 0..<Suc n]"
      by (subst upt_conv_Cons) (simp_all add: map_Suc_upt [symmetric] algebra_simps del: upt_Suc)
    show ?case
      using Suc.IH [of "t + 10 * nat interval"] Suc.prems by (auto simp: n Let_def e simp del: upt_Suc)
  qed simp
  show ?thesis
  proof (cases fuel)
    case (Suc k)
    have e: "map (\<lambda>i. 10 + 10 * nat interval * i) [0..<Suc k] = 10 # map (\<lambda>i. 10 + 10 * nat interval * i) [Suc 0..<Suc k]"
      by (subst upt_conv_Cons) (simp_all del: upt_Suc)
    show ?thesis
      using later [of 10 k] Suc assms by (auto simp: Let_def e min_def simp del: upt_Suc)
  qed simp
qed

theorem sync_on_time_witness: "sync_loop 5 3 True 0 75 = [10, 40, 70]"
  using sync_on_time [of 3 5 75] by (simp add: upt_rec)

end
