(* ===== verification/ServiceSnapshot.thy ===== *)
theory ServiceSnapshot
  imports DroneLogService VideoRecorder
begin

text \<open>
  \<^verbatim>\<open>ServiceSnapshot.hpp\<close> and the providers of \<^verbatim>\<open>DroneLogService\<close> that the companion server calls:
  \<^verbatim>\<open>buildSnapshot\<close> and \<^verbatim>\<open>buildFcLogsPage\<close>. The state of the process is the service together with its
  recorder. Both providers read the catalog and can therefore throw.
\<close>

section \<open>Data\<close>

record ServiceSnapshot =
  ss_state :: string
  ss_version :: string
  ss_job_type :: string
  ss_transport_connected :: bool
  ss_heartbeat_fresh :: bool
  ss_vehicle_detected :: bool
  ss_vehicle_armed :: bool
  ss_fc_logs_count :: int
  ss_fc_logs_stale :: bool
  ss_archive_active :: bool
  ss_archive_current_log_id :: u16
  ss_archive_progress_bytes :: u32
  ss_archive_progress_total_bytes :: u32
  ss_archive_percent :: int
  ss_archive_bytes_per_sec :: u32
  ss_last_cycle_downloaded :: int
  ss_last_cycle_skipped :: int
  ss_last_cycle_failed :: int
  ss_last_cycle_cancelled :: int
  ss_last_cycle_all_archived :: bool
  ss_storage_used_bytes :: u64
  ss_storage_limit_bytes :: u64
  ss_storage_archived_count :: int
  ss_recording_enabled :: bool
  ss_recording_active :: bool
  ss_recording_duration_sec :: u32
  ss_recording_free_bytes :: u64
  ss_recording_crash_reason :: string

record FcLogEntry =
  fe_id :: u16
  fe_size :: u32
  fe_time_utc :: u32
  fe_downloaded :: bool

record FcLogsPage =
  pg_count :: int
  pg_offset :: int
  pg_entries :: "FcLogEntry list"
  pg_truncated :: bool
  pg_stale :: bool

record node =
  nd_service :: service
  nd_recorder :: VideoRecorder

definition upd_db :: "database \<Rightarrow> node \<Rightarrow> node" where
  "upd_db d n = n\<lparr>nd_service := (nd_service n)\<lparr>sv_arch := (sv_arch (nd_service n))\<lparr>a_db := d\<rparr>\<rparr>\<rparr>"

abbreviation nd_db :: "node \<Rightarrow> database" where
  "nd_db n \<equiv> a_db (sv_arch (nd_service n))"

section \<open>The snapshot\<close>

definition job_type :: "State \<Rightarrow> string" where
  "job_type st =
     (case st of
        Delay \<Rightarrow> ''archive'' | Enumerate \<Rightarrow> ''archive'' | Archive \<Rightarrow> ''archive'' | EraseAll \<Rightarrow> ''archive''
      | ManualRefresh \<Rightarrow> ''refresh'' | ManualDownload \<Rightarrow> ''download'' | ManualErase \<Rightarrow> ''erase''
      | _ \<Rightarrow> '''')"

definition archive_percent :: "ActiveArchiveProgress \<Rightarrow> int" where
  "archive_percent prog =
     (if 0 < pr_total_bytes prog
      then uint (ucast (pr_bytes_received prog) * 100 div ucast (pr_total_bytes prog) :: u64) else 0)"

definition buildSnapshot :: "sqlite \<Rightarrow> rec_env \<Rightarrow> node \<Rightarrow> (exn + ServiceSnapshot) \<times> node" where
  "buildSnapshot sq env n =
     (let s = nd_service n; prog = activeProgress (sv_arch s) in
      case getStat sq ''flights_archived'' (nd_db n) of
        (Inl e, d) \<Rightarrow> (Inl e, upd_db d n)
      | (Inr archived_count, d) \<Rightarrow>
          (case rec_snapshot env (nd_recorder n) of (rec, v) \<Rightarrow>
             (Inr \<lparr>ss_state = stateToString (sv_state s), ss_version = ''1.0.0'', ss_job_type = job_type (sv_state s),
                ss_transport_connected = connected (sv_dl s), ss_heartbeat_fresh = heartbeatFresh (sv_dl s),
                ss_vehicle_detected = fm_vehicle_detected (sv_monitor s), ss_vehicle_armed = fm_armed (sv_monitor s),
                ss_fc_logs_count = int (length (sv_logs s)), ss_fc_logs_stale = sv_logs_stale s,
                ss_archive_active = pr_active prog, ss_archive_current_log_id = pr_log_id prog,
                ss_archive_progress_bytes = pr_bytes_received prog, ss_archive_progress_total_bytes = pr_total_bytes prog,
                ss_archive_percent = archive_percent prog, ss_archive_bytes_per_sec = pr_bytes_per_sec prog,
                ss_last_cycle_downloaded = cyc_downloaded (sv_last_cycle s), ss_last_cycle_skipped = cyc_skipped (sv_last_cycle s),
                ss_last_cycle_failed = cyc_failed (sv_last_cycle s), ss_last_cycle_cancelled = cyc_cancelled (sv_last_cycle s),
                ss_last_cycle_all_archived = all_archived (sv_last_cycle s),
                ss_storage_used_bytes = totalVerifiedBytes (a_st (sv_arch s)),
                ss_storage_limit_bytes = max_bytes (storage (sv_config s)), ss_storage_archived_count = archived_count,
                ss_recording_enabled = sn_enabled rec, ss_recording_active = sn_active rec,
                ss_recording_duration_sec = sn_duration_sec rec, ss_recording_free_bytes = sn_free_bytes rec,
                ss_recording_crash_reason = sn_crash_reason rec\<rparr>,
              (upd_db d n)\<lparr>nd_recorder := v\<rparr>)))"

section \<open>Pages of logs\<close>

fun page_entries :: "sqlite \<Rightarrow> LogEntry list \<Rightarrow> database \<Rightarrow> (exn + FcLogEntry list) \<times> database" where
  "page_entries sq [] d = (Inr [], d)"
| "page_entries sq (e # es) d =
     (case hasArchived sq (le_id e) (le_size e) d of
        (Inl x, d) \<Rightarrow> (Inl x, d)
      | (Inr downloaded, d) \<Rightarrow>
          (case page_entries sq es d of
             (Inl x, d) \<Rightarrow> (Inl x, d)
           | (Inr out, d) \<Rightarrow>
               (Inr (\<lparr>fe_id = le_id e, fe_size = le_size e, fe_time_utc = le_time_utc e, fe_downloaded = downloaded\<rparr> # out), d)))"

text \<open>The elements with index from \<open>start\<close> to before \<open>past\<close>.\<close>

definition slice :: "int \<Rightarrow> int \<Rightarrow> 'a list \<Rightarrow> 'a list" where
  "slice start past xs = take (nat (past - start)) (drop (nat start) xs)"

definition buildFcLogsPage :: "sqlite \<Rightarrow> int \<Rightarrow> int \<Rightarrow> node \<Rightarrow> (exn + FcLogsPage) \<times> node" where
  "buildFcLogsPage sq ofs n_max n =
     (let logs = sv_logs (nd_service n);
          start = max 0 ofs;
          past = min (to_int (int (length logs))) (to_int (start + n_max))
      in case page_entries sq (slice start past logs) (nd_db n) of
           (Inl x, d) \<Rightarrow> (Inl x, upd_db d n)
         | (Inr out, d) \<Rightarrow>
             (Inr \<lparr>pg_count = to_int (int (length logs)), pg_offset = ofs, pg_entries = out, pg_truncated = False,
                   pg_stale = sv_logs_stale (nd_service n)\<rparr>,
              upd_db d n))"

section \<open>Lemmas\<close>

lemma findCandidate_archived_logs: "archived_logs (snd (findCandidate sq i k d)) = archived_logs d"
  by (auto simp: findCandidate_def sqlite_call_def Let_def split: bool.splits)

lemma hasArchived_rows: "hasArchived sq i k d = (x, d') \<Longrightarrow> archived_logs d' = archived_logs d"
  using findCandidate_archived_logs [of sq i k d]
  by (cases "findCandidate sq i k d") (auto simp: hasArchived_def split: sum.splits)

lemma page_entries_rows: "page_entries sq es d = (x, d') \<Longrightarrow> archived_logs d' = archived_logs d"
proof (induction es arbitrary: d x d')
  case (Cons e es)
  obtain y d1 where h: "hasArchived sq (le_id e) (le_size e) d = (y, d1)" by fastforce
  obtain z d2 where p: "page_entries sq es d1 = (z, d2)" by fastforce
  from Cons.prems Cons.IH [OF p] hasArchived_rows [OF h] h p show ?case
    by (auto split: sum.splits)
qed simp

text \<open>The entry the model shows for a log when SQLite answers.\<close>

definition entry_for :: "database \<Rightarrow> LogEntry \<Rightarrow> FcLogEntry" where
  "entry_for d e = \<lparr>fe_id = le_id e, fe_size = le_size e, fe_time_utc = le_time_utc e,
     fe_downloaded = (matching_rows (le_id e) (le_size e) d \<noteq> [])\<rparr>"

lemma hasArchived_ok:
  assumes "\<And>k. sq_ok sq k"
  shows "\<exists>d'. hasArchived sq i m d = (Inr (matching_rows i m d \<noteq> []), d') \<and> archived_logs d' = archived_logs d"
  using assms by (simp add: hasArchived_def findCandidate_def sqlite_call_def matching_rows_def Let_def)

lemma page_entries_ok:
  assumes "\<And>k. sq_ok sq k"
  shows "\<exists>d'. page_entries sq es d = (Inr (map (entry_for d) es), d') \<and> archived_logs d' = archived_logs d"
proof (induction es arbitrary: d)
  case (Cons e es)
  obtain d1 where d1: "hasArchived sq (le_id e) (le_size e) d = (Inr (matching_rows (le_id e) (le_size e) d \<noteq> []), d1)"
    "archived_logs d1 = archived_logs d"
    using hasArchived_ok [OF assms] by blast
  obtain d2 where d2: "page_entries sq es d1 = (Inr (map (entry_for d1) es), d2)" "archived_logs d2 = archived_logs d1"
    using Cons.IH by blast
  have "entry_for d1 = entry_for d" using d1(2) by (simp add: entry_for_def matching_rows_def fun_eq_iff)
  with d1 d2 show ?case by (simp add: entry_for_def)
qed simp

lemma take_blocks: "concat (map (\<lambda>k. take m (drop (k * m) xs)) [0..<j]) = take (j * m) xs"
proof (induction j)
  case (Suc j)
  have "take (j * m) xs @ take m (drop (j * m) xs) = take (j * m + m) xs" by (rule take_add [symmetric])
  with Suc show ?case by (simp add: add.commute)
qed simp

lemma slice_whole:
  "slice (int k * int m) (min (int (length xs)) (int k * int m + int m)) xs = take m (drop (k * m) xs)"
proof (cases "k * m + m \<le> length xs")
  case True
  have "nat (int (k * m + m) - int (k * m)) = m" by simp
  with True show ?thesis by (simp add: slice_def min_def flip: of_nat_mult of_nat_add)
next
  case False
  then show ?thesis
    by (simp add: slice_def min_def nat_diff_distrib flip: of_nat_mult of_nat_add of_nat_diff)
qed

section \<open>Properties\<close>

text \<open>The page the companion server answers a request with, as a list of entries.\<close>

definition page_at :: "sqlite \<Rightarrow> int \<Rightarrow> int \<Rightarrow> node \<Rightarrow> FcLogEntry list" where
  "page_at sq ofs n_max n = (case fst (buildFcLogsPage sq ofs n_max n) of Inl _ \<Rightarrow> [] | Inr p \<Rightarrow> pg_entries p)"

text \<open>
  (C35) Paging through the logs shows each of them once: when SQLite answers and the number of logs and
  \<open>m\<close> add up to an \<^verbatim>\<open>int\<close>, pages of \<open>m\<close> entries at the offsets 0, m, 2m, ... are, put together, the whole cached list in its order, with the mark of
  a downloaded log exactly where the catalog has a row of its id and size.
\<close>

theorem pages_cover_logs:
  assumes "\<And>k. sq_ok sq k" and "length (sv_logs (nd_service n)) \<le> j * m"
    and "in_int32 (int (length (sv_logs (nd_service n))) + int m)"
  shows "concat (map (\<lambda>k. page_at sq (int k * int m) (int m) n) [0..<j]) = map (entry_for (nd_db n)) (sv_logs (nd_service n))"
proof -
  let ?logs = "sv_logs (nd_service n)"
  have len: "to_int (int (length ?logs)) = int (length ?logs)" using assms(3) by (simp add: in_int32_def)
  have "page_at sq (int k * int m) (int m) n = map (entry_for (nd_db n)) (take m (drop (k * m) ?logs))" for k
  proof -
    have st: "slice (int k * int m) (min (int (length ?logs)) (to_int (int k * int m + int m))) ?logs = take m (drop (k * m) ?logs)"
    proof (cases "k * m < length ?logs")
      case True
      then have "int k * int m < int (length ?logs)" by (simp flip: of_nat_mult)
      moreover have "0 \<le> int k * int m + int m" by (intro add_nonneg_nonneg mult_nonneg_nonneg) simp_all
      ultimately have "in_int32 (int k * int m + int m)"
        using assms(3) unfolding in_int32_def by linarith
      with True show ?thesis by (simp add: slice_whole)
    next
      case False
      then have "int (length ?logs) \<le> int k * int m" by (simp flip: of_nat_mult)
      with False show ?thesis by (simp add: slice_def)
    qed
    obtain d' where "page_entries sq (take m (drop (k * m) ?logs)) (nd_db n)
        = (Inr (map (entry_for (nd_db n)) (take m (drop (k * m) ?logs))), d')"
      using page_entries_ok [OF assms(1)] by blast
    with st show ?thesis by (simp add: page_at_def buildFcLogsPage_def len Let_def)
  qed
  then have "concat (map (\<lambda>k. page_at sq (int k * int m) (int m) n) [0..<j])
      = map (entry_for (nd_db n)) (concat (map (\<lambda>k. take m (drop (k * m) ?logs)) [0..<j]))"
    by (simp add: map_concat comp_def)
  with assms(2) show ?thesis by (simp add: take_blocks)
qed

text \<open>SQLite that always answers, and a node with two logs of which one is in the catalog.\<close>

definition ex_node :: node where
  "ex_node = \<lparr>nd_service = (DroneLogService_new Config_default [] \<lparr>fs_files = [], fs_dirs = []\<rparr>
       (Database_new\<lparr>archived_logs := [ex_row]\<rparr>))
       \<lparr>sv_logs := [\<lparr>le_id = 7, le_num_logs = 2, le_last_log_num = 8, le_time_utc = 0, le_size = 100\<rparr>,
                    \<lparr>le_id = 8, le_num_logs = 2, le_last_log_num = 8, le_time_utc = 0, le_size = 100\<rparr>]\<rparr>,
     nd_recorder = VideoRecorder_new (recording Config_default)\<rparr>"

theorem pages_cover_logs_witness:
  "map fe_downloaded (concat (map (\<lambda>k. page_at ex_sqlite (int k * int 1) (int 1) ex_node) [0..<2])) = [True, False]"
proof -
  have "sq_ok ex_sqlite k" for k by (simp add: ex_sqlite_def)
  moreover have "length (sv_logs (nd_service ex_node)) \<le> 2 * 1"
    "in_int32 (int (length (sv_logs (nd_service ex_node))) + int 1)"
    by (simp_all add: ex_node_def in_int32_def)
  ultimately have "concat (map (\<lambda>k. page_at ex_sqlite (int k * int 1) (int 1) ex_node) [0..<2])
      = map (entry_for (nd_db ex_node)) (sv_logs (nd_service ex_node))" by (rule pages_cover_logs)
  then show ?thesis
    by (simp add: ex_node_def entry_for_def matching_rows_def DroneLogService_new_def ex_row_def)
qed

text \<open>
  The progress shown is a percentage: as long as no more bytes are counted than the log has, the
  percentage is between 0 and 100, it is 100 exactly when all bytes are counted, and the 64-bit
  product it is computed from does not overflow.
\<close>

theorem percent_is_percentage:
  assumes "pr_bytes_received prog \<le> pr_total_bytes prog" and "0 < pr_total_bytes prog"
  shows "0 \<le> archive_percent prog \<and> archive_percent prog \<le> 100 \<and>
    archive_percent prog = uint (pr_bytes_received prog) * 100 div uint (pr_total_bytes prog) \<and>
    (archive_percent prog = 100) = (pr_bytes_received prog = pr_total_bytes prog)"
proof -
  let ?r = "uint (pr_bytes_received prog)" and ?t = "uint (pr_total_bytes prog)"
  have b: "0 \<le> ?r" "?r < 2 ^ 32" "?r \<le> ?t" "0 < ?t"
    using assms uint_lt2p [of "pr_bytes_received prog"] by (simp_all add: word_le_def word_less_def)
  have c: "uint (ucast (pr_bytes_received prog) :: u64) = ?r" "uint (ucast (pr_total_bytes prog) :: u64) = ?t"
    by (simp_all add: uint_up_ucast is_up)
  have "uint (ucast (pr_bytes_received prog) * 100 :: u64) = ?r * 100"
    using b(1,2) by (simp add: uint_word_ariths c)
  then have p: "archive_percent prog = ?r * 100 div ?t"
    using assms(2) by (simp add: archive_percent_def uint_div c)
  have "?r * 100 \<le> ?t * 100" using b(3) by simp
  then have "?r * 100 div ?t \<le> ?t * 100 div ?t" using b(4) by (rule zdiv_mono1)
  then have le: "?r * 100 div ?t \<le> 100" using b(4) by simp
  have full: "?r = ?t" if "?r * 100 div ?t = 100"
  proof -
    have "?r * 100 = 100 * ?t + ?r * 100 mod ?t" using div_mult_mod_eq [of "?r * 100" ?t] that by simp
    with pos_mod_sign [OF b(4), of "?r * 100"] b(3) show ?thesis by simp
  qed
  have "?r * 100 div ?t = 100" if "?r = ?t" using that b(4) by simp
  with full have "(?r * 100 div ?t = 100) = (?r = ?t)" by blast
  moreover have "0 \<le> ?r * 100 div ?t" using b(1,4) by (simp add: pos_imp_zdiv_nonneg_iff)
  ultimately show ?thesis using le by (simp only: p word_uint_eq_iff)
qed

theorem percent_is_percentage_witness:
  "archive_percent \<lparr>pr_active = True, pr_log_id = 1, pr_bytes_received = 4294967294, pr_total_bytes = 4294967295,
     pr_bytes_per_sec = 0\<rparr> = 99"
  using percent_is_percentage [of "\<lparr>pr_active = True, pr_log_id = 1, pr_bytes_received = 4294967294,
      pr_total_bytes = 4294967295, pr_bytes_per_sec = 0\<rparr>"]
  by simp

end
