(* ===== verification/CompanionProtocol.thy ===== *)
theory CompanionProtocol
  imports ServiceSnapshot
begin

text \<open>
  \<^verbatim>\<open>CompanionProtocol\<close>: the requests and responses of the companion API. A JSON value is a tree; an object
  is a list of its members. Parsing, dumping and the conversions \<^verbatim>\<open>get<T>()\<close> of the JSON library are
  parameters; a conversion that throws is \<open>None\<close>. Every response is built from text of a parsed request
  and from constants, both valid UTF-8, so that \<^verbatim>\<open>dump\<close> does not throw.
\<close>

section \<open>JSON\<close>

datatype json =
    J_null
  | J_bool bool
  | J_int int
  | J_float rat
  | J_string string
  | J_array "json list"
  | J_object "(string \<times> json) list"

record json_lib =
  json_parse :: "string \<Rightarrow> json option"
  json_dump :: "json \<Rightarrow> string"
  get_int :: "json \<Rightarrow> int option"
  get_string :: "json \<Rightarrow> string option"
  get_bool :: "json \<Rightarrow> bool option"

text \<open>\<^verbatim>\<open>obj.value(key, default)\<close>: throws when the value is no object or the member has another type.\<close>

definition json_value :: "(json \<Rightarrow> 'a option) \<Rightarrow> string \<Rightarrow> 'a \<Rightarrow> json \<Rightarrow> 'a option" where
  "json_value get key dflt j =
     (case j of
        J_object ms \<Rightarrow> (case map_of ms key of None \<Rightarrow> Some dflt | Some v \<Rightarrow> get v)
      | _ \<Rightarrow> None)"

fun members :: "json \<Rightarrow> (string \<times> json) list" where
  "members (J_object ms) = ms"
| "members _ = []"

text \<open>\<^verbatim>\<open>j[k1][k2]... = v\<close>, where missing objects are created.\<close>

fun jset :: "string list \<Rightarrow> json \<Rightarrow> json \<Rightarrow> json" where
  "jset [] v j = v"
| "jset (k # ks) v j =
     J_object (AList.update k (jset ks v (case map_of (members j) k of None \<Rightarrow> J_null | Some x \<Rightarrow> x)) (members j))"

definition jsets :: "(string list \<times> json) list \<Rightarrow> json \<Rightarrow> json" where
  "jsets ps j = fold (\<lambda>(ks, v) j. jset ks v j) ps j"

section \<open>Requests\<close>

record CompanionRequest =
  rq_version :: int
  rq_id :: int
  rq_op :: string
  rq_token :: string
  rq_client :: string
  rq_offset :: int
  rq_limit :: int
  rq_sel_ids :: "u16 list"
  rq_sel_all :: bool

record SerializedResponse =
  rs_json :: string
  rs_truncated :: bool

definition kMaxIdsPerRequest :: int where
  "kMaxIdsPerRequest = 32"

text \<open>Elements that are no integer or do not fit in 16 bits are skipped.\<close>

fun parse_ids :: "json list \<Rightarrow> u16 list" where
  "parse_ids [] = []"
| "parse_ids (J_int i # vs) =
     (let raw = sint (of_int i :: 64 word) in
      if 0 \<le> raw \<and> raw \<le> 0xFFFF then of_int raw # parse_ids vs else parse_ids vs)"
| "parse_ids (_ # vs) = parse_ids vs"

definition parse_sel :: "json_lib \<Rightarrow> json \<Rightarrow> (u16 list \<times> bool) option" where
  "parse_sel L obj =
     (case map_of (members obj) ''sel'' of
        Some (J_object ms) \<Rightarrow>
          Option.bind (json_value (get_bool L) ''all'' False (J_object ms)) (\<lambda>sel_all.
            Some (case map_of ms ''ids'' of Some (J_array vs) \<Rightarrow> parse_ids vs | _ \<Rightarrow> [], sel_all))
      | _ \<Rightarrow> Some ([], False))"

text \<open>
  \<^verbatim>\<open>get<int>()\<close> converts the number of the value, which the library holds in 64 bits, with \<^verbatim>\<open>static_cast<int>\<close>;
  \<open>get_int\<close> is that number.
\<close>

definition get_int32 :: "json_lib \<Rightarrow> json \<Rightarrow> int option" where
  "get_int32 L j = map_option to_int (get_int L j)"

definition parseRequest :: "json_lib \<Rightarrow> string \<Rightarrow> CompanionRequest option" where
  "parseRequest L json_text =
     Option.bind (json_parse L json_text) (\<lambda>obj.
     Option.bind (json_value (get_int32 L) ''v'' 0 obj) (\<lambda>version.
     Option.bind (json_value (get_int32 L) ''id'' 0 obj) (\<lambda>request_id.
     Option.bind (json_value (get_string L) ''op'' '''' obj) (\<lambda>op.
     Option.bind (json_value (get_string L) ''token'' '''' obj) (\<lambda>tok.
     Option.bind (json_value (get_string L) ''client'' '''' obj) (\<lambda>client.
     Option.bind (json_value (get_int32 L) ''offset'' 0 obj) (\<lambda>ofs.
     Option.bind (json_value (get_int32 L) ''limit'' 8 obj) (\<lambda>lmt.
     Option.bind (parse_sel L obj) (\<lambda>(sel_ids, sel_all).
       if op = '''' then None
       else Some \<lparr>rq_version = version, rq_id = request_id, rq_op = op, rq_token = tok, rq_client = client,
                  rq_offset = ofs, rq_limit = lmt, rq_sel_ids = sel_ids, rq_sel_all = sel_all\<rparr>)))))))))"

section \<open>Responses\<close>

definition trySerialize :: "json_lib \<Rightarrow> json \<Rightarrow> nat \<Rightarrow> string" where
  "trySerialize L obj budget =
     (let s = json_dump L obj in if budget < length s then '''' else s)"

definition baseResponse :: "int \<Rightarrow> bool \<Rightarrow> bool \<Rightarrow> string \<Rightarrow> json" where
  "baseResponse request_id ok truncated client =
     (let r = jsets [([''v''], J_int 1), ([''id''], J_int request_id), ([''ok''], J_bool ok),
                ([''truncated''], J_bool truncated)] J_null;
          r = (if ok then jset [''err''] J_null r else r)
      in if client \<noteq> '''' then jset [''client''] (J_string client) r else r)"

definition buildError :: "json_lib \<Rightarrow> int \<Rightarrow> string \<Rightarrow> string \<Rightarrow> SerializedResponse" where
  "buildError L request_id err client =
     (let r = jsets [([''v''], J_int 1), ([''id''], J_int request_id), ([''ok''], J_bool False),
                ([''err''], J_string err), ([''truncated''], J_bool False)] J_null;
          r = (if client \<noteq> '''' then jset [''client''] (J_string client) r else r)
      in \<lparr>rs_json = json_dump L r, rs_truncated = False\<rparr>)"

definition status_data :: "ServiceSnapshot \<Rightarrow> json" where
  "status_data snap = jsets
     [([''service'', ''state''], J_string (ss_state snap)),
      ([''service'', ''version''], J_string (ss_version snap)),
      ([''link'', ''transport_connected''], J_bool (ss_transport_connected snap)),
      ([''link'', ''heartbeat_fresh''], J_bool (ss_heartbeat_fresh snap)),
      ([''vehicle'', ''detected''], J_bool (ss_vehicle_detected snap)),
      ([''vehicle'', ''armed''], J_bool (ss_vehicle_armed snap)),
      ([''fc_logs'', ''count''], J_int (ss_fc_logs_count snap)),
      ([''fc_logs'', ''stale''], J_bool (ss_fc_logs_stale snap)),
      ([''archive'', ''active''], J_bool (ss_archive_active snap)),
      ([''archive'', ''current_log_id''], J_int (uint (ss_archive_current_log_id snap))),
      ([''archive'', ''progress_bytes''], J_int (uint (ss_archive_progress_bytes snap))),
      ([''archive'', ''progress_total_bytes''], J_int (uint (ss_archive_progress_total_bytes snap))),
      ([''archive'', ''percent''], J_int (ss_archive_percent snap)),
      ([''archive'', ''bytes_per_sec''], J_int (uint (ss_archive_bytes_per_sec snap))),
      ([''archive'', ''last_cycle'', ''downloaded''], J_int (ss_last_cycle_downloaded snap)),
      ([''archive'', ''last_cycle'', ''skipped''], J_int (ss_last_cycle_skipped snap)),
      ([''archive'', ''last_cycle'', ''failed''], J_int (ss_last_cycle_failed snap)),
      ([''archive'', ''last_cycle'', ''cancelled''], J_int (ss_last_cycle_cancelled snap)),
      ([''archive'', ''last_cycle'', ''all_archived''], J_bool (ss_last_cycle_all_archived snap)),
      ([''job'', ''active''], J_bool (ss_job_type snap \<noteq> '''')),
      ([''job'', ''type''], if ss_job_type snap = '''' then J_null else J_string (ss_job_type snap)),
      ([''storage'', ''used_bytes''], J_int (uint (ss_storage_used_bytes snap))),
      ([''storage'', ''limit_bytes''], J_int (uint (ss_storage_limit_bytes snap))),
      ([''storage'', ''archived_count''], J_int (ss_storage_archived_count snap)),
      ([''recording'', ''enabled''], J_bool (ss_recording_enabled snap)),
      ([''recording'', ''active''], J_bool (ss_recording_active snap)),
      ([''recording'', ''duration_sec''], J_int (uint (ss_recording_duration_sec snap))),
      ([''recording'', ''free_bytes''], J_int (uint (ss_recording_free_bytes snap))),
      ([''recording'', ''error''],
        if ss_recording_crash_reason snap = '''' then J_null else J_string (ss_recording_crash_reason snap))] J_null"

definition minimal_data :: "ServiceSnapshot \<Rightarrow> json" where
  "minimal_data snap = jsets
     [([''service'', ''state''], J_string (ss_state snap)),
      ([''archive'', ''active''], J_bool (ss_archive_active snap)),
      ([''archive'', ''progress_bytes''], J_int (uint (ss_archive_progress_bytes snap))),
      ([''archive'', ''progress_total_bytes''], J_int (uint (ss_archive_progress_total_bytes snap)))] J_null"

definition buildStatus :: "json_lib \<Rightarrow> int \<Rightarrow> ServiceSnapshot \<Rightarrow> nat \<Rightarrow> string \<Rightarrow> SerializedResponse" where
  "buildStatus L request_id snap budget client =
     (let r = jset [''data''] (status_data snap) (baseResponse request_id True False client);
          s = trySerialize L r budget
      in if s = '''' then
           let minimal = jset [''data''] (minimal_data snap) (baseResponse request_id True True client)
           in \<lparr>rs_json = trySerialize L minimal budget, rs_truncated = True\<rparr>
         else \<lparr>rs_json = s, rs_truncated = False\<rparr>)"

definition entry_json :: "FcLogEntry \<Rightarrow> json" where
  "entry_json e = J_object [(''id'', J_int (uint (fe_id e))), (''size'', J_int (uint (fe_size e))),
     (''t'', J_int (uint (fe_time_utc e))), (''dl'', J_bool (fe_downloaded e))]"

definition page_json :: "int \<Rightarrow> string \<Rightarrow> FcLogsPage \<Rightarrow> json" where
  "page_json request_id client p =
     jset [''data'']
       (jsets [([''count''], J_int (pg_count p)), ([''offset''], J_int (pg_offset p)), ([''stale''], J_bool (pg_stale p)),
               ([''entries''], J_array (map entry_json (pg_entries p)))] J_null)
       (baseResponse request_id True (pg_truncated p) client)"

text \<open>The degradation ladder: halve the list until the response fits; \<open>None\<close> when nothing fits.\<close>

function degrade :: "json_lib \<Rightarrow> int \<Rightarrow> string \<Rightarrow> nat \<Rightarrow> FcLogsPage \<Rightarrow> string option" where
  "degrade L request_id client budget p =
     (if pg_entries p = [] then None
      else
        let p = p\<lparr>pg_entries := take (length (pg_entries p) div 2) (pg_entries p)\<rparr>;
            s = trySerialize L (page_json request_id client p) budget
        in if s \<noteq> '''' then Some s else degrade L request_id client budget p)"
  by pat_completeness auto
termination by (relation "measure (\<lambda>(L, i, c, m, p). length (pg_entries p))") auto

declare degrade.simps [simp del]

definition buildFcLogs :: "json_lib \<Rightarrow> int \<Rightarrow> FcLogsPage \<Rightarrow> nat \<Rightarrow> string \<Rightarrow> SerializedResponse" where
  "buildFcLogs L request_id page budget client =
     (let s = trySerialize L (page_json request_id client page) budget in
      if s \<noteq> '''' then \<lparr>rs_json = s, rs_truncated = pg_truncated page\<rparr>
      else case degrade L request_id client budget (page\<lparr>pg_truncated := True\<rparr>) of
        Some s \<Rightarrow> \<lparr>rs_json = s, rs_truncated = True\<rparr>
      | None \<Rightarrow> \<lparr>rs_json = rs_json (buildError L request_id ''internal'' client), rs_truncated = False\<rparr>)"

definition buildAck :: "json_lib \<Rightarrow> int \<Rightarrow> bool \<Rightarrow> string \<Rightarrow> string \<Rightarrow> SerializedResponse" where
  "buildAck L request_id ok err client =
     (let r = baseResponse request_id ok False client;
          r = (if \<not> ok \<and> err \<noteq> '''' then jset [''err''] (J_string err) r else r)
      in \<lparr>rs_json = json_dump L r, rs_truncated = False\<rparr>)"

definition buildJobAck :: "json_lib \<Rightarrow> int \<Rightarrow> bool \<Rightarrow> string \<Rightarrow> SerializedResponse" where
  "buildJobAck L request_id already_running client =
     \<lparr>rs_json = json_dump L (jsets [([''data'', ''accepted''], J_bool True),
        ([''data'', ''already_running''], J_bool already_running)] (baseResponse request_id True False client)),
      rs_truncated = False\<rparr>"

definition buildDownloadAck :: "json_lib \<Rightarrow> int \<Rightarrow> int \<Rightarrow> u16 list \<Rightarrow> string \<Rightarrow> SerializedResponse" where
  "buildDownloadAck L request_id queued not_found client =
     \<lparr>rs_json = json_dump L (jsets [([''data'', ''accepted''], J_bool True), ([''data'', ''queued''], J_int queued),
        ([''data'', ''not_found''], J_array (map (\<lambda>i. J_int (uint i)) not_found))] (baseResponse request_id True False client)),
      rs_truncated = False\<rparr>"

definition buildRecAck :: "json_lib \<Rightarrow> int \<Rightarrow> bool \<Rightarrow> string \<Rightarrow> SerializedResponse" where
  "buildRecAck L request_id active client =
     \<lparr>rs_json = json_dump L (jset [''data'', ''active''] (J_bool active) (baseResponse request_id True False client)),
      rs_truncated = False\<rparr>"

definition caps_ops :: "string list" where
  "caps_ops = [''status'', ''fc.logs'', ''caps'', ''archive.start'', ''archive.cancel'', ''logs.refresh'', ''logs.download'',
     ''logs.erase'', ''rec.start'', ''rec.stop'']"

definition buildCaps :: "json_lib \<Rightarrow> int \<Rightarrow> int \<Rightarrow> int \<Rightarrow> int \<Rightarrow> nat \<Rightarrow> string \<Rightarrow> SerializedResponse" where
  "buildCaps L request_id max_req max_resp max_fc_logs budget client =
     (let r = jset [''data''] (jsets
            [([''v''], J_int 1), ([''ops''], J_array (map J_string caps_ops)),
             ([''limits'', ''max_request_bytes''], J_int max_req),
             ([''limits'', ''max_response_bytes''], J_int max_resp),
             ([''limits'', ''max_fc_logs_per_response''], J_int max_fc_logs),
             ([''limits'', ''max_ids_per_request''], J_int kMaxIdsPerRequest)] J_null)
            (baseResponse request_id True False client);
          s = trySerialize L r budget
      in if s = '''' then \<lparr>rs_json = rs_json (buildError L request_id ''internal'' client), rs_truncated = False\<rparr>
         else \<lparr>rs_json = s, rs_truncated = False\<rparr>)"

section \<open>Properties\<close>

text \<open>A request as a client writes it, with the members in the order of the library's objects.\<close>

definition request_json :: "CompanionRequest \<Rightarrow> json" where
  "request_json r = J_object
     [(''client'', J_string (rq_client r)), (''id'', J_int (rq_id r)), (''limit'', J_int (rq_limit r)),
      (''offset'', J_int (rq_offset r)), (''op'', J_string (rq_op r)),
      (''sel'', J_object [(''all'', J_bool (rq_sel_all r)), (''ids'', J_array (map (\<lambda>i. J_int (uint i)) (rq_sel_ids r)))]),
      (''token'', J_string (rq_token r)), (''v'', J_int (rq_version r))]"

lemma parse_ids_uint: "parse_ids (map (\<lambda>i. J_int (uint i)) is) = is"
proof (induction "is")
  case (Cons i "is")
  have b: "0 \<le> uint i" "uint i \<le> 65535" using uint_lt2p [of i] by simp_all
  moreover have "- (2 ^ 63) \<le> uint i" by (rule order_trans [OF _ b(1)]) simp
  ultimately have "sint (of_int (uint i) :: 64 word) = uint i"
    unfolding sint_sbintrunc' by (simp add: signed_take_bit_int_eq_self)
  with Cons b show ?case by (simp add: Let_def)
qed simp

text \<open>
  (C24) A request survives the wire: if the library reads back what it wrote and converts numbers,
  strings and truth values to themselves, then parsing the text of a request with an operation, whose
  version, id, offset and limit fit into an \<^verbatim>\<open>int\<close>, gives the request again, with all ids of its selection.
  (A number outside that range is read as its low 32 bits.)
\<close>

theorem request_roundtrip:
  assumes "json_parse L (json_dump L (request_json r)) = Some (request_json r)"
    and "\<And>i. get_int L (J_int i) = Some i" and "\<And>x. get_string L (J_string x) = Some x"
    and "\<And>b. get_bool L (J_bool b) = Some b" and "rq_op r \<noteq> ''''"
    and "list_all in_int32 [rq_version r, rq_id r, rq_offset r, rq_limit r]"
  shows "parseRequest L (json_dump L (request_json r)) = Some r"
  using assms
  by (simp add: parseRequest_def request_json_def json_value_def get_int32_def parse_sel_def parse_ids_uint)

text \<open>A library that writes a digest of the value, for the examples.\<close>

definition ex_json_lib :: "json \<Rightarrow> json_lib" where
  "ex_json_lib j =
     \<lparr>json_parse = (\<lambda>s. if s = ''{}'' then Some j else None), json_dump = (\<lambda>_. ''{}''),
      get_int = (\<lambda>v. case v of J_int i \<Rightarrow> Some i | _ \<Rightarrow> None),
      get_string = (\<lambda>v. case v of J_string x \<Rightarrow> Some x | _ \<Rightarrow> None),
      get_bool = (\<lambda>v. case v of J_bool b \<Rightarrow> Some b | _ \<Rightarrow> None)\<rparr>"

definition ex_request :: "string \<Rightarrow> string \<Rightarrow> CompanionRequest" where
  "ex_request op tok = \<lparr>rq_version = 1, rq_id = 7, rq_op = op, rq_token = tok, rq_client = ''gs'', rq_offset = 0,
     rq_limit = 8, rq_sel_ids = [3, 65535], rq_sel_all = False\<rparr>"

theorem request_roundtrip_witness:
  "parseRequest (ex_json_lib (request_json (ex_request ''logs.download'' ''t''))) ''{}'' = Some (ex_request ''logs.download'' ''t'')"
  using request_roundtrip [of "ex_json_lib (request_json (ex_request ''logs.download'' ''t''))" "ex_request ''logs.download'' ''t''"]
  by (simp add: ex_json_lib_def ex_request_def in_int32_def)

lemma trySerialize_cases:
  assumes "\<And>j. json_dump L j \<noteq> ''''"
  shows "trySerialize L j m \<noteq> '''' \<longleftrightarrow> length (json_dump L j) \<le> m"
    and "trySerialize L j m \<noteq> '''' \<Longrightarrow> trySerialize L j m = json_dump L j"
  using assms by (auto simp: trySerialize_def Let_def split: if_splits)

text \<open>The lengths the degradation ladder tries: half of the entries, a quarter, and so on down to none.\<close>

fun halvings :: "nat \<Rightarrow> nat list" where
  "halvings n = (if n = 0 then [] else n div 2 # halvings (n div 2))"

declare halvings.simps [simp del]

lemma halvings_less: "k \<in> set (halvings n) \<Longrightarrow> k < n"
proof (induction n rule: halvings.induct)
  case (1 n)
  then show ?case by (subst (asm) (2) halvings.simps) (auto split: if_splits)
qed

lemma halvings_zero: "0 < n \<Longrightarrow> 0 \<in> set (halvings n)"
proof (induction n rule: halvings.induct)
  case (1 n)
  then show ?case by (subst halvings.simps) (cases "n div 2 = 0"; simp)
qed

text \<open>The text of a page cut to its first \<open>k\<close> entries.\<close>

definition cut_page :: "json_lib \<Rightarrow> int \<Rightarrow> string \<Rightarrow> FcLogsPage \<Rightarrow> nat \<Rightarrow> string" where
  "cut_page L i c p k = json_dump L (page_json i c (p\<lparr>pg_entries := take k (pg_entries p)\<rparr>))"

lemma map_option_find_cong:
  "(\<And>x. x \<in> set xs \<Longrightarrow> f x = g x) \<Longrightarrow>
   map_option f (find (\<lambda>x. P (f x)) xs) = map_option g (find (\<lambda>x. P (g x)) xs)"
  by (induction xs) auto

lemma degrade_find:
  assumes "\<And>j. json_dump L j \<noteq> ''''"
  shows "degrade L i c m p =
    map_option (cut_page L i c p) (find (\<lambda>k. length (cut_page L i c p k) \<le> m) (halvings (length (pg_entries p))))"
  using assms
proof (induction L i c m p rule: degrade.induct)
  case (1 L i c m p)
  let ?n = "length (pg_entries p)"
  let ?q = "p\<lparr>pg_entries := take (?n div 2) (pg_entries p)\<rparr>"
  show ?case
  proof (cases "pg_entries p = []")
    case True
    then show ?thesis by (subst degrade.simps, subst halvings.simps) simp
  next
    case ne: False
    have len: "length (pg_entries ?q) = ?n div 2" by simp
    have q: "cut_page L i c ?q k = cut_page L i c p k" if "k \<in> set (halvings (?n div 2))" for k
      using halvings_less [OF that] by (simp add: cut_page_def min_def)
    have h: "halvings ?n = ?n div 2 # halvings (?n div 2)" using ne by (subst halvings.simps) simp
    have t: "trySerialize L (page_json i c ?q) m = ''''  \<longleftrightarrow> \<not> length (cut_page L i c p (?n div 2)) \<le> m"
      using trySerialize_cases(1) [OF "1.prems"] by (auto simp: cut_page_def)
    show ?thesis
    proof (cases "trySerialize L (page_json i c ?q) m = ''''")
      case True
      have "degrade L i c m p = degrade L i c m ?q"
        using ne True by (subst degrade.simps) (simp add: Let_def)
      also have "\<dots> = map_option (cut_page L i c ?q) (find (\<lambda>k. length (cut_page L i c ?q k) \<le> m) (halvings (?n div 2)))"
        using "1.IH" [OF ne refl refl _ "1.prems"] True unfolding len by simp
      also have "\<dots> = map_option (cut_page L i c p) (find (\<lambda>k. length (cut_page L i c p k) \<le> m) (halvings (?n div 2)))"
        using q by (rule map_option_find_cong)
      finally show ?thesis using True t by (simp add: h)
    next
      case False
      with ne t trySerialize_cases(2) [OF "1.prems" False] show ?thesis
        by (subst degrade.simps) (simp add: h Let_def cut_page_def)
    qed
  qed
qed

text \<open>
  (C25) A page of logs is cut to fit: the response to \<^verbatim>\<open>fc.logs\<close> is the whole page exactly when that fits
  into the budget. Otherwise it is marked as truncated and holds the first \<open>k\<close> entries, for the largest
  \<open>k\<close> among half of the entries, a quarter and so on down to none with which the page fits; only when
  not even the page without entries fits is it the error \<^verbatim>\<open>internal\<close>.
\<close>

theorem fc_logs_fit_budget:
  assumes "\<And>j. json_dump L j \<noteq> ''''"
  shows "if length (json_dump L (page_json i c page)) \<le> m
    then buildFcLogs L i page m c = \<lparr>rs_json = json_dump L (page_json i c page), rs_truncated = pg_truncated page\<rparr>
    else let cut = cut_page L i c (page\<lparr>pg_truncated := True\<rparr>) in
      case find (\<lambda>k. length (cut k) \<le> m) (halvings (length (pg_entries page))) of
        Some k \<Rightarrow> buildFcLogs L i page m c = \<lparr>rs_json = cut k, rs_truncated = True\<rparr> \<and>
          k < length (pg_entries page) \<and> length (cut k) \<le> m
      | None \<Rightarrow> buildFcLogs L i page m c = \<lparr>rs_json = rs_json (buildError L i ''internal'' c), rs_truncated = False\<rparr> \<and>
          (pg_entries page = [] \<or> m < length (cut 0))"
proof (cases "length (json_dump L (page_json i c page)) \<le> m")
  case True
  with assms show ?thesis by (simp add: buildFcLogs_def trySerialize_def)
next
  case False
  let ?p = "page\<lparr>pg_truncated := True\<rparr>"
  let ?f = "find (\<lambda>k. length (cut_page L i c ?p k) \<le> m) (halvings (length (pg_entries page)))"
  have b: "buildFcLogs L i page m c = (case map_option (cut_page L i c ?p) ?f of
      Some s \<Rightarrow> \<lparr>rs_json = s, rs_truncated = True\<rparr>
    | None \<Rightarrow> \<lparr>rs_json = rs_json (buildError L i ''internal'' c), rs_truncated = False\<rparr>)"
    using False degrade_find [OF assms, of i c m ?p] by (simp add: buildFcLogs_def trySerialize_def)
  show ?thesis
  proof (cases ?f)
    case None
    with halvings_zero [of "length (pg_entries page)"] have "pg_entries page = [] \<or> m < length (cut_page L i c ?p 0)"
      by (auto simp: find_None_iff not_le)
    with None False b show ?thesis by simp
  next
    case (Some k)
    then have "k \<in> set (halvings (length (pg_entries page)))" "length (cut_page L i c ?p k) \<le> m"
      by (auto simp: find_Some_iff)
    with Some False b halvings_less show ?thesis by simp
  qed
qed

theorem fc_logs_fit_budget_witness:
  "buildFcLogs (ex_json_lib J_null) 1
     \<lparr>pg_count = 0, pg_offset = 0, pg_entries = [], pg_truncated = False, pg_stale = False\<rparr> 2 ''''
   = \<lparr>rs_json = ''{}'', rs_truncated = False\<rparr>"
  using fc_logs_fit_budget [of "ex_json_lib J_null" 1 "''''"
      "\<lparr>pg_count = 0, pg_offset = 0, pg_entries = [], pg_truncated = False, pg_stale = False\<rparr>" 2]
  by (simp add: ex_json_lib_def)

text \<open>
  What does not fit is not always kept back: an error is sent whatever its length, and a status that
  does not fit even in its minimal form becomes an empty response.
\<close>

lemma oversized_responses:
  assumes "\<And>j. json_dump L j \<noteq> ''''"
  shows "0 < length (rs_json (buildCaps L i a b d 0 c))" and "rs_json (buildStatus L i snap 0 c) = ''''"
  using assms by (simp_all add: buildCaps_def buildError_def buildStatus_def trySerialize_def Let_def)

end
