(* ===== verification/CompanionUdpServer.thy ===== *)
theory CompanionUdpServer
  imports CompanionProtocol Transport
begin

text \<open>
  \<^verbatim>\<open>CompanionUdpServer\<close>: the UDP socket of the companion API, its receive loop, its keepalive loop, and the
  handling of one request. The callbacks are those that the constructor of \<^verbatim>\<open>DroneLogService\<close> installs, so
  that a request acts on the service and its recorder. The datagrams handed to \<^verbatim>\<open>sendto\<close> are results
  of the operations; log lines are not modelled.
\<close>

section \<open>The server object\<close>

text \<open>The two flags of threads tell whether they are joinable; \<open>cs_open\<close> lists the open descriptors.\<close>

record CompanionUdpServer =
  cs_settings :: CompanionSettings
  cs_running :: bool
  cs_thread :: bool
  cs_keepalive_thread :: bool
  cs_socket_fd :: int
  cs_open :: "int list"

definition CompanionUdpServer_new :: "CompanionSettings \<Rightarrow> CompanionUdpServer" where
  "CompanionUdpServer_new cfg =
     \<lparr>cs_settings = cfg, cs_running = False, cs_thread = False, cs_keepalive_thread = False, cs_socket_fd = -1, cs_open = []\<rparr>"

definition isListening :: "CompanionUdpServer \<Rightarrow> bool" where
  "isListening srv \<longleftrightarrow> cs_running srv \<and> cs_socket_fd srv \<noteq> -1"

definition server_start :: "net \<Rightarrow> CompanionUdpServer \<Rightarrow> bool \<times> CompanionUdpServer" where
  "server_start net srv =
     (if cs_running srv then (True, srv)
      else case net_resolve net (co_bind_host (cs_settings srv)) (int_to_string (co_bind_port (cs_settings srv))) of
        None \<Rightarrow> (False, srv)
      | Some result \<Rightarrow>
          let fd = net_socket net (hd result) in
          if fd = kInvalidSocket then (False, srv)
          else
            let srv = srv\<lparr>cs_open := fd # cs_open srv\<rparr> in
            if \<not> net_bind net (hd result) then (False, srv\<lparr>cs_open := closeSocket fd (cs_open srv)\<rparr>)
            else
              let srv = srv\<lparr>cs_socket_fd := fd, cs_running := True, cs_thread := True\<rparr> in
              (True, if 0 < udp_proxy_keepalive_ms (cs_settings srv) then srv\<lparr>cs_keepalive_thread := True\<rparr> else srv))"

definition server_stop :: "CompanionUdpServer \<Rightarrow> CompanionUdpServer" where
  "server_stop srv =
     (if \<not> cs_running srv \<and> cs_socket_fd srv = -1 then srv
      else
        let srv = srv\<lparr>cs_running := False\<rparr>;
            srv = srv\<lparr>cs_keepalive_thread := False\<rparr>;
            srv = (if cs_socket_fd srv \<noteq> -1
                   then srv\<lparr>cs_open := closeSocket (cs_socket_fd srv) (cs_open srv), cs_socket_fd := -1\<rparr> else srv)
        in srv\<lparr>cs_thread := False\<rparr>)"

section \<open>Handling one request\<close>

text \<open>The datagrams that are handed to \<^verbatim>\<open>sendto\<close>: none if the address of the client side does not resolve.\<close>

definition sendToWfb :: "net \<Rightarrow> CompanionSettings \<Rightarrow> string \<Rightarrow> string list" where
  "sendToWfb net cfg json =
     (case net_resolve net (send_host cfg) (int_to_string (send_port cfg)) of
        None \<Rightarrow> [] | Some result \<Rightarrow> [json])"

definition job_response :: "json_lib \<Rightarrow> CompanionRequest \<Rightarrow> JobOutcome \<Rightarrow> SerializedResponse" where
  "job_response L req outcome =
     (case job_result outcome of
        Accepted \<Rightarrow>
          (if rq_op req = ''logs.download''
           then buildDownloadAck L (rq_id req) (job_queued outcome) (job_not_found outcome) (rq_client req)
           else buildJobAck L (rq_id req) False (rq_client req))
      | AlreadyRunning \<Rightarrow> buildJobAck L (rq_id req) True (rq_client req)
      | Armed \<Rightarrow> buildError L (rq_id req) ''armed'' (rq_client req)
      | NotConnected \<Rightarrow> buildError L (rq_id req) ''not_connected'' (rq_client req)
      | NotFound \<Rightarrow> buildError L (rq_id req) ''not_found'' (rq_client req))"

definition respondToJobOutcome ::
  "json_lib \<Rightarrow> net \<Rightarrow> CompanionSettings \<Rightarrow> CompanionRequest \<Rightarrow> JobOutcome \<times> service \<Rightarrow> node \<Rightarrow> (exn + string list) \<times> node" where
  "respondToJobOutcome L net cfg req gate n =
     (case gate of (outcome, s) \<Rightarrow>
        (Inr (sendToWfb net cfg (rs_json (job_response L req outcome))), n\<lparr>nd_service := s\<rparr>))"

definition rec_response :: "json_lib \<Rightarrow> CompanionRequest \<Rightarrow> StartResult \<Rightarrow> SerializedResponse" where
  "rec_response L req result =
     (case result of
        Started \<Rightarrow> buildRecAck L (rq_id req) True (rq_client req)
      | AlreadyRecording \<Rightarrow> buildRecAck L (rq_id req) True (rq_client req)
      | Disabled \<Rightarrow> buildError L (rq_id req) ''recording_disabled'' (rq_client req)
      | NoMedia \<Rightarrow> buildError L (rq_id req) ''no_media'' (rq_client req)
      | Failed_start \<Rightarrow> buildError L (rq_id req) ''internal'' (rq_client req))"

definition is_mutating :: "string \<Rightarrow> bool" where
  "is_mutating op \<longleftrightarrow> op = ''archive.start'' \<or> op = ''archive.cancel'' \<or> op = ''logs.refresh'' \<or> op = ''logs.download'' \<or>
     op = ''logs.erase'' \<or> op = ''rec.start'' \<or> op = ''rec.stop''"

text \<open>The cast of \<^verbatim>\<open>max_response_bytes\<close> to \<^verbatim>\<open>size_t\<close>.\<close>

definition response_budget :: "CompanionSettings \<Rightarrow> nat" where
  "response_budget cfg = unat (of_int (max_response_bytes cfg) :: u64)"

definition dispatch ::
  "json_lib \<Rightarrow> net \<Rightarrow> sqlite \<Rightarrow> rec_env \<Rightarrow> CompanionSettings \<Rightarrow> CompanionRequest \<Rightarrow> node \<Rightarrow> (exn + string list) \<times> node" where
  "dispatch L net sq env cfg req n =
     (let i = rq_id req; c = rq_client req; s = nd_service n;
          send = (\<lambda>resp. sendToWfb net cfg (rs_json resp));
          bad_request = (Inr (send (buildError L i ''bad_request'' c)), n)
      in
      if rq_op req = ''status'' then
        (case buildSnapshot sq env n of
           (Inl e, n) \<Rightarrow> (Inl e, n)
         | (Inr snap, n) \<Rightarrow> (Inr (send (buildStatus L i snap (response_budget cfg) c)), n))
      else if rq_op req = ''fc.logs'' then
        (case buildFcLogsPage sq (rq_offset req) (min (rq_limit req) (max_fc_logs_per_response cfg)) n of
           (Inl e, n) \<Rightarrow> (Inl e, n)
         | (Inr page, n) \<Rightarrow> (Inr (send (buildFcLogs L i page (response_budget cfg) c)), n))
      else if rq_op req = ''caps'' then
        (Inr (send (buildCaps L i (max_request_bytes cfg) (max_response_bytes cfg)
           (max_fc_logs_per_response cfg) (response_budget cfg) c)), n)
      else if rq_op req = ''archive.start'' then
        respondToJobOutcome L net cfg req (requestCompanionJob Archive_job [] False s) n
      else if rq_op req = ''logs.refresh'' then
        respondToJobOutcome L net cfg req (requestCompanionJob Refresh_job [] False s) n
      else if rq_op req = ''logs.download'' then
        (if \<not> rq_sel_all req \<and> rq_sel_ids req = [] then bad_request
         else if int (length (rq_sel_ids req)) > kMaxIdsPerRequest then bad_request
         else respondToJobOutcome L net cfg req (requestCompanionJob Download_job (rq_sel_ids req) (rq_sel_all req) s) n)
      else if rq_op req = ''logs.erase'' then
        respondToJobOutcome L net cfg req (requestCompanionJob EraseAll_job [] False s) n
      else if rq_op req = ''archive.cancel'' then
        (Inr (send (buildJobAck L i False c)),
         n\<lparr>nd_service := push_command CancelArchiveCommand (upd_dl requestCancel s)\<rparr>)
      else if rq_op req = ''rec.start'' then
        (case rec_start env (nd_recorder n) of (result, v, _) \<Rightarrow>
           (Inr (send (rec_response L req result)), n\<lparr>nd_recorder := v\<rparr>))
      else if rq_op req = ''rec.stop'' then
        (case rec_stop env (nd_recorder n) of (_, v, _) \<Rightarrow>
           (Inr (send (buildRecAck L i False c)), n\<lparr>nd_recorder := v\<rparr>))
      else bad_request)"

definition handleRequest ::
  "json_lib \<Rightarrow> net \<Rightarrow> sqlite \<Rightarrow> rec_env \<Rightarrow> CompanionSettings \<Rightarrow> string \<Rightarrow> node \<Rightarrow> (exn + string list) \<times> node" where
  "handleRequest L net sq env cfg json_text n =
     (if int (length json_text) > max_request_bytes cfg then (Inr [], n)
      else case parseRequest L json_text of
        None \<Rightarrow> (Inr [], n)
      | Some req \<Rightarrow>
          if is_mutating (rq_op req) \<and> token cfg \<noteq> '''' \<and> rq_token req \<noteq> token cfg
          then (Inr (sendToWfb net cfg (rs_json (buildError L (rq_id req) ''bad_token'' (rq_client req)))), n)
          else dispatch L net sq env cfg req n)"

section \<open>The receive loop\<close>

text \<open>
  One pass: what the other threads did to the node before it, the value of \<^verbatim>\<open>running_\<close> that the loop
  reads, the result of \<^verbatim>\<open>recvfrom\<close> (\<open>None\<close> an error), and the environment of the recorder. The loop ends by
  leaving it, or by an exception that escapes from the thread function and so terminates the process;
  at the end of the given passes it is waiting for the next datagram.
\<close>

record rx_pass =
  rp_others :: "node \<Rightarrow> node"
  rp_running :: bool
  rp_recv :: "string option"
  rp_env :: rec_env

datatype rx_end = Rx_waiting | Rx_exited | Rx_escaped exn

definition kBufSize :: nat where
  "kBufSize = 4096"

fun server_rxLoop ::
  "json_lib \<Rightarrow> net \<Rightarrow> sqlite \<Rightarrow> CompanionSettings \<Rightarrow> rx_pass list \<Rightarrow> node \<Rightarrow> string list \<times> rx_end \<times> node" where
  "server_rxLoop L net sq cfg [] n = ([], Rx_waiting, n)"
| "server_rxLoop L net sq cfg (p # ps) n =
     (let n = rp_others p n in
      if \<not> rp_running p then ([], Rx_exited, n)
      else case map_option (take (kBufSize - 1)) (rp_recv p) of
        None \<Rightarrow> ([], Rx_exited, n)
      | Some buf \<Rightarrow>
          if length buf = 0 then ([], Rx_exited, n)
          else case handleRequest L net sq (rp_env p) cfg buf n of
            (Inl e, n) \<Rightarrow> ([], Rx_escaped e, n)
          | (Inr out, n) \<Rightarrow>
              (case server_rxLoop L net sq cfg ps n of (outs, e, n) \<Rightarrow> (out @ outs, e, n)))"

section \<open>The keepalive loop\<close>

text \<open>
  One pass: \<^verbatim>\<open>running_\<close> at the head of the loop, the result of \<^verbatim>\<open>sendto\<close>, and \<^verbatim>\<open>running_\<close> after a failure.
\<close>

datatype keepalive_action = Send_keepalive | Warn_failed | Log_primed | Wait_ms int

fun keepalive_loop :: "int \<Rightarrow> bool \<Rightarrow> u64 \<Rightarrow> (bool \<times> int \<times> bool) list \<Rightarrow> keepalive_action list" where
  "keepalive_loop ms logged_first consecutive_failures [] = []"
| "keepalive_loop ms logged_first consecutive_failures ((running, sent_bytes, running_after) # ps) =
     (if \<not> running then []
      else if sent_bytes < 0 then
        (if running_after then
           [Send_keepalive] @ (if consecutive_failures mod 30 = 0 then [Warn_failed] else []) @ [Wait_ms ms] @
             keepalive_loop ms logged_first (consecutive_failures + 1) ps
         else [Send_keepalive, Wait_ms ms] @ keepalive_loop ms logged_first consecutive_failures ps)
      else [Send_keepalive] @ (if logged_first then [] else [Log_primed]) @ [Wait_ms ms] @ keepalive_loop ms True 0 ps)"

definition udpProxyKeepaliveLoop :: "net \<Rightarrow> CompanionSettings \<Rightarrow> (bool \<times> int \<times> bool) list \<Rightarrow> keepalive_action list" where
  "udpProxyKeepaliveLoop net cfg ps =
     (case net_resolve net (send_host cfg) (int_to_string (send_port cfg)) of
        None \<Rightarrow> [] | Some result \<Rightarrow> keepalive_loop (udp_proxy_keepalive_ms cfg) False 0 ps)"

section \<open>Lemmas\<close>

text \<open>
  What a request is to the service: the event of the main model that it stands for, or none. A request
  that is refused, a query and the recorder's requests stand for none.
\<close>

definition request_event :: "CompanionSettings \<Rightarrow> CompanionRequest \<Rightarrow> service_event option" where
  "request_event cfg req =
     (if token cfg \<noteq> '''' \<and> rq_token req \<noteq> token cfg then None
      else if rq_op req = ''archive.start'' then Some (Ev_request Archive_job [] False)
      else if rq_op req = ''logs.refresh'' then Some (Ev_request Refresh_job [] False)
      else if rq_op req = ''logs.erase'' then Some (Ev_request EraseAll_job [] False)
      else if rq_op req = ''archive.cancel'' then Some Ev_cancel
      else if rq_op req = ''logs.download'' \<and> (rq_sel_all req \<or> rq_sel_ids req \<noteq> []) \<and> length (rq_sel_ids req) \<le> 32
      then Some (Ev_request Download_job (rq_sel_ids req) (rq_sel_all req))
      else None)"

definition datagram_event :: "json_lib \<Rightarrow> CompanionSettings \<Rightarrow> string \<Rightarrow> service_event option" where
  "datagram_event L cfg json_text =
     (if int (length json_text) > max_request_bytes cfg then None
      else Option.bind (parseRequest L json_text) (request_event cfg))"

definition recorder_after :: "rec_env \<Rightarrow> VideoRecorder \<Rightarrow> VideoRecorder set" where
  "recorder_after env v = {v, reapIfExited env v, fst (snd (rec_start env v)), fst (snd (rec_stop env v))}"

text \<open>Two services that differ at most in how often SQLite was called.\<close>

definition same_but_calls :: "service \<Rightarrow> service \<Rightarrow> bool" where
  "same_but_calls s s' \<longleftrightarrow> (\<exists>k. s' = handle_event (Ev_reads k) s)"

lemma same_but_calls_refl [simp]: "same_but_calls s s"
  unfolding same_but_calls_def by (rule exI [of _ 0]) (simp add: count_calls_def)

lemma count_calls_0: "\<exists>k. d = count_calls k d"
  by (rule exI [of _ 0]) (simp add: count_calls_def)

lemma count_calls_add: "count_calls j (count_calls k d) = count_calls (k + j) d"
  by (simp add: count_calls_def)

lemma sqlite_call_counts: "sqlite_call sq d = (x, d') \<Longrightarrow> d' = count_calls 1 d"
  by (auto simp: sqlite_call_def count_calls_def)

lemma getStat_counts: "getStat sq key d = (x, d') \<Longrightarrow> \<exists>k. d' = count_calls k d"
  by (auto simp: getStat_def count_calls_add dest!: sqlite_call_counts split: prod.splits bool.splits)

lemma hasArchived_counts: "hasArchived sq i m d = (x, d') \<Longrightarrow> \<exists>k. d' = count_calls k d"
  by (auto simp: hasArchived_def findCandidate_def count_calls_add Let_def dest!: sqlite_call_counts
      split: prod.splits bool.splits sum.splits if_splits)

lemma page_entries_counts: "page_entries sq es d = (x, d') \<Longrightarrow> \<exists>k. d' = count_calls k d"
proof (induction es arbitrary: d x d')
  case (Cons e es)
  obtain y d1 where h: "hasArchived sq (le_id e) (le_size e) d = (y, d1)" by fastforce
  obtain z d2 where p: "page_entries sq es d1 = (z, d2)" by fastforce
  obtain j k where "d1 = count_calls j d" "d2 = count_calls k d1"
    using hasArchived_counts [OF h] Cons.IH [OF p] by blast
  with Cons.prems h p show ?case by (auto simp: count_calls_add split: sum.splits)
qed (simp add: count_calls_0)

lemma buildSnapshot_frame:
  "buildSnapshot sq env n = (x, n') \<Longrightarrow> same_but_calls (nd_service n) (nd_service n') \<and>
     nd_recorder n' \<in> {nd_recorder n, reapIfExited env (nd_recorder n)}"
  by (auto simp: buildSnapshot_def Let_def rec_snapshot_def upd_db_def same_but_calls_def dest!: getStat_counts split: prod.splits sum.splits)

lemma buildFcLogsPage_frame:
  "buildFcLogsPage sq ofs m n = (x, n') \<Longrightarrow> same_but_calls (nd_service n) (nd_service n') \<and> nd_recorder n' = nd_recorder n"
  by (auto simp: buildFcLogsPage_def Let_def upd_db_def same_but_calls_def dest!: page_entries_counts split: prod.splits sum.splits)

text \<open>The branches of \<open>dispatch\<close>, one per operation.\<close>

lemma dispatch_query:
  "rq_op req = ''status'' \<Longrightarrow> dispatch L net sq env cfg req n =
     (case buildSnapshot sq env n of
        (Inl e, n) \<Rightarrow> (Inl e, n)
      | (Inr snap, n) \<Rightarrow>
          (Inr (sendToWfb net cfg (rs_json (buildStatus L (rq_id req) snap (response_budget cfg) (rq_client req)))), n))"
  "rq_op req = ''fc.logs'' \<Longrightarrow> dispatch L net sq env cfg req n =
     (case buildFcLogsPage sq (rq_offset req) (min (rq_limit req) (max_fc_logs_per_response cfg)) n of
        (Inl e, n) \<Rightarrow> (Inl e, n)
      | (Inr page, n) \<Rightarrow>
          (Inr (sendToWfb net cfg (rs_json (buildFcLogs L (rq_id req) page (response_budget cfg) (rq_client req)))), n))"
  by (simp_all add: dispatch_def Let_def)

lemma query_frame:
  assumes "rq_op req = ''status'' \<or> rq_op req = ''fc.logs''"
  shows "same_but_calls (nd_service n) (nd_service (snd (dispatch L net sq env cfg req n)))"
    and "nd_recorder (snd (dispatch L net sq env cfg req n)) \<in> {nd_recorder n, reapIfExited env (nd_recorder n)}"
proof -
  let ?page = "buildFcLogsPage sq (rq_offset req) (min (rq_limit req) (max_fc_logs_per_response cfg)) n"
  obtain x n1 where s: "buildSnapshot sq env n = (x, n1)" by fastforce
  obtain y n2 where p: "?page = (y, n2)" by fastforce
  have "snd (dispatch L net sq env cfg req n) = n1 \<or> snd (dispatch L net sq env cfg req n) = n2"
    using assms s p by (elim disjE) (simp_all add: dispatch_query split: sum.split)
  then show "same_but_calls (nd_service n) (nd_service (snd (dispatch L net sq env cfg req n)))"
    and "nd_recorder (snd (dispatch L net sq env cfg req n)) \<in> {nd_recorder n, reapIfExited env (nd_recorder n)}"
    using buildSnapshot_frame [OF s] buildFcLogsPage_frame [OF p] by (elim disjE; simp)+
qed

lemma dispatch_job:
  assumes "request_event cfg req = Some (Ev_request kind ids all)"
  shows "dispatch L net sq env cfg req n = respondToJobOutcome L net cfg req (requestCompanionJob kind ids all (nd_service n)) n"
  using assms
  by (simp add: request_event_def dispatch_def kMaxIdsPerRequest_def Let_def split: if_splits) blast

lemma dispatch_cancel:
  assumes "request_event cfg req = Some Ev_cancel"
  shows "dispatch L net sq env cfg req n = (Inr (sendToWfb net cfg (rs_json (buildJobAck L (rq_id req) False (rq_client req)))),
    n\<lparr>nd_service := push_command CancelArchiveCommand (upd_dl requestCancel (nd_service n))\<rparr>)"
  using assms by (simp add: request_event_def dispatch_def Let_def split: if_splits)

lemma dispatch_rec:
  "rq_op req = ''rec.start'' \<Longrightarrow> dispatch L net sq env cfg req n =
     (Inr (sendToWfb net cfg (rs_json (rec_response L req (fst (rec_start env (nd_recorder n)))))),
      n\<lparr>nd_recorder := fst (snd (rec_start env (nd_recorder n)))\<rparr>)"
  "rq_op req = ''rec.stop'' \<Longrightarrow> dispatch L net sq env cfg req n =
     (Inr (sendToWfb net cfg (rs_json (buildRecAck L (rq_id req) False (rq_client req)))),
      n\<lparr>nd_recorder := fst (snd (rec_stop env (nd_recorder n)))\<rparr>)"
  by (simp_all add: dispatch_def Let_def split: prod.split)

text \<open>What is left when the request is no event of the service and no query that reads the catalog.\<close>

lemma dispatch_other:
  assumes "request_event cfg req = None" "rq_op req \<noteq> ''status''" "rq_op req \<noteq> ''fc.logs''"
    and "\<not> (token cfg \<noteq> '''' \<and> rq_token req \<noteq> token cfg \<and> is_mutating (rq_op req))"
  shows "\<exists>resp v. dispatch L net sq env cfg req n = (Inr (sendToWfb net cfg resp), n\<lparr>nd_recorder := v\<rparr>) \<and>
    (rq_op req = ''rec.start'' \<or> rq_op req = ''rec.stop'' \<or> v = nd_recorder n)"
proof (cases "rq_op req = ''rec.start'' \<or> rq_op req = ''rec.stop''")
  case True
  then show ?thesis by (elim disjE) (simp_all only: dispatch_rec, blast+)
next
  case False
  have d: "\<exists>resp. dispatch L net sq env cfg req n = (Inr (sendToWfb net cfg resp), n)"
  proof (cases "rq_op req = ''caps''")
    case True
    then have "dispatch L net sq env cfg req n = (Inr (sendToWfb net cfg (rs_json (buildCaps L (rq_id req) (max_request_bytes cfg)
        (max_response_bytes cfg) (max_fc_logs_per_response cfg) (response_budget cfg) (rq_client req)))), n)"
      by (simp add: dispatch_def Let_def)
    then show ?thesis by blast
  next
    case caps: False
    have e: "request_event cfg req = None" "token cfg \<noteq> '''' \<and> rq_token req \<noteq> token cfg \<Longrightarrow> \<not> is_mutating (rq_op req)"
      using assms by blast+
    have "dispatch L net sq env cfg req n = (Inr (sendToWfb net cfg (rs_json (buildError L (rq_id req) ''bad_request'' (rq_client req)))), n)"
      using e False caps assms(2,3)
      by (simp add: request_event_def is_mutating_def dispatch_def kMaxIdsPerRequest_def Let_def not_less split: if_splits) blast
    then show ?thesis by blast
  qed
  have "n = n\<lparr>nd_recorder := nd_recorder n\<rparr>" by simp
  with d show ?thesis by metis
qed

lemma request_event_kinds: "request_event cfg req = Some e \<Longrightarrow> (\<exists>kind ids all. e = Ev_request kind ids all) \<or> e = Ev_cancel"
  by (auto simp: request_event_def split: if_splits)

lemma dispatch_service:
  assumes "\<not> (token cfg \<noteq> '''' \<and> rq_token req \<noteq> token cfg \<and> is_mutating (rq_op req))"
  shows "same_but_calls (case request_event cfg req of None \<Rightarrow> nd_service n | Some e \<Rightarrow> handle_event e (nd_service n))
    (nd_service (snd (dispatch L net sq env cfg req n)))"
proof (cases "request_event cfg req")
  case (Some e)
  with request_event_kinds [OF Some] show ?thesis
    by (auto simp: dispatch_job dispatch_cancel respondToJobOutcome_def split: prod.split)
next
  case None
  show ?thesis
  proof (cases "rq_op req = ''status'' \<or> rq_op req = ''fc.logs''")
    case True
    then show ?thesis
      using None query_frame by (elim disjE) (simp_all only: option.case, blast+)
  next
    case False
    with dispatch_other [OF None _ _ assms, of L net sq env n] None show ?thesis by auto
  qed
qed

lemma dispatch_recorder:
  assumes "\<not> is_mutating (rq_op req)"
  shows "nd_recorder (snd (dispatch L net sq env cfg req n)) \<in> {nd_recorder n, reapIfExited env (nd_recorder n)}"
proof (cases "rq_op req = ''status'' \<or> rq_op req = ''fc.logs''")
  case True
  then show ?thesis
    using query_frame by (elim disjE) blast+
next
  case False
  have ev: "request_event cfg req = None" using assms by (auto simp only: request_event_def is_mutating_def split: if_split)
  have tok: "\<not> (token cfg \<noteq> '''' \<and> rq_token req \<noteq> token cfg \<and> is_mutating (rq_op req))" using assms by blast
  have r: "rq_op req \<noteq> ''rec.start''" "rq_op req \<noteq> ''rec.stop''" using assms by (auto simp only: is_mutating_def)
  obtain resp v where "dispatch L net sq env cfg req n = (Inr (sendToWfb net cfg resp), n\<lparr>nd_recorder := v\<rparr>)" "v = nd_recorder n"
    using dispatch_other [OF ev _ _ tok, of L net sq env n] False r by blast
  then show ?thesis by simp
qed

lemma sendToWfb_length: "net_resolve net (send_host cfg) (int_to_string (send_port cfg)) \<noteq> None \<Longrightarrow> length (sendToWfb net cfg x) = 1"
  by (auto simp: sendToWfb_def)

lemma dispatch_responses:
  assumes "\<not> (token cfg \<noteq> '''' \<and> rq_token req \<noteq> token cfg \<and> is_mutating (rq_op req))"
    and "fst (dispatch L net sq env cfg req n) = Inr out"
  shows "\<exists>resp. out = sendToWfb net cfg resp"
proof (cases "request_event cfg req")
  case (Some e)
  with request_event_kinds [OF Some] assms(2) show ?thesis
    by (auto simp: dispatch_job dispatch_cancel respondToJobOutcome_def split: prod.splits)
next
  case None
  show ?thesis
  proof (cases "rq_op req = ''status'' \<or> rq_op req = ''fc.logs''")
    case True
    with assms(2) show ?thesis
      by (elim disjE) (auto simp: dispatch_query split: prod.splits sum.splits)
  next
    case False
    with dispatch_other [OF None _ _ assms(1), of L net sq env n] assms(2) show ?thesis by auto
  qed
qed

lemma handleRequest_service:
  "same_but_calls (case datagram_event L cfg txt of None \<Rightarrow> nd_service n | Some e \<Rightarrow> handle_event e (nd_service n))
     (nd_service (snd (handleRequest L net sq env cfg txt n)))"
proof (cases "parseRequest L txt")
  case (Some req)
  show ?thesis
  proof (cases "token cfg \<noteq> '''' \<and> rq_token req \<noteq> token cfg \<and> is_mutating (rq_op req)")
    case True
    then have "request_event cfg req = None" by (simp add: request_event_def)
    with True Some show ?thesis by (simp add: handleRequest_def datagram_event_def)
  next
    case False
    with Some dispatch_service [OF False, of n L net sq env] show ?thesis
      by (auto simp: handleRequest_def datagram_event_def)
  qed
qed (simp add: handleRequest_def datagram_event_def)

section \<open>Properties\<close>

text \<open>
  (C6) A datagram does to the service what the model of the main loop says of its event: handling it
  changes the service as \<open>handle_event\<close> does for the one event the request stands for, and not at all
  for a refused request or a query, except for the number of SQLite calls.
\<close>

theorem request_refines_event:
  "same_but_calls (case datagram_event L cfg txt of None \<Rightarrow> nd_service n | Some e \<Rightarrow> handle_event e (nd_service n))
     (nd_service (snd (handleRequest L net sq env cfg txt n)))"
  by (rule handleRequest_service)

text \<open>
  (C7) Without the token nothing is commanded: if a token is configured, then a datagram that is not a
  request with exactly this token leaves the service as it is, except for the number of SQLite calls,
  and neither starts nor stops a recording: the recorder at most notices that its process has ended.
\<close>

theorem commands_need_token:
  assumes "token cfg \<noteq> ''''" and "\<forall>req. parseRequest L txt = Some req \<longrightarrow> rq_token req \<noteq> token cfg"
  shows "same_but_calls (nd_service n) (nd_service (snd (handleRequest L net sq env cfg txt n))) \<and>
    nd_recorder (snd (handleRequest L net sq env cfg txt n)) \<in> {nd_recorder n, reapIfExited env (nd_recorder n)}"
proof (cases "parseRequest L txt")
  case (Some req)
  have ev: "request_event cfg req = None" using assms Some by (simp add: request_event_def)
  show ?thesis
  proof (cases "is_mutating (rq_op req)")
    case True
    with Some assms show ?thesis by (simp add: handleRequest_def)
  next
    case False
    from False dispatch_recorder [OF False] dispatch_service [of cfg req n L net sq env] Some ev show ?thesis
      by (simp add: handleRequest_def)
  qed
qed (simp add: handleRequest_def)

definition ex_settings :: CompanionSettings where
  "ex_settings = \<lparr>co_enabled = True, co_bind_host = ''h'', co_bind_port = 14541, send_host = ''h'', send_port = 14540,
     token = ''t'', max_request_bytes = 512, max_response_bytes = 1200, max_fc_logs_per_response = 8,
     udp_proxy_keepalive_ms = 1000\<rparr>"

definition ex_env :: rec_env where
  "ex_env = \<lparr>re_is_directory = True, re_access = True, re_self_dev = Some 1, re_parent_dev = Some 2, re_waitpid = 0,
     re_echild = False, re_spawn_rc = 0, re_child = 40, re_stamp = ''s'', re_now = 0, re_statvfs = None\<rparr>"

definition ex_net :: net where
  "ex_net = \<lparr>net_resolve = \<lambda>h p. Some [0], net_socket = \<lambda>a. 3, net_connect = \<lambda>a. True, net_bind = \<lambda>a. True\<rparr>"


lemma parse_ex_request:
  "op \<noteq> '''' \<Longrightarrow> parseRequest (ex_json_lib (request_json (ex_request op tok))) ''{}'' = Some (ex_request op tok)"
  by (simp add: parseRequest_def ex_json_lib_def request_json_def json_value_def get_int32_def parse_sel_def parse_ids_uint
      ex_request_def in_int32_def)

lemma ex_request_fields:
  "rq_id (ex_request op tok) = 7" "rq_op (ex_request op tok) = op" "rq_token (ex_request op tok) = tok"
  "rq_client (ex_request op tok) = ''gs''"
  by (simp_all add: ex_request_def)

theorem commands_need_token_witness:
  "same_but_calls (nd_service ex_node)
     (nd_service (snd (handleRequest (ex_json_lib (request_json (ex_request ''logs.erase'' ''x''))) ex_net ex_sqlite ex_env ex_settings
       ''{}'' ex_node)))"
  using commands_need_token [of ex_settings "ex_json_lib (request_json (ex_request ''logs.erase'' ''x''))" "''{}''" ex_node
      ex_net ex_sqlite ex_env]
  by (simp add: parse_ex_request ex_settings_def ex_request_fields)

text \<open>What holds of the server between two calls of \<^verbatim>\<open>start\<close> and \<^verbatim>\<open>stop\<close>.\<close>

definition server_ok :: "CompanionUdpServer \<Rightarrow> bool" where
  "server_ok srv \<longleftrightarrow> (if cs_running srv then cs_socket_fd srv \<noteq> -1 \<and> cs_open srv = [cs_socket_fd srv] \<and> cs_thread srv
     else cs_socket_fd srv = -1 \<and> cs_open srv = [] \<and> \<not> cs_thread srv \<and> \<not> cs_keepalive_thread srv)"

datatype server_call = Call_start net | Call_stop

fun server_step :: "server_call \<Rightarrow> CompanionUdpServer \<Rightarrow> CompanionUdpServer" where
  "server_step (Call_start net) srv = snd (server_start net srv)"
| "server_step Call_stop srv = server_stop srv"

lemma server_ok_start: "server_ok srv \<Longrightarrow> server_ok (snd (server_start net srv))"
  by (auto simp: server_start_def server_ok_def kInvalidSocket_def closeSocket_def Let_def split: option.split)

lemma server_ok_stop: "server_ok srv \<Longrightarrow> server_ok (server_stop srv) \<and> \<not> cs_running (server_stop srv)"
  by (simp add: server_stop_def server_ok_def closeSocket_def Let_def split: if_splits)

lemma server_ok_run: "server_ok srv \<Longrightarrow> server_ok (fold server_step cs srv)"
proof (induction cs arbitrary: srv)
  case (Cons c cs)
  then show ?case by (cases c) (simp_all add: server_ok_start server_ok_stop)
qed simp

text \<open>
  (C39) The server owns what it started and nothing else: after any calls of \<^verbatim>\<open>start\<close> and \<^verbatim>\<open>stop\<close>, whichever
  socket calls fail, it listens exactly while \<^verbatim>\<open>running_\<close> is set; then it holds one socket and a joinable
  receive thread, and otherwise no socket and no joinable thread, so that a later \<^verbatim>\<open>start\<close> never
  overwrites a joinable thread. A \<^verbatim>\<open>stop\<close> always leads there.
\<close>

theorem server_owns_one_socket:
  "let srv = fold server_step calls (CompanionUdpServer_new cfg) in
   server_ok srv \<and> isListening srv = cs_running srv \<and> length (cs_open srv) = (if isListening srv then 1 else 0) \<and>
   cs_open (server_stop srv) = [] \<and> \<not> cs_thread (server_stop srv) \<and> \<not> cs_keepalive_thread (server_stop srv)"
proof -
  let ?s = "fold server_step calls (CompanionUdpServer_new cfg)"
  have ok: "server_ok ?s" by (rule server_ok_run) (simp add: server_ok_def CompanionUdpServer_new_def)
  from server_ok_stop [OF ok] ok show ?thesis
    by (auto simp: Let_def server_ok_def isListening_def)
qed

section \<open>The receive loop serves until it is stopped\<close>

lemma rxLoop_append:
  "server_rxLoop L net sq cfg ps n = (outs, Rx_waiting, n') \<Longrightarrow>
   server_rxLoop L net sq cfg (ps @ qs) n = (case server_rxLoop L net sq cfg qs n' of (outs', e, n'') \<Rightarrow> (outs @ outs', e, n''))"
proof (induction ps arbitrary: n outs)
  case (Cons p ps)
  from Cons.prems obtain buf out n1 outs1 where p: "rp_running p" "map_option (take (kBufSize - 1)) (rp_recv p) = Some buf"
      "length buf \<noteq> 0" "handleRequest L net sq (rp_env p) cfg buf (rp_others p n) = (Inr out, n1)"
      "server_rxLoop L net sq cfg ps n1 = (outs1, Rx_waiting, n')" "outs = out @ outs1"
    by (simp only: server_rxLoop.simps Let_def split: if_splits option.splits prod.splits sum.splits) auto
  from p(1-4) Cons.IH [OF p(5)] p(6) show ?case by (auto simp: Let_def split: prod.split)
qed simp

text \<open>
  One empty datagram silences the API: when \<^verbatim>\<open>recvfrom\<close> returns an empty datagram the receive loop
  ends, and no datagram after it is answered, whatever arrives.
\<close>

theorem empty_datagram_ends_loop:
  assumes "server_rxLoop L net sq cfg ps n = (outs, Rx_waiting, n')" and "rp_running p" and "rp_recv p = Some ''''"
  shows "server_rxLoop L net sq cfg (ps @ p # rest) n = (outs, Rx_exited, rp_others p n')"
  using rxLoop_append [OF assms(1), of "p # rest"] assms(2,3) by (simp add: Let_def)

theorem empty_datagram_ends_loop_witness:
  "server_rxLoop (ex_json_lib J_null) ex_net ex_sqlite ex_settings
     ([] @ \<lparr>rp_others = \<lambda>n. n, rp_running = True, rp_recv = Some '''', rp_env = ex_env\<rparr> #
       [\<lparr>rp_others = \<lambda>n. n, rp_running = True, rp_recv = Some ''{}'', rp_env = ex_env\<rparr>]) ex_node = ([], Rx_exited, ex_node)"
  using empty_datagram_ends_loop [of "ex_json_lib J_null" ex_net ex_sqlite ex_settings "[]" ex_node "[]" ex_node
      "\<lparr>rp_others = \<lambda>n. n, rp_running = True, rp_recv = Some '''', rp_env = ex_env\<rparr>"
      "[\<lparr>rp_others = \<lambda>n. n, rp_running = True, rp_recv = Some ''{}'', rp_env = ex_env\<rparr>]"]
  by simp

lemma buildSnapshot_ok: "(\<And>k. sq_ok sq k) \<Longrightarrow> \<exists>x n'. buildSnapshot sq env n = (Inr x, n')"
  by (simp add: buildSnapshot_def getStat_def sqlite_call_def Let_def split: prod.split)

lemma buildFcLogsPage_ok: "(\<And>k. sq_ok sq k) \<Longrightarrow> \<exists>x n'. buildFcLogsPage sq ofs m n = (Inr x, n')"
  using page_entries_ok [of sq "slice (max 0 ofs) (min (to_int (int (length (sv_logs (nd_service n))))) (to_int (max 0 ofs + m))) (sv_logs (nd_service n))" "nd_db n"]
  by (auto simp: buildFcLogsPage_def Let_def)

lemma dispatch_ok:
  assumes "\<And>k. sq_ok sq k" "\<not> (token cfg \<noteq> '''' \<and> rq_token req \<noteq> token cfg \<and> is_mutating (rq_op req))"
  shows "\<exists>out n'. dispatch L net sq env cfg req n = (Inr out, n')"
proof (cases "request_event cfg req")
  case (Some e)
  with request_event_kinds [OF Some] show ?thesis
    by (auto simp: dispatch_job dispatch_cancel respondToJobOutcome_def split: prod.splits)
next
  case None
  obtain x n1 y n2 where b: "buildSnapshot sq env n = (Inr x, n1)"
    "buildFcLogsPage sq (rq_offset req) (min (rq_limit req) (max_fc_logs_per_response cfg)) n = (Inr y, n2)"
    using buildSnapshot_ok [OF assms(1)] buildFcLogsPage_ok [OF assms(1)] by metis
  show ?thesis
  proof (cases "rq_op req = ''status'' \<or> rq_op req = ''fc.logs''")
    case True
    with b show ?thesis by (elim disjE) (simp_all add: dispatch_query)
  next
    case False
    with dispatch_other [OF None _ _ assms(2), of L net sq env n] show ?thesis by blast
  qed
qed

lemma handleRequest_ok:
  assumes "\<And>k. sq_ok sq k"
  shows "\<exists>out n'. handleRequest L net sq env cfg txt n = (Inr out, n')"
proof (cases "parseRequest L txt")
  case (Some req)
  with dispatch_ok [OF assms, of cfg req L net env n] show ?thesis by (auto simp: handleRequest_def)
qed (simp add: handleRequest_def)

definition valid_request :: "json_lib \<Rightarrow> CompanionSettings \<Rightarrow> string \<Rightarrow> bool" where
  "valid_request L cfg txt \<longleftrightarrow> int (length txt) \<le> max_request_bytes cfg \<and> parseRequest L txt \<noteq> None"

lemma handleRequest_count:
  assumes "net_resolve net (send_host cfg) (int_to_string (send_port cfg)) \<noteq> None"
    and "handleRequest L net sq env cfg txt n = (Inr out, n')"
  shows "length out = (if valid_request L cfg txt then 1 else 0)"
proof (cases "parseRequest L txt")
  case (Some req)
  with assms(2) sendToWfb_length [OF assms(1)] dispatch_responses [of cfg req L net sq env n out] show ?thesis
    by (auto simp: handleRequest_def valid_request_def split: if_splits)
qed (use assms(2) in \<open>simp add: handleRequest_def valid_request_def split: if_splits\<close>)

text \<open>
  (C20) The server keeps serving: while \<^verbatim>\<open>running_\<close> is set, SQLite answers, the address of the client side
  resolves and no datagram is empty, the receive loop stays alive and sends exactly one response for
  each datagram that is a valid request after its cut to the receive buffer, whatever the requests
  are and whatever the other threads do in between.
\<close>

theorem server_keeps_serving:
  assumes "\<And>k. sq_ok sq k" and "net_resolve net (send_host cfg) (int_to_string (send_port cfg)) \<noteq> None"
    and "\<forall>p\<in>set ps. rp_running p \<and> (\<exists>txt. rp_recv p = Some txt \<and> txt \<noteq> '''')"
  shows "\<exists>outs n'. server_rxLoop L net sq cfg ps n = (outs, Rx_waiting, n') \<and>
    length outs = length (filter (\<lambda>p. valid_request L cfg (take 4095 (the (rp_recv p)))) ps)"
  using assms(3)
proof (induction ps arbitrary: n)
  case (Cons p ps)
  from Cons.prems obtain buf where p: "rp_running p" "rp_recv p = Some buf" "buf \<noteq> ''''" by auto
  obtain out n1 where h: "handleRequest L net sq (rp_env p) cfg (take 4095 buf) (rp_others p n) = (Inr out, n1)"
    using handleRequest_ok [OF assms(1)] by blast
  from Cons.IH [of n1] Cons.prems obtain outs n' where "server_rxLoop L net sq cfg ps n1 = (outs, Rx_waiting, n')"
      "length outs = length (filter (\<lambda>p. valid_request L cfg (take 4095 (the (rp_recv p)))) ps)" by auto
  with p h handleRequest_count [OF assms(2) h] show ?case by (simp add: kBufSize_def Let_def)
qed simp

theorem server_keeps_serving_witness:
  "\<exists>outs n'. server_rxLoop (ex_json_lib (request_json (ex_request ''logs.erase'' ''x''))) ex_net ex_sqlite ex_settings
     [\<lparr>rp_others = \<lambda>n. n, rp_running = True, rp_recv = Some ''{}'', rp_env = ex_env\<rparr>] ex_node = (outs, Rx_waiting, n') \<and>
   length outs = length (filter (\<lambda>p. valid_request (ex_json_lib (request_json (ex_request ''logs.erase'' ''x''))) ex_settings
       (take 4095 (the (rp_recv p)))) [\<lparr>rp_others = \<lambda>n. n, rp_running = True, rp_recv = Some ''{}'', rp_env = ex_env\<rparr>])"
  by (rule server_keeps_serving) (simp_all add: ex_sqlite_def ex_net_def)

text \<open>A datagram that is no request is dropped without an answer, malformed JSON included.\<close>

lemma malformed_is_dropped:
  "parseRequest L buf = None \<Longrightarrow> handleRequest L net sq env cfg buf n = (Inr [], n)"
  by (simp add: handleRequest_def)

text \<open>
  A status request ends the process when SQLite fails: the exception of the catalog is caught by no
  one on the receive thread.
\<close>

lemma failed_query_escapes:
  assumes "\<not> sq_ok sq (sqlite_calls (nd_db n))" and "int (length txt) \<le> max_request_bytes cfg"
    and "parseRequest L txt = Some req" and "rq_op req = ''status''"
  shows "\<exists>e. fst (handleRequest L net sq env cfg txt n) = Inl e"
  using assms
  by (simp add: handleRequest_def is_mutating_def dispatch_query buildSnapshot_def getStat_def sqlite_call_def Let_def)

section \<open>The keepalive is quiet about failures\<close>

lemma keepalive_failures:
  "k + length ps < 2 ^ 64 \<Longrightarrow> \<forall>x\<in>set ps. \<exists>r. x = (True, r, True) \<and> r < 0 \<Longrightarrow>
   length (filter (\<lambda>a. a = Warn_failed) (keepalive_loop ms first (of_nat k) ps)) =
     length (filter (\<lambda>i. i mod 30 = 0) [k..<k + length ps])"
proof (induction ps arbitrary: k)
  case (Cons p ps)
  from Cons.prems(2) obtain r where p: "p = (True, r, True)" "r < 0" by auto
  have m: "((of_nat k :: u64) mod 30 = 0) = (k mod 30 = 0)"
    using Cons.prems(1) by (simp add: word_arith_nat_mod unat_of_nat take_bit_nat_eq_self word_unat_eq_iff)
  have s: "(of_nat k :: u64) + 1 = of_nat (Suc k)" by simp
  have u: "[k..<k + length (p # ps)] = k # [Suc k..<Suc k + length ps]" by (simp add: upt_conv_Cons del: upt_Suc)
  from Cons.IH [of "Suc k"] Cons.prems show ?case
    unfolding u by (simp add: p m s del: of_nat_Suc upt_Suc)
qed simp

lemma multiples_below: "length (filter (\<lambda>i. i mod 30 = 0) [0..<k]) = (k + 29) div 30"
proof (induction k)
  case (Suc k)
  have "(Suc k + 29) div 30 = (k + 29) div 30 + (if k mod 30 = 0 then 1 else 0)"
    using div_Suc [of "k + 29" 30] mod_add_self2 [of k 30] by simp
  with Suc show ?case by simp
qed simp

text \<open>
  An unreachable peer does not flood the log: while every keepalive fails, the loop keeps sending one
  per interval and warns only at the first of each thirty failures.
\<close>

theorem keepalive_warns_rarely:
  assumes "net_resolve net (send_host cfg) (int_to_string (send_port cfg)) \<noteq> None" and "length ps < 2 ^ 64"
    and "\<forall>x\<in>set ps. \<exists>r. x = (True, r, True) \<and> r < 0"
  shows "length (filter (\<lambda>a. a = Send_keepalive) (udpProxyKeepaliveLoop net cfg ps)) = length ps \<and>
    length (filter (\<lambda>a. a = Warn_failed) (udpProxyKeepaliveLoop net cfg ps)) = (length ps + 29) div 30"
proof -
  have u: "udpProxyKeepaliveLoop net cfg ps = keepalive_loop (udp_proxy_keepalive_ms cfg) False (of_nat 0) ps"
    using assms(1) by (auto simp: udpProxyKeepaliveLoop_def)
  have "length (filter (\<lambda>a. a = Send_keepalive) (keepalive_loop ms first c ps)) = length ps" for ms first c
    using assms(3) by (induction ps arbitrary: c) auto
  with keepalive_failures [of 0 ps] assms(2,3) show ?thesis by (simp only: u multiples_below add_0)
qed

theorem keepalive_warns_rarely_witness:
  "length (filter (\<lambda>a. a = Warn_failed) (udpProxyKeepaliveLoop ex_net ex_settings (replicate 31 (True, -1, True)))) = 2"
  using keepalive_warns_rarely [of ex_net ex_settings "replicate 31 (True, -1, True)"] by (simp add: ex_net_def)

end
