(* ===== verification/ServiceMain.thy ===== *)
theory ServiceMain
  imports ConfigLoad DroneLogSafety CompanionUdpServer
begin

text \<open>
  \<^verbatim>\<open>main\<close> and the frame of \<^verbatim>\<open>DroneLogService::run\<close>: the configuration is loaded, the service and its companion
  server are started, the main loop runs until a signal clears \<^verbatim>\<open>running_\<close>, and everything is shut
  down. Opening the sinks of the log is a parameter.
\<close>

section \<open>The whole of \<^verbatim>\<open>run\<close>\<close>

text \<open>
  One pass of the main loop, with what requests did to the recorder meanwhile. A run that has not ended
  when the given passes are used up, or whose script of the outside world is, is still running.
\<close>

record loop_pass =
  lp_input :: pass_input
  lp_recorder :: "VideoRecorder \<Rightarrow> VideoRecorder"

datatype run_end = Run_waiting | Run_returned | Run_threw exn | Run_terminated

type_synonym process = "node \<times> CompanionUdpServer option"

definition companion_new :: "Config \<Rightarrow> CompanionUdpServer option" where
  "companion_new cfg = (if co_enabled (companion cfg) then Some (CompanionUdpServer_new (companion cfg)) else None)"

text \<open>A server that cannot be started is destroyed, and the service goes on without it.\<close>

definition companion_start :: "net \<Rightarrow> CompanionUdpServer option \<Rightarrow> CompanionUdpServer option" where
  "companion_start net so =
     (case so of
        None \<Rightarrow> None
      | Some srv \<Rightarrow> (case server_start net srv of (ok, srv) \<Rightarrow> if ok then Some srv else None))"

text \<open>
  The end of \<^verbatim>\<open>run\<close>. The recorder is stopped before the companion server: \<open>late\<close> is what requests served in
  between do to the recorder.
\<close>

definition run_shutdown ::
  "sqlite \<Rightarrow> rec_env \<Rightarrow> (VideoRecorder \<Rightarrow> VideoRecorder) \<Rightarrow> process \<Rightarrow> run_end \<times> process" where
  "run_shutdown sq env late P =
     (case P of (n, so) \<Rightarrow>
        let v = late (fst (snd (rec_stop env (nd_recorder n)))); so = map_option server_stop so in
        case run_finish sq (nd_service n) of
          None \<Rightarrow> (Run_waiting, n, so)
        | Some (Inl e, s) \<Rightarrow> (Run_threw e, \<lparr>nd_service = s, nd_recorder = v\<rparr>, so)
        | Some (Inr _, s) \<Rightarrow> (Run_returned, \<lparr>nd_service = s, nd_recorder = v\<rparr>, so))"

fun run_loop ::
  "os \<Rightarrow> sqlite \<Rightarrow> rec_env \<Rightarrow> (VideoRecorder \<Rightarrow> VideoRecorder) \<Rightarrow> loop_pass list \<Rightarrow> process \<Rightarrow> run_end \<times> process" where
  "run_loop os sq env late [] (n, so) =
     (if sv_ended (nd_service n) then (Run_terminated, n, so)
      else if \<not> sv_running (nd_service n) then run_shutdown sq env late (n, so)
      else (Run_waiting, n, so))"
| "run_loop os sq env late (p # ps) (n, so) =
     (if sv_ended (nd_service n) then (Run_terminated, n, so)
      else if \<not> sv_running (nd_service n) then run_shutdown sq env late (n, so)
      else
        let v = lp_recorder p (nd_recorder n) in
        case run_pass os sq (lp_input p) (nd_service n) of
          None \<Rightarrow> (Run_waiting, n, so)
        | Some (Inl e, s) \<Rightarrow> (Run_threw e, \<lparr>nd_service = s, nd_recorder = v\<rparr>, so)
        | Some (Inr _, s) \<Rightarrow> run_loop os sq env late ps (\<lparr>nd_service = s, nd_recorder = v\<rparr>, so))"

text \<open>
  \<open>early\<close> are the events between the installation of the signal handlers and the first test of
  \<^verbatim>\<open>running_\<close>. Nothing before that test reads what they change, so they are handled last.
\<close>

definition service_run ::
  "os \<Rightarrow> sqlite \<Rightarrow> net \<Rightarrow> rec_env \<Rightarrow> service_event list \<Rightarrow> loop_pass list \<Rightarrow> (VideoRecorder \<Rightarrow> VideoRecorder) \<Rightarrow>
   process \<Rightarrow> run_end \<times> process" where
  "service_run os sq net env early ps late P =
     (case P of (n, so) \<Rightarrow>
        case run_start os sq (nd_service n) of
          None \<Rightarrow> (Run_waiting, n, so)
        | Some (Inl e, s) \<Rightarrow> (Run_threw e, n\<lparr>nd_service := s\<rparr>, so)
        | Some (Inr _, s) \<Rightarrow>
            run_loop os sq env late ps (n\<lparr>nd_service := handle_events early s\<rparr>, companion_start net so))"

text \<open>
  The destruction of the service when \<^verbatim>\<open>main\<close> leaves its block: \<^verbatim>\<open>stop()\<close>, then the members in reverse order,
  where \<^verbatim>\<open>~VideoRecorder\<close> and \<^verbatim>\<open>~CompanionUdpServer\<close> call \<^verbatim>\<open>stop()\<close> and \<^verbatim>\<open>~MavlinkClient\<close> disconnects.
\<close>

definition service_destroy :: "rec_env \<Rightarrow> process \<Rightarrow> process" where
  "service_destroy env P =
     (case P of (n, so) \<Rightarrow>
        (\<lparr>nd_service = upd_dl client_disconnect (upd_dl requestCancel ((nd_service n)\<lparr>sv_running := False\<rparr>)),
          nd_recorder = fst (snd (rec_stop env (nd_recorder n)))\<rparr>, map_option server_stop so))"

section \<open>\<^verbatim>\<open>main\<close>\<close>

datatype main_end = Exit int | Aborted | Running

definition kDefaultConfigPath :: string where
  "kDefaultConfigPath = ''/etc/mcls/config.toml''"

definition config_path :: "string list \<Rightarrow> string" where
  "config_path argv = (if 1 < length argv then argv ! 1 else kDefaultConfigPath)"

definition node_new :: "Config \<Rightarrow> tick list \<Rightarrow> filesystem \<Rightarrow> database \<Rightarrow> node" where
  "node_new cfg ts fs db =
     \<lparr>nd_service = DroneLogService_new cfg ts fs db, nd_recorder = VideoRecorder_new (recording cfg)\<rparr>"

definition service_main ::
  "toml_lib \<Rightarrow> (string \<Rightarrow> string + table) \<Rightarrow> (LoggingSettings \<Rightarrow> bool) \<Rightarrow> os \<Rightarrow> sqlite \<Rightarrow> net \<Rightarrow> rec_env \<Rightarrow>
   string list \<Rightarrow> service_event list \<Rightarrow> loop_pass list \<Rightarrow> (VideoRecorder \<Rightarrow> VideoRecorder) \<Rightarrow> tick list \<Rightarrow> filesystem \<Rightarrow>
   database \<Rightarrow> main_end" where
  "service_main T parse_file open_log os sq net env argv early ps late ts fs db =
     (case loadFromFile T parse_file (config_path argv) of
        Inl _ \<Rightarrow> Exit 1
      | Inr cfg \<Rightarrow>
          if \<not> open_log (logging cfg) then Exit 1
          else case createTransport (transport cfg) of
            Inl _ \<Rightarrow> Exit 1
          | Inr _ \<Rightarrow>
              (case fst (service_run os sq net env early ps late (node_new cfg ts fs db, companion_new cfg)) of
                 Run_waiting \<Rightarrow> Running
               | Run_returned \<Rightarrow> Exit 0
               | Run_threw _ \<Rightarrow> Exit 1
               | Run_terminated \<Rightarrow> Aborted))"

section \<open>Lemmas\<close>

text \<open>Only a signal clears \<^verbatim>\<open>running_\<close>.\<close>

definition signal_frame :: "service_event list \<Rightarrow> service \<Rightarrow> service \<Rightarrow> bool" where
  "signal_frame es s s' \<longleftrightarrow> (sv_running s \<longrightarrow> sv_running s' \<or> Ev_signal \<in> set es)"

lemma fold_onFlightEvent_running [simp]: "sv_running (fold onFlightEvent es s) = sv_running s"
  by (induction es arbitrary: s) simp_all

lemma monitor_call_running [simp]: "sv_running (monitor_call f s) = sv_running s"
  by (simp add: monitor_call_def split: prod.split)

lemma event_running: "e \<noteq> Ev_signal \<Longrightarrow> sv_running (handle_event e s) = sv_running s"
proof (cases e)
  case (Ev_message m age)
  then show ?thesis
    by (simp add: handleParsedMessage_def onMavlinkMessage_def Let_def handleConnectionLost_def disconnect_on_def upd_dl_def
        setState_def split: mav_rx.split)
next
  case (Ev_request kind ids all)
  then show ?thesis
    by (cases kind) (simp_all add: requestCompanionJob_def request_erase_def request_download_def push_command_def upd_dl_def Let_def)
qed (simp_all add: push_command_def upd_dl_def)

interpretation signalled: whole_run_frame signal_frame
proof unfold_locales
  fix e s
  show "signal_frame [e] s (handle_event e s)"
    using event_running [of e s] by (auto simp: signal_frame_def)
next
  fix s :: service and c q
  show "signal_frame [] s (process_command c (s\<lparr>sv_commands := q\<rparr>))"
    by (cases c) (simp_all add: signal_frame_def setState_def upd_dl_def)
qed (auto simp: signal_frame_def local_change_def cacheEnumerationResult_def setState_def)

lemma stat_dl: "lift_io (db_call (getStat sq k)) s = Some (x, s') \<Longrightarrow> sv_dl s' = sv_dl s"
  by (auto simp: db_call_eq elim!: lift_io_SomeE split: prod.splits)

lemma logStatistics_dl: "logStatistics sq s = Some (x, s') \<Longrightarrow> sv_dl s' = sv_dl s"
  unfolding logStatistics_def
  by (elim sbnd_SomeE; drule stat_dl; auto simp: sdo_def dest!: stat_dl elim!: sbnd_SomeE)

lemma run_finish_dl: "run_finish sq s = Some (x, s') \<Longrightarrow> sv_dl s' = client_disconnect (requestCancel (sv_dl s))"
  by (auto simp: run_finish_def upd_dl_def dest!: logStatistics_dl)

lemma rec_stop_idle: "vr_pid (fst (snd (rec_stop env v))) \<le> 0"
  by (simp add: rec_stop_def Let_def)

lemma run_shutdown_returned:
  assumes "run_shutdown sq env late (n, so) = (Run_returned, n', so')"
  shows "\<not> connected (sv_dl (nd_service n')) \<and> (\<exists>v. vr_pid v \<le> 0 \<and> nd_recorder n' = late v) \<and>
    so' = map_option server_stop so"
  using assms rec_stop_idle [of env "nd_recorder n"]
  by (auto simp: run_shutdown_def Let_def client_disconnect_def requestCancel_def dest!: run_finish_dl
      split: option.splits prod.splits sum.splits)

lemma run_loop_returned:
  assumes "run_loop os sq env late ps (n, so) = (Run_returned, n', so')"
  shows "(\<exists>n1. run_shutdown sq env late (n1, so) = (Run_returned, n', so')) \<and>
    (sv_running (nd_service n) \<longrightarrow> (\<exists>p\<in>set ps. Ev_signal \<in> set (in_between (lp_input p) @ in_during (lp_input p))))"
  using assms
proof (induction ps arbitrary: n)
  case Nil
  then show ?case by (auto split: if_splits)
next
  case (Cons p ps)
  show ?case
  proof (cases "sv_running (nd_service n) \<and> \<not> sv_ended (nd_service n)")
    case True
    with Cons.prems obtain s where s: "run_pass os sq (lp_input p) (nd_service n) = Some (Inr (), s)"
      and l: "run_loop os sq env late ps (\<lparr>nd_service = s, nd_recorder = lp_recorder p (nd_recorder n)\<rparr>, so) = (Run_returned, n', so')"
      by (auto simp: Let_def split: option.splits prod.splits sum.splits)
    from signalled.pass_frame [OF s] True
    have "sv_running s \<or> Ev_signal \<in> set (in_between (lp_input p) @ in_during (lp_input p))" by (simp add: signal_frame_def)
    with Cons.IH [OF l] show ?thesis by auto
  next
    case False
    with Cons.prems show ?thesis by (auto split: if_splits)
  qed
qed

text \<open>The link is down and the companion server, if there is one, holds no socket and no thread.\<close>

definition link_released :: "process \<Rightarrow> bool" where
  "link_released P \<longleftrightarrow>
     (case P of (n, so) \<Rightarrow>
        \<not> connected (sv_dl (nd_service n)) \<and>
        (case so of None \<Rightarrow> True
         | Some srv \<Rightarrow> cs_open srv = [] \<and> \<not> isListening srv \<and> \<not> cs_thread srv \<and> \<not> cs_keepalive_thread srv))"

lemma stopped_server_released:
  assumes "server_ok srv"
  shows "cs_open (server_stop srv) = [] \<and> \<not> isListening (server_stop srv) \<and> \<not> cs_thread (server_stop srv) \<and>
    \<not> cs_keepalive_thread (server_stop srv) \<and> server_ok (server_stop srv)"
  using server_ok_stop [OF assms] by (auto simp: server_ok_def isListening_def split: if_splits)

lemma companion_start_ok: "companion_start net (companion_new cfg) = Some srv \<Longrightarrow> server_ok srv"
proof -
  have "server_ok (CompanionUdpServer_new (companion cfg))" by (simp add: server_ok_def CompanionUdpServer_new_def)
  from server_ok_start [OF this, of net]
  show "companion_start net (companion_new cfg) = Some srv \<Longrightarrow> server_ok srv"
    by (auto simp: companion_start_def companion_new_def split: if_splits prod.splits)
qed

lemma run_returned:
  assumes "service_run os sq net env early ps late (node_new cfg ts fs db, companion_new cfg) = (Run_returned, P)"
  shows "Ev_signal \<in> set (early @ concat (map (\<lambda>p. in_between (lp_input p) @ in_during (lp_input p)) ps)) \<and>
    link_released P \<and> (\<exists>v. vr_pid v \<le> 0 \<and> nd_recorder (fst P) = late v) \<and>
    link_released (service_destroy env P) \<and> vr_pid (nd_recorder (fst (service_destroy env P))) \<le> 0"
proof -
  obtain n' so' where P: "P = (n', so')" by fastforce
  let ?n = "node_new cfg ts fs db" and ?so = "companion_start net (companion_new cfg)"
  from assms P obtain s where s: "run_start os sq (nd_service ?n) = Some (Inr (), s)"
    and l: "run_loop os sq env late ps (?n\<lparr>nd_service := handle_events early s\<rparr>, ?so) = (Run_returned, n', so')"
    by (auto simp: service_run_def split: option.splits prod.splits sum.splits)
  have "sv_running s"
    using signalled.start_frame [OF s] by (simp add: signal_frame_def node_new_def DroneLogService_new_def)
  with signalled.R_handle_events [of early s] have "sv_running (handle_events early s) \<or> Ev_signal \<in> set early"
    by (simp add: signal_frame_def)
  with run_loop_returned [OF l] obtain n1 where d: "run_shutdown sq env late (n1, ?so) = (Run_returned, n', so')"
    and sig: "Ev_signal \<in> set (early @ concat (map (\<lambda>p. in_between (lp_input p) @ in_during (lp_input p)) ps))" by auto
  note rd = run_shutdown_returned [OF d]
  have "link_released (n', so') \<and> link_released (service_destroy env (n', so'))"
    using rd companion_start_ok [of net cfg] stopped_server_released
    by (auto simp: link_released_def service_destroy_def upd_dl_def client_disconnect_def split: option.split)
  with sig rd P rec_stop_idle [of env "nd_recorder n'"] show ?thesis by (auto simp: service_destroy_def)
qed

section \<open>Properties\<close>

text \<open>
  (C26) The service ends well only on a signal, and then it has released everything: when \<^verbatim>\<open>main\<close> exits with 0,
  the configuration was loaded and names a known transport, and a SIGINT or SIGTERM arrived after the
  handlers were installed, before the main loop or in one of its passes. At the return of \<^verbatim>\<open>run\<close> the link
  to the flight controller is down, the companion server, if there is one, holds no socket and no
  joinable thread, and the recorder is as the requests served between its stop and the server's stop
  left it; once the service is destroyed no recording runs.
\<close>

theorem main_ends_by_signal:
  assumes "service_main T parse_file open_log os sq net env argv early ps late ts fs db = Exit 0"
  shows "Ev_signal \<in> set (early @ concat (map (\<lambda>p. in_between (lp_input p) @ in_during (lp_input p)) ps)) \<and>
    (\<exists>cfg P. loadFromFile T parse_file (config_path argv) = Inr cfg \<and> lower (ts_transport (transport cfg)) \<in> {''tcp'', ''udp''} \<and>
       service_run os sq net env early ps late (node_new cfg ts fs db, companion_new cfg) = (Run_returned, P) \<and>
       link_released P \<and> (\<exists>v. vr_pid v \<le> 0 \<and> nd_recorder (fst P) = late v) \<and>
       link_released (service_destroy env P) \<and> vr_pid (nd_recorder (fst (service_destroy env P))) \<le> 0)"
proof -
  from assms obtain cfg t where c: "loadFromFile T parse_file (config_path argv) = Inr cfg" "createTransport (transport cfg) = Inr t"
    and r: "fst (service_run os sq net env early ps late (node_new cfg ts fs db, companion_new cfg)) = Run_returned"
    by (auto simp: service_main_def split: sum.splits if_splits run_end.splits)
  from r obtain P where P: "service_run os sq net env early ps late (node_new cfg ts fs db, companion_new cfg) = (Run_returned, P)"
    by (cases "service_run os sq net env early ps late (node_new cfg ts fs db, companion_new cfg)") simp
  have "lower (ts_transport (transport cfg)) \<in> {''tcp'', ''udp''}"
    using c(2) by (auto simp: createTransport_def Let_def split: if_splits)
  with c(1) P run_returned [OF P] show ?thesis by blast
qed

text \<open>A run of one pass in which a signal arrives.\<close>

definition ex_pass :: loop_pass where
  "ex_pass = \<lparr>lp_input = ex_inp\<lparr>in_between := [Ev_signal]\<rparr>, lp_recorder = \<lambda>v. v\<rparr>"

definition ex_fs :: filesystem where
  "ex_fs = \<lparr>fs_files = [], fs_dirs = []\<rparr>"

definition returns :: "'a sio \<Rightarrow> bool" where
  "returns m \<longleftrightarrow> (\<forall>s. \<exists>x s'. m s = Some (Inr x, s'))"

lemma returns_sbnd: "returns m \<Longrightarrow> (\<And>x. returns (f x)) \<Longrightarrow> returns (sbnd m f)"
  unfolding returns_def sbnd_def by (metis (no_types, lifting) case_prod_conv option.case(2) sum.case(2))

lemma returns_stat: "returns (lift_io (db_call (getStat ex_sqlite k)))"
  by (simp add: returns_def lift_io_def db_call_def getStat_def sqlite_call_def ex_sqlite_def)

lemma returns_sdo: "returns (sdo f)"
  by (simp add: returns_def sdo_def)

lemma returns_finish: "returns (run_finish ex_sqlite)"
  unfolding run_finish_def logStatistics_def by (intro returns_sbnd returns_stat returns_sdo)

lemma ex_run_returns:
  "fst (service_run ex_os ex_sqlite ex_net ex_env [] [ex_pass] (\<lambda>v. v) (node_new Config_default [] ex_fs Database_new, so)) = Run_returned"
proof -
  obtain s where s: "run_start ex_os ex_sqlite ex_service = Some (Inr (), s)" "\<not> sv_ended s" "sv_running s"
    "sv_state s = Boot" "sv_commands s = []"
    using ex_start by blast
  let ?t = "setState Connect (signalHandler s)"
  have p: "run_pass ex_os ex_sqlite (lp_input ex_pass) s = Some (Inr (), ?t)"
    using s(2-5) by (simp add: service_exec ex_pass_def signalHandler_def)
  obtain u where u: "run_finish ex_sqlite ?t = Some (Inr (), u)"
    using returns_finish by (auto simp: returns_def)
  have t: "\<not> sv_ended ?t" "\<not> sv_running ?t" using s(2) by (simp_all add: setState_def signalHandler_def)
  have n: "nd_service (node_new Config_default [] ex_fs Database_new) = ex_service"
    by (simp add: node_new_def ex_service_def ex_fs_def)
  show ?thesis using s(1-3) p u t by (simp add: service_run_def n run_shutdown_def handle_events_def)
qed

theorem main_ends_by_signal_witness:
  "service_main ex_toml_lib (\<lambda>_. Inr []) (\<lambda>_. True) ex_os ex_sqlite ex_net ex_env [''mcls''] [] [ex_pass] (\<lambda>v. v) [] ex_fs
     Database_new = Exit 0 \<and>
   (\<exists>P. service_run ex_os ex_sqlite ex_net ex_env [] [ex_pass] (\<lambda>v. v)
      (node_new Config_default [] ex_fs Database_new, companion_new Config_default) = (Run_returned, P) \<and> link_released P)"
proof -
  have l: "loadFromFile ex_toml_lib (\<lambda>_. Inr []) (config_path [''mcls'']) = Inr Config_default"
    by (simp add: loadFromFile_def ConfigLoad.in_order_def load_transport_def load_section_def as_table_def)
  have m: "service_main ex_toml_lib (\<lambda>_. Inr []) (\<lambda>_. True) ex_os ex_sqlite ex_net ex_env [''mcls''] [] [ex_pass] (\<lambda>v. v) [] ex_fs
      Database_new = Exit 0"
    using ex_run_returns by (simp add: service_main_def l createTransport_def Let_def) (simp add: Config_default_def lower_def lower_char_def)
  from main_ends_by_signal [OF m] m l show ?thesis by auto
qed

end
