(* ===== verification/CompanionDiagnostics.thy ===== *)
theory CompanionDiagnostics
  imports Transport
begin

text \<open>
  \<^verbatim>\<open>CompanionDiagnostics\<close>: the lines that the companion API writes to the log about its settings and its
  peers. The message of the last socket error and \<^verbatim>\<open>getnameinfo\<close> are results of the operating system.
\<close>

datatype log_line = Log_debug string | Log_info string | Log_warn string

definition bool_to_string :: "bool \<Rightarrow> string" where
  "bool_to_string b = (if b then ''true'' else ''false'')"

text \<open>The dash in the text of the warning, encoded in UTF-8.\<close>

definition em_dash :: string where
  "em_dash = [CHR 0xE2, CHR 0x80, CHR 0x94]"

definition logEffectiveSettings :: "CompanionSettings \<Rightarrow> string \<Rightarrow> bool \<Rightarrow> log_line list" where
  "logEffectiveSettings cfg path table_present =
     [Log_info (''Companion config from '' @ path @ '': [companion] table '' @
        (if table_present then ''present'' else ''absent (using defaults)'')),
      Log_info (''Companion enabled='' @ bool_to_string (co_enabled cfg) @
        '' bind='' @ co_bind_host cfg @ '':'' @ int_to_string (co_bind_port cfg) @
        '' send='' @ send_host cfg @ '':'' @ int_to_string (send_port cfg) @
        '' auth='' @ (if token cfg = '''' then ''disabled'' else ''token-configured'') @
        '' max_request_bytes='' @ int_to_string (max_request_bytes cfg) @
        '' max_response_bytes='' @ int_to_string (max_response_bytes cfg) @
        '' max_fc_logs_per_response='' @ int_to_string (max_fc_logs_per_response cfg))] @
     (if \<not> table_present \<and> \<not> co_enabled cfg
      then [Log_info (''Companion hint: add [companion] enabled = true to '' @ path @
              '' (not sample_master_config.toml) then restart the service'')] else []) @
     (if co_enabled cfg \<and> co_bind_port cfg = send_port cfg
      then [Log_warn (''Companion misconfiguration: bind_port and send_port are both '' @
              int_to_string (co_bind_port cfg) @ '' '' @ em_dash @
              '' bind_port must differ (wfb-ng owns send_port, typically 14540)'')] else [])"

definition logUdpPeer :: "string \<Rightarrow> (string \<times> string) option \<Rightarrow> log_line" where
  "logUdpPeer prefix nameinfo =
     (case nameinfo of
        Some (host, port) \<Rightarrow> Log_debug (prefix @ '' from '' @ host @ '':'' @ port)
      | None \<Rightarrow> Log_debug (prefix @ '' from unknown peer (getnameinfo failed)''))"

section \<open>Properties\<close>

text \<open>
  The log does not give the token away: what is logged at startup is the same for any two tokens that
  are set, and the misconfiguration of the ports is reported exactly when the API is enabled on one
  port for both directions.
\<close>

theorem startup_log_hides_token:
  assumes "a \<noteq> ''''" and "b \<noteq> ''''"
  shows "logEffectiveSettings (cfg\<lparr>token := a\<rparr>) path present = logEffectiveSettings (cfg\<lparr>token := b\<rparr>) path present \<and>
    (list_ex (\<lambda>l. \<exists>x. l = Log_warn x) (logEffectiveSettings cfg path present) \<longleftrightarrow> co_enabled cfg \<and> co_bind_port cfg = send_port cfg)"
  using assms by (simp add: logEffectiveSettings_def)

end
