(* ===== verification/Spec2Isabelle.thy ===== *)
theory Spec2Isabelle
  imports GapFill ServiceMain CompanionDiagnostics
begin

text \<open>
  The MAVLink companion log service (\<^verbatim>\<open>mcls\<close>) runs on a computer aboard a drone. It watches the heartbeats of
  the flight controller (FC), and after a disarm it enumerates the DataFlash logs of the FC, downloads
  them over MAVLink, validates, stores and catalogues them, and may then erase them on the FC. A ground
  station can query and command it over UDP, and it can record video. This development models the
  service and proves what its parts, and the parts together, guarantee.

  \<^bold>\<open>Parts and theories.\<close> File names are those below \<^verbatim>\<open>src/src\<close> and \<^verbatim>\<open>src/include/mcls\<close>.

  \<^item> Arithmetic and data: \<open>MavlinkLogProtocol\<close> (chunks of 90 bytes), \<open>ReceivedRanges\<close>, \<open>Crc32\<close>,
    \<open>ChunkCoverageTracker\<close>, \<open>Sha256\<close>, \<open>DataFlashValidator\<close>, \<open>FcSampleOffsets\<close> model the files of the same
    name, on words of the width of the source; \<open>Types\<close> has the structs, enums and defaults of \<^verbatim>\<open>Types.hpp\<close>,
    \<^verbatim>\<open>ArchiveSummary.hpp\<close> and \<^verbatim>\<open>Config.hpp\<close>; \<open>Strings\<close> and \<open>Prelude\<close> are shared vocabulary.
  \<^item> Download: \<open>DownloaderState\<close> and \<open>LogDownloader\<close> model \<^verbatim>\<open>LogDownloader.cpp\<close>, \<open>StreamDownloadSession\<close>
    its session. The state shared with the RX thread is the record \<open>downloader\<close>. What the outside world
    does is a script of \<open>tick\<close>s in that record; each wait of the code consumes one, and an operation whose
    script is used up is still waiting (\<open>None\<close>). Operations that also use storage and catalog are in a
    monad \<open>io\<close> over all three, with exceptions as values.
  \<^item> Storage: \<open>StorageManager\<close> on a file system of paths and bytes, \<open>Database\<close> on rows and counters. The
    operating system and SQLite are the parameters \<open>os\<close> and \<open>sqlite\<close>, whose calls may fail at any time.
  \<^item> Service: \<open>FlightMonitor\<close>, \<open>CompanionCommandQueue\<close> and \<open>DroneLogService\<close>, the state machine with the
    parts of \<^verbatim>\<open>MavlinkClient.cpp\<close> it calls. The handlers of other threads are the \<open>service_event\<close>s; each
    holds its mutex and is one atomic step. \<open>DroneLogFrame\<close> defines runs (\<open>svc_run\<close>): passes of the main
    loop interleaved with events.
  \<^item> Link and settings: \<open>Transport\<close> (TCP and UDP transport, factory, RX loop of the client) over a
    parameter \<open>net\<close> of socket results, \<open>ConfigLoad\<close> (\<^verbatim>\<open>Config.cpp\<close>) over a parameter for the TOML library.
  \<^item> Companion API: \<open>ServiceSnapshot\<close> (the two providers of \<^verbatim>\<open>DroneLogService.cpp\<close>), \<open>CompanionProtocol\<close> on
    JSON trees over a parameter for the JSON library, \<open>CompanionUdpServer\<close> (socket, receive loop, keepalive
    loop, \<^verbatim>\<open>handleRequest\<close>), \<open>CompanionDiagnostics\<close>, \<open>VideoRecorder\<close>.
  \<^item> Process: \<open>ServiceMain\<close> is \<^verbatim>\<open>main\<close> and the frame of \<^verbatim>\<open>run\<close>: start, main loop, shutdown and destruction, with
    the signals that arrive before the loop and the requests served during the shutdown as arguments.

  \<^bold>\<open>What is shown.\<close>

  \<^item> Downloads: a successful run is the replay of received chunks (\<open>DownloadCorrectness\<close>), so that the file is
    the log whatever was lost, repeated or reordered, unless a write failed, which the code does not notice
    (the file is then a \<open>partial_copy\<close>); it ends (\<open>DownloadLiveness\<close>) and succeeds when all
    chunks arrive in time (\<open>DownloadCompletes\<close>); gap requests ask for missing bytes only, and never
    return at the 32-bit limit (\<open>GapFill\<close>).
  \<^item> Archiving: \<open>ArchiveCorrectness\<close> relates the results of \<^verbatim>\<open>archiveOne\<close> and \<^verbatim>\<open>archiveAll\<close> to files and catalog,
    on every error path; \<open>LogEnumeration\<close> is about the list of logs. \<open>ArchiveFrame\<close> carries what every step
    preserves in the locale \<open>cycle_frame\<close>.
  \<^item> Equivalences: SHA-256 against FIPS 180-4 (its constants from the roots of the primes), the validator against the grammar of records, the conflict
    detection against a comparison of the chunks, the catalog with failing calls against a map, the recorder against a machine
    of three states.
  \<^item> The service: \<open>DroneLogSafety\<close> proves over all runs when the FC is erased (\<open>cycle_of_run\<close>: after
    a cycle of the same run that archived the cached logs in turn), through interpretations of
    the locales \<open>run_frame\<close> and \<open>whole_run_frame\<close>; \<open>ServiceMain\<close> interprets the same locale to show that
    only a signal ends the service.
  \<^item> The API: requests survive the wire, responses fit their budget, a datagram acts on the service exactly
    as the event the main model has for it (\<open>request_refines_event\<close>), commands need the token, and the
    receive loop answers each valid request once. The last section of this theory puts server and
    main loop together.

  \<^bold>\<open>Interfaces.\<close> The contracts between parts are locales that are interpreted on the model:
  \<open>byte_tracker\<close> (received ranges), \<open>incremental_hash\<close>, \<open>chunk_source\<close> (the queue of LOG_DATA), \<open>log_catalog\<close>,
  \<open>byte_source\<close> (both transports), \<open>fifo\<close> (the command queue), \<open>cycle_frame\<close>, \<open>run_frame\<close> and
  \<open>whole_run_frame\<close>.

  \<^bold>\<open>Bounds and fuel.\<close> Loops over data are structurally recursive or have a measure. The waiting loops of a
  session and of the enumeration take the number of waits from the script; that enough waits give a result is
  proved (\<open>run_returns\<close>, \<open>enumeration_returns\<close>). The RX loop of the client takes the number of bytes
  after which it is stopped. Passes of the main loop and of the server are lists of what happened in them. The
  clock counts milliseconds without a bound; \<^verbatim>\<open>double\<close> is a rational number. A C++ \<^verbatim>\<open>int\<close> is an integer that is
  reduced to 32 bits where the source converts or where a sum can leave the range (\<open>to_int\<close>, \<open>to_int64\<close>).

  \<^bold>\<open>Not modelled.\<close> Log lines and the performance summary that only feeds one (\<^verbatim>\<open>Logger.cpp\<close>,
  \<^verbatim>\<open>ArchiveSummary.cpp\<close> except its enum, the timing of the benchmark output) have no effect on the state.
  Third-party code is a parameter: MAVLink packing and parsing, SQLite, JSON, TOML, spdlog, the operating
  system. \<^verbatim>\<open>ServiceSnapshot.cpp\<close> is empty. The Winsock branches of \<^verbatim>\<open>SocketPlatform.hpp\<close> are left out. Threads
  interleave at the granularity of the mutexes and waits of the code; requests that arrive during a
  pass take effect at its waits, through the script, or at its ends. Failing creation of a thread or
  memory allocation is not modelled.
\<close>

section \<open>The companion server and the main loop together\<close>

text \<open>
  The process as a whole: datagrams are handled by the server, other events by their handlers, and the
  main loop makes its passes. Datagrams that are handled while a pass runs take effect as their events
  (\<open>request_refines_event\<close>), and may have used the recorder.
\<close>

fun is_api_event :: "service_event \<Rightarrow> bool" where
  "is_api_event (Ev_request kind ids all) \<longleftrightarrow> True"
| "is_api_event Ev_cancel \<longleftrightarrow> True"
| "is_api_event _ \<longleftrightarrow> False"

definition from_datagrams :: "json_lib \<Rightarrow> CompanionSettings \<Rightarrow> string list \<Rightarrow> service_event list \<Rightarrow> bool" where
  "from_datagrams L cfg ds es \<longleftrightarrow>
     list_all (\<lambda>e. is_api_event e \<longrightarrow> list_ex (\<lambda>d. datagram_event L cfg d = Some e) ds) es"

inductive node_run :: "os \<Rightarrow> sqlite \<Rightarrow> net \<Rightarrow> json_lib \<Rightarrow> Config \<Rightarrow> node \<Rightarrow> string list \<Rightarrow> node \<Rightarrow> bool"
  for os :: os and sq :: sqlite and net :: net and L :: json_lib and cfg :: Config and n0 :: node where
  started: "run_start os sq (nd_service n0) = Some (Inr (), s) \<Longrightarrow> node_run os sq net L cfg n0 [] (n0\<lparr>nd_service := s\<rparr>)"
| datagram: "node_run os sq net L cfg n0 ds n \<Longrightarrow> \<not> sv_ended (nd_service n) \<Longrightarrow>
    handleRequest L net sq env (companion cfg) d n = (Inr out, n') \<Longrightarrow> node_run os sq net L cfg n0 (ds @ [d]) n'"
| event: "node_run os sq net L cfg n0 ds n \<Longrightarrow> \<not> sv_ended (nd_service n) \<Longrightarrow> \<not> is_api_event e \<Longrightarrow>
    node_run os sq net L cfg n0 ds (n\<lparr>nd_service := handle_event e (nd_service n)\<rparr>)"
| pass: "node_run os sq net L cfg n0 ds n \<Longrightarrow> \<not> sv_ended (nd_service n) \<Longrightarrow> sv_running (nd_service n) \<Longrightarrow>
    run_pass os sq inp (nd_service n) = Some (Inr (), s') \<Longrightarrow>
    from_datagrams L (companion cfg) ds' (in_between inp @ in_during inp) \<Longrightarrow>
    node_run os sq net L cfg n0 (ds @ ds') \<lparr>nd_service = s', nd_recorder = v\<rparr>"

lemma from_datagrams_append:
  "from_datagrams L cfg ds es \<Longrightarrow> from_datagrams L cfg ds' es' \<Longrightarrow> from_datagrams L cfg (ds @ ds') (es @ es')"
  by (auto simp: from_datagrams_def list_all_iff list_ex_iff)

lemma datagram_events: "datagram_event L cfg d = Some e \<Longrightarrow> (\<exists>kind ids all. e = Ev_request kind ids all) \<or> e = Ev_cancel"
  by (auto simp: datagram_event_def split: if_splits bind_splits dest!: request_event_kinds)

lemma api_event_ended: "is_api_event e \<Longrightarrow> sv_ended (handle_event e s) = sv_ended s"
proof (cases e)
  case (Ev_request kind ids all)
  then show ?thesis
    by (cases kind) (simp_all add: requestCompanionJob_def request_erase_def request_download_def push_command_def upd_dl_def Let_def)
qed (simp_all add: push_command_def upd_dl_def)

text \<open>Every run of the process is, for the service, a run of the main model.\<close>

lemma node_run_simulated:
  assumes "node_run os sq net L cfg n0 ds n"
  shows "\<exists>tr. svc_run os sq (nd_service n0) tr (nd_service n) \<and> from_datagrams L (companion cfg) ds tr"
  using assms
proof (induction rule: node_run.induct)
  case (started s)
  then have "svc_run os sq (nd_service n0) [] s" by (rule svc_run.started)
  then show ?case by (auto simp: from_datagrams_def)
next
  case (datagram ds n env d out n')
  let ?s = "case datagram_event L (companion cfg) d of None \<Rightarrow> nd_service n | Some e \<Rightarrow> handle_event e (nd_service n)"
  let ?es = "case datagram_event L (companion cfg) d of None \<Rightarrow> [] | Some e \<Rightarrow> [e]"
  from datagram.IH obtain tr where tr: "svc_run os sq (nd_service n0) tr (nd_service n)" "from_datagrams L (companion cfg) ds tr"
    by blast
  obtain k where k: "nd_service n' = handle_event (Ev_reads k) ?s"
    using handleRequest_service [of n L "companion cfg" d net sq env] datagram.hyps(3) by (auto simp: same_but_calls_def)
  have "svc_run os sq (nd_service n0) (tr @ ?es) ?s \<and> \<not> sv_ended ?s"
  proof (cases "datagram_event L (companion cfg) d")
    case (Some e)
    then have "is_api_event e" using datagram_events by fastforce
    with Some svc_run.event [OF tr(1) datagram.hyps(2), of e] datagram.hyps(2) show ?thesis by (simp add: api_event_ended)
  qed (use tr(1) datagram.hyps(2) in simp)
  with svc_run.event [of os sq "nd_service n0" "tr @ ?es" ?s "Ev_reads k"]
  have "svc_run os sq (nd_service n0) (tr @ (?es @ [Ev_reads k])) (nd_service n')" by (simp add: k)
  moreover have "from_datagrams L (companion cfg) [d] (?es @ [Ev_reads k])"
    by (simp add: from_datagrams_def split: option.split)
  ultimately show ?case using from_datagrams_append [OF tr(2)] by blast
next
  case (event ds n e)
  from event.IH obtain tr where tr: "svc_run os sq (nd_service n0) tr (nd_service n)" "from_datagrams L (companion cfg) ds tr"
    by blast
  have "from_datagrams L (companion cfg) ds (tr @ [e])" using tr(2) event.hyps(3) by (simp add: from_datagrams_def)
  with svc_run.event [OF tr(1) event.hyps(2), of e] show ?case by auto
next
  case (pass ds n inp s' ds' v)
  from pass.IH obtain tr where tr: "svc_run os sq (nd_service n0) tr (nd_service n)" "from_datagrams L (companion cfg) ds tr"
    by blast
  from svc_run.pass [OF tr(1) pass.hyps(2-4)] from_datagrams_append [OF tr(2) pass.hyps(5)] show ?case by auto
qed

text \<open>A datagram that may erase: a request for it, with the token if one is configured.\<close>

definition erase_datagram :: "json_lib \<Rightarrow> CompanionSettings \<Rightarrow> string \<Rightarrow> bool" where
  "erase_datagram L cfg d \<longleftrightarrow>
     (case parseRequest L d of
        None \<Rightarrow> False
      | Some req \<Rightarrow> rq_op req = ''logs.erase'' \<and> (token cfg = '''' \<or> rq_token req = token cfg))"

lemma erase_event_datagram:
  "datagram_event L cfg d = Some (Ev_request EraseAll_job ids all) \<Longrightarrow> erase_datagram L cfg d"
  by (auto simp: datagram_event_def request_event_def erase_datagram_def split: if_splits bind_splits)

lemma erase_request_datagram:
  assumes "from_datagrams L cfg ds es" and "list_ex is_erase_request es"
  shows "list_ex (erase_datagram L cfg) ds"
proof -
  from assms(2) obtain ids all where e: "Ev_request EraseAll_job ids all \<in> set es"
    by (auto simp: list_ex_iff elim!: is_erase_request.elims)
  with assms(1) obtain d where "d \<in> set ds" "datagram_event L cfg d = Some (Ev_request EraseAll_job ids all)"
    by (auto simp: from_datagrams_def list_all_iff list_ex_iff)
  then show ?thesis by (auto simp: list_ex_iff dest: erase_event_datagram)
qed

section \<open>Properties\<close>

text \<open>
  (C5) The logs of the flight controller are safe from strangers: in any run of the whole process, when a
  pass of the main loop sends LOG_ERASE, then one of the datagrams received so far was a request
  \<^verbatim>\<open>logs.erase\<close> that carried the configured token (if one is configured), or \<^verbatim>\<open>erase_after_success\<close> is set,
  the cached list of logs is not empty, the cycle is not cancelled when the main loop looks at its
  state, and the last pass of this run was an archive cycle that enumerated exactly the cached logs,
  archived or recognised each of them in turn, and whose catalogued digests are all still in the
  catalog.
\<close>

theorem erase_needs_token:
  assumes "node_run os sq net L cfg (node_new cfg ts fs db) ds n"
    and "run_pass os sq inp (nd_service n) = Some (x, s')" and "erases (nd_service n) s'"
    and "from_datagrams L (companion cfg) ds' (in_between inp)"
  shows "list_ex (erase_datagram L (companion cfg)) (ds @ ds') \<or>
    (erase_after_success (download cfg) \<and> sv_logs (nd_service n) \<noteq> [] \<and> \<not> cancelled (sv_dl (before inp (nd_service n))) \<and>
     (\<exists>tr. svc_run os sq (DroneLogService_new cfg ts fs db) tr (nd_service n) \<and> from_datagrams L (companion cfg) ds tr \<and>
        cycle_of_run os sq (DroneLogService_new cfg ts fs db) tr (nd_service n)))"
proof -
  from node_run_simulated [OF assms(1)] obtain tr
    where t: "svc_run os sq (DroneLogService_new cfg ts fs db) tr (nd_service n)" and f: "from_datagrams L (companion cfg) ds tr"
    by (auto simp: node_new_def)
  from erase_cause [OF t assms(2,3)] erase_request_datagram [OF from_datagrams_append [OF f assms(4)]] t f
  show ?thesis by blast
qed

text \<open>A run with a datagram that requests an erase.\<close>

abbreviation ex_lib :: json_lib where
  "ex_lib \<equiv> ex_json_lib (request_json (ex_request ''logs.erase'' ''t''))"

lemma ex_erase_datagram:
  assumes "sv_state (nd_service n) = WaitHeartbeat" and "sv_dl (nd_service n) = LogDownloader_new DownloadSettings_default []"
  shows "\<exists>out. handleRequest ex_lib ex_net ex_sqlite ex_env (companion Config_default) ''{}'' n =
    (Inr out, n\<lparr>nd_service := push_command EraseAllLogsCommand (nd_service n)\<rparr>)"
proof -
  have ev: "request_event (companion Config_default) (ex_request ''logs.erase'' ''t'') = Some (Ev_request EraseAll_job [] False)"
    by (simp add: request_event_def ex_request_fields Config_default_def)
  have "handleRequest ex_lib ex_net ex_sqlite ex_env (companion Config_default) ''{}'' n =
      dispatch ex_lib ex_net ex_sqlite ex_env (companion Config_default) (ex_request ''logs.erase'' ''t'') n"
    by (simp add: handleRequest_def parse_ex_request ex_request_fields) (simp add: Config_default_def)
  then show ?thesis by (simp add: dispatch_job [OF ev] respondToJobOutcome_def ex_erase_request [OF assms])
qed

lemma ex_node_run:
  "\<exists>n s'. node_run ex_os ex_sqlite ex_net ex_lib Config_default (node_new Config_default [] ex_fs Database_new) [''{}''] n \<and>
     run_pass ex_os ex_sqlite ex_inp (nd_service n) = Some (Inr (), s') \<and> erases (nd_service n) s'"
proof -
  let ?n0 = "node_new Config_default [] ex_fs Database_new"
  let ?run = "node_run ex_os ex_sqlite ex_net ex_lib Config_default ?n0"
  obtain s s1 s2 where s: "run_start ex_os ex_sqlite ex_service = Some (Inr (), s)"
    "run_pass ex_os ex_sqlite ex_inp s = Some (Inr (), s1)" "run_pass ex_os ex_sqlite ex_inp s1 = Some (Inr (), s2)"
    "list_all (\<lambda>s. \<not> sv_ended s \<and> sv_running s) [s, s1, s2]"
    and s2: "sv_state s2 = WaitHeartbeat" "sv_commands s2 = []" "sv_dl s2 = LogDownloader_new DownloadSettings_default []"
    using ex_passes by blast
  have n0: "nd_service ?n0 = ex_service" by (simp add: node_new_def ex_service_def ex_fs_def)
  have none: "from_datagrams ex_lib (companion Config_default) [] (in_between ex_inp @ in_during ex_inp)"
    by (simp add: from_datagrams_def ex_inp_def)
  have "?run [] (?n0\<lparr>nd_service := s\<rparr>)" using s(1) by (intro node_run.started) (simp add: n0)
  from node_run.pass [OF this _ _ _ none, of s1 undefined] s have "?run [] \<lparr>nd_service = s1, nd_recorder = undefined\<rparr>" by simp
  from node_run.pass [OF this _ _ _ none, of s2 undefined] s have r: "?run [] \<lparr>nd_service = s2, nd_recorder = undefined\<rparr>" by simp
  obtain out where h: "handleRequest ex_lib ex_net ex_sqlite ex_env (companion Config_default) ''{}'' \<lparr>nd_service = s2, nd_recorder = undefined\<rparr>
      = (Inr out, \<lparr>nd_service = push_command EraseAllLogsCommand s2, nd_recorder = undefined\<rparr>)"
    using ex_erase_datagram [of "\<lparr>nd_service = s2, nd_recorder = undefined\<rparr>"] s2 by auto
  from node_run.datagram [OF r _ h] s(4)
  have "?run [''{}''] \<lparr>nd_service = push_command EraseAllLogsCommand s2, nd_recorder = undefined\<rparr>" by simp
  moreover obtain s' where "run_pass ex_os ex_sqlite ex_inp (push_command EraseAllLogsCommand s2) = Some (Inr (), s')"
    "erases (push_command EraseAllLogsCommand s2) s'"
    using ex_erase_pass [OF _ s2(2,3)] s(4) by auto
  ultimately show ?thesis by (metis node.select_convs(1))
qed

theorem erase_needs_token_witness:
  "\<exists>n s'. node_run ex_os ex_sqlite ex_net ex_lib Config_default (node_new Config_default [] ex_fs Database_new) [''{}''] n \<and>
     run_pass ex_os ex_sqlite ex_inp (nd_service n) = Some (Inr (), s') \<and> erases (nd_service n) s' \<and>
     (list_ex (erase_datagram ex_lib (companion Config_default)) ([''{}''] @ []) \<or> sv_logs (nd_service n) \<noteq> [])"
proof -
  obtain n s' where n: "node_run ex_os ex_sqlite ex_net ex_lib Config_default (node_new Config_default [] ex_fs Database_new) [''{}''] n"
    "run_pass ex_os ex_sqlite ex_inp (nd_service n) = Some (Inr (), s')" "erases (nd_service n) s'"
    using ex_node_run by blast
  have "from_datagrams ex_lib (companion Config_default) [] (in_between ex_inp)" by (simp add: from_datagrams_def ex_inp_def)
  from erase_needs_token [OF n this] n show ?thesis by blast
qed

end
